(* ===== verification/Prelude.thy ===== *)
theory Prelude
  imports Main "HOL-Library.Char_ord" "HOL-Library.List_Lexorder" "HOL-Library.Option_ord"
    "HOL-Library.Word" "HOL-Library.Sublist"
begin

text \<open>
  Shared base of the development: the parts of the Rust standard library that the modelled
  code uses.

  \<^item> A \<open>BTreeMap\<close> is its list of entries in ascending key order (\<open>btree_map\<close>), so
    that iteration order, range queries and equality are the ones of the source. Its laws
    are the locale \<open>keyed_map\<close>, interpreted here on the list operations.
  \<^item> \<open>Result\<close> is the sum type with the error on the left, \<open>Option\<close> is \<open>option\<close>.
  \<^item> A string is its list of UTF-8 bytes (\<open>string\<close>), ordered lexicographically by byte
    as \<open>str\<close> is; decimal printing and parsing of integers, \<open>str::split\<close>,
    \<open>str::replace\<close> and \<open>[String]::join\<close> are written out.
\<close>

named_theorems catalog_simps \<open>equations for the operations of the resource catalog\<close>
named_theorems json_simps \<open>equations for member access on JSON values\<close>

type_synonym ('e, 'a) result = "'e + 'a"

section \<open>Ordered maps\<close>

type_synonym ('k, 'v) btree_map = "('k \<times> 'v) list"

definition bm_ok :: "('k::linorder, 'v) btree_map \<Rightarrow> bool" where
  "bm_ok m \<longleftrightarrow> sorted_wrt (<) (map fst m)"

abbreviation bm_get :: "('k, 'v) btree_map \<Rightarrow> 'k \<Rightarrow> 'v option" where
  "bm_get m k \<equiv> map_of m k"

fun bm_insert :: "'k::linorder \<Rightarrow> 'v \<Rightarrow> ('k, 'v) btree_map \<Rightarrow> ('k, 'v) btree_map" where
  "bm_insert k v [] = [(k, v)]"
| "bm_insert k v ((k', v') # m) =
     (if k < k' then (k, v) # (k', v') # m
      else if k = k' then (k, v) # m
      else (k', v') # bm_insert k v m)"

definition bm_remove :: "'k \<Rightarrow> ('k, 'v) btree_map \<Rightarrow> ('k, 'v) btree_map" where
  "bm_remove k m = filter (\<lambda>(k', _). k' \<noteq> k) m"

definition bm_retain :: "('k \<Rightarrow> bool) \<Rightarrow> ('k, 'v) btree_map \<Rightarrow> ('k, 'v) btree_map" where
  "bm_retain P m = filter (\<lambda>(k', _). P k') m"

text \<open>
  \<open>BTreeMap::range\<close>: it panics (\<open>None\<close>) when the range is inverted, or empty with
  both ends excluded.
\<close>

datatype 'k bound = Included 'k | Excluded 'k | Unbounded

fun above :: "'k::linorder bound \<Rightarrow> 'k \<Rightarrow> bool" where
  "above (Included l) k = (l \<le> k)"
| "above (Excluded l) k = (l < k)"
| "above Unbounded k = True"

fun below :: "'k::linorder bound \<Rightarrow> 'k \<Rightarrow> bool" where
  "below (Included h) k = (k \<le> h)"
| "below (Excluded h) k = (k < h)"
| "below Unbounded k = True"

fun range_panics :: "'k::linorder bound \<Rightarrow> 'k bound \<Rightarrow> bool" where
  "range_panics (Included l) (Included h) = (h < l)"
| "range_panics (Included l) (Excluded h) = (h < l)"
| "range_panics (Excluded l) (Included h) = (h < l)"
| "range_panics (Excluded l) (Excluded h) = (h \<le> l)"
| "range_panics _ _ = False"

definition bm_range ::
  "'k::linorder bound \<Rightarrow> 'k bound \<Rightarrow> ('k, 'v) btree_map \<Rightarrow> ('k, 'v) btree_map option" where
  "bm_range lo hi m =
     (if range_panics lo hi then None
      else Some (filter (\<lambda>(k, _). above lo k \<and> below hi k) m))"

subsection \<open>The interface of a keyed map\<close>

locale keyed_map =
  fixes get :: "'m \<Rightarrow> 'k \<Rightarrow> 'v option"
    and put :: "'k \<Rightarrow> 'v \<Rightarrow> 'm \<Rightarrow> 'm"
    and del :: "'k \<Rightarrow> 'm \<Rightarrow> 'm"
    and ok :: "'m \<Rightarrow> bool"
  assumes get_put: "get (put k v m) = (get m)(k \<mapsto> v)"
    and get_del: "get (del k m) = (get m)(k := None)"
    and ok_put: "ok m \<Longrightarrow> ok (put k v m)"
    and ok_del: "ok m \<Longrightarrow> ok (del k m)"
    and ext: "ok m \<Longrightarrow> ok m' \<Longrightarrow> get m = get m' \<Longrightarrow> m = m'"
begin

lemma get_put_same: "get (put k v m) k = Some v"
  by (simp add: get_put)

lemma get_put_other: "k \<noteq> k' \<Longrightarrow> get (put k v m) k' = get m k'"
  by (simp add: get_put)

lemma put_put: "ok m \<Longrightarrow> put k v (put k w m) = put k v m"
  by (rule ext) (simp_all add: get_put ok_put)

lemma put_swap: "ok m \<Longrightarrow> k \<noteq> k' \<Longrightarrow> put k v (put k' w m) = put k' w (put k v m)"
  by (rule ext) (auto simp: get_put ok_put)

lemma put_id: "ok m \<Longrightarrow> get m k = Some v \<Longrightarrow> put k v m = m"
  by (rule ext) (auto simp: get_put ok_put)

lemma del_put: "ok m \<Longrightarrow> del k (put k v m) = del k m"
  by (rule ext) (simp_all add: get_put get_del ok_put ok_del)

lemma put_del: "ok m \<Longrightarrow> put k v (del k m) = put k v m"
  by (rule ext) (simp_all add: get_put get_del ok_put ok_del)

lemma del_id: "ok m \<Longrightarrow> get m k = None \<Longrightarrow> del k m = m"
  by (rule ext) (auto simp: get_del ok_del)

end

lemma bm_ok_Nil [simp]: "bm_ok []"
  by (simp add: bm_ok_def)

lemma bm_ok_Cons: "bm_ok ((k, v) # m) \<longleftrightarrow> (\<forall>k' \<in> fst ` set m. k < k') \<and> bm_ok m"
  by (auto simp: bm_ok_def)

lemma bm_ok_distinct: "bm_ok m \<Longrightarrow> distinct (map fst m)"
  unfolding bm_ok_def by (simp add: strict_sorted_iff)

lemma map_of_bm_insert [simp]: "map_of (bm_insert k v m) = (map_of m)(k \<mapsto> v)"
  by (induction m) auto

lemma fst_set_bm_insert [simp]: "fst ` set (bm_insert k v m) = insert k (fst ` set m)"
  by (induction k v m rule: bm_insert.induct) (auto simp: insert_commute)

lemma bm_ok_insert [simp, intro]: "bm_ok m \<Longrightarrow> bm_ok (bm_insert k v m)"
proof (induction k v m rule: bm_insert.induct)
  case (2 k v k' v' m)
  then have "k < k' \<Longrightarrow> \<forall>x \<in> fst ` set m. k < x"
    by (auto simp: bm_ok_Cons intro: less_trans)
  with 2 show ?case by (auto simp: bm_ok_Cons)
qed (simp add: bm_ok_def)

lemma bm_ok_filter [intro]: "bm_ok m \<Longrightarrow> bm_ok (filter P m)"
  by (induction m) (auto simp: bm_ok_Cons)

lemma bm_ok_remove [simp, intro]: "bm_ok m \<Longrightarrow> bm_ok (bm_remove k m)"
  by (auto simp: bm_remove_def)

lemma bm_ok_retain [simp, intro]: "bm_ok m \<Longrightarrow> bm_ok (bm_retain P m)"
  by (auto simp: bm_retain_def)

lemma map_of_bm_retain: "map_of (bm_retain P m) k = (if P k then map_of m k else None)"
  by (induction m) (auto simp: bm_retain_def)

lemma map_of_bm_remove [simp]: "map_of (bm_remove k m) = (map_of m)(k := None)"
  by (induction m) (auto simp: bm_remove_def fun_eq_iff)

lemma fst_set_bm_remove: "fst ` set (bm_remove k m) = fst ` set m - {k}"
  by (force simp: bm_remove_def image_iff)

lemma bm_ok_ext:
  assumes "bm_ok m" and "bm_ok m'" and "map_of m = map_of m'"
  shows "m = m'"
proof (rule map_sorted_distinct_set_unique [where f = fst])
  have "set m = set m'"
    using assms bm_ok_distinct [of m] bm_ok_distinct [of m']
    by (metis map_of_eqI map_of_eq_Some_iff map_of_inject_set)
  then show "set m = set m'" .
  show "inj_on fst (set m \<union> set m')"
    using bm_ok_distinct [OF assms(1)] \<open>set m = set m'\<close>
    by (simp add: distinct_map)
  show "sorted (map fst m)" "sorted (map fst m')"
    using assms(1,2) by (simp_all add: bm_ok_def strict_sorted_imp_sorted)
  show "distinct (map fst m)" "distinct (map fst m')"
    using assms(1,2) by (simp_all add: bm_ok_distinct)
qed

interpretation bm: keyed_map map_of bm_insert bm_remove bm_ok
  by unfold_locales (auto intro: bm_ok_ext)

lemma bm_get_mem: "bm_ok m \<Longrightarrow> (k, v) \<in> set m \<longleftrightarrow> map_of m k = Some v"
  by (simp add: bm_ok_distinct)

lemma bm_range_Some:
  "\<not> range_panics lo hi \<Longrightarrow>
    bm_range lo hi m = Some (filter (\<lambda>(k, _). above lo k \<and> below hi k) m)"
  by (simp add: bm_range_def)

section \<open>Integers and strings\<close>

subsection \<open>Decimal rendering\<close>

definition digit_char :: "nat \<Rightarrow> char" where
  "digit_char d = char_of (48 + d)"

fun show_nat :: "nat \<Rightarrow> string" where
  "show_nat n = (if n < 10 then [digit_char n] else show_nat (n div 10) @ [digit_char (n mod 10)])"

declare show_nat.simps [simp del]

definition digit_val :: "char \<Rightarrow> nat option" where
  "digit_val c = (let n = of_char c :: nat in if 48 \<le> n \<and> n \<le> 57 then Some (n - 48) else None)"

fun parse_digits :: "nat \<Rightarrow> string \<Rightarrow> nat option" where
  "parse_digits acc [] = Some acc"
| "parse_digits acc (c # cs) =
     (case digit_val c of None \<Rightarrow> None | Some d \<Rightarrow> parse_digits (10 * acc + d) cs)"

text \<open>
  \<open>str::parse::<usize>\<close> on a 64-bit target: an optional leading plus sign, then at least
  one decimal digit, and a value below \<open>2 ^ 64\<close>.
\<close>

definition parse_usize :: "string \<Rightarrow> nat option" where
  "parse_usize s =
     (let ds = (case s of c # cs \<Rightarrow> if c = CHR ''+'' then cs else s | [] \<Rightarrow> [])
      in if ds = [] then None
         else case parse_digits 0 ds of
                None \<Rightarrow> None
              | Some n \<Rightarrow> if n < 2 ^ 64 then Some n else None)"

lemma digit_val_digit_char [simp]: "d < 10 \<Longrightarrow> digit_val (digit_char d) = Some d"
  by (simp add: digit_val_def digit_char_def Let_def)

lemma digit_char_not_plus: "d < 10 \<Longrightarrow> digit_char d \<noteq> CHR ''+''"
proof
  assume d: "d < 10" and "digit_char d = CHR ''+''"
  then have "of_char (digit_char d) = (of_char CHR ''+'' :: nat)" by simp
  with d show False by (simp add: digit_char_def)
qed

lemma parse_digits_append:
  "parse_digits acc (xs @ ys) =
    (case parse_digits acc xs of None \<Rightarrow> None | Some n \<Rightarrow> parse_digits n ys)"
  by (induction xs arbitrary: acc) (auto split: option.splits)

lemma show_nat_nonempty [simp]: "show_nat n \<noteq> []"
  by (subst show_nat.simps) simp

lemma parse_digits_show_nat: "parse_digits 0 (show_nat n) = Some n"
proof (induction n rule: show_nat.induct)
  case (1 n)
  show ?case
  proof (cases "n < 10")
    case True
    then show ?thesis by (subst show_nat.simps) simp
  next
    case False
    with 1 have "parse_digits 0 (show_nat (n div 10)) = Some (n div 10)" by simp
    with False show ?thesis
      by (subst show_nat.simps) (simp add: parse_digits_append)
  qed
qed

lemma show_nat_inj [simp]: "show_nat m = show_nat n \<longleftrightarrow> m = n"
  by (metis option.inject parse_digits_show_nat)

lemma hd_show_nat_not_plus: "hd (show_nat n) \<noteq> CHR ''+''"
proof (induction n rule: show_nat.induct)
  case (1 n)
  then show ?case
    by (subst show_nat.simps) (auto simp: digit_char_not_plus hd_append)
qed

lemma parse_usize_show_nat: "n < 2 ^ 64 \<Longrightarrow> parse_usize (show_nat n) = Some n"
  using hd_show_nat_not_plus [of n] parse_digits_show_nat [of n]
  by (cases "show_nat n") (auto simp: parse_usize_def Let_def)

subsection \<open>Splitting, joining and replacing\<close>

fun split_on :: "char \<Rightarrow> string \<Rightarrow> string list" where
  "split_on sep [] = [[]]"
| "split_on sep (c # cs) =
     (if c = sep then [] # split_on sep cs
      else case split_on sep cs of [] \<Rightarrow> [[c]] | w # ws \<Rightarrow> (c # w) # ws)"

fun join_with :: "string \<Rightarrow> string list \<Rightarrow> string" where
  "join_with sep [] = []"
| "join_with sep [w] = w"
| "join_with sep (w # ws) = w @ sep @ join_with sep ws"

text \<open>\<open>str::replace\<close> of a two-byte pattern, left to right without overlaps.\<close>

fun replace2 :: "char \<Rightarrow> char \<Rightarrow> string \<Rightarrow> string \<Rightarrow> string" where
  "replace2 a b by (x # y # cs) =
     (if x = a \<and> y = b then by @ replace2 a b by cs else x # replace2 a b by (y # cs))"
| "replace2 a b by cs = cs"

lemma split_on_nonempty [simp]: "split_on sep s \<noteq> []"
  by (induction s) (auto split: list.splits)

lemma split_on_no_sep: "sep \<notin> set s \<Longrightarrow> split_on sep s = [s]"
  by (induction s) auto

lemma split_on_append_sep:
  "sep \<notin> set s \<Longrightarrow> split_on sep (s @ sep # t) = s # split_on sep t"
  by (induction s) auto

end
