(* ===== verification/Json.thy ===== *)
theory Json
  imports Prelude
begin

text \<open>
  JSON documents as \<open>serde_json\<close> holds them (the store's \<open>ResourceValue\<close>). The crate is
  built without the \<open>preserve_order\<close> and \<open>arbitrary_precision\<close> features, so an object is a
  \<open>BTreeMap\<close> from strings and a number is an unsigned, a negative or a floating-point
  value. A float is kept as its IEEE bit pattern, with the negative zero read as zero, so
  that equality of the model is the crate's \<open>PartialEq\<close>.
\<close>

datatype number = PosInt nat | NegInt int | Float "64 word"

datatype json =
    JNull
  | JBool bool
  | JNumber number
  | JString string
  | JArray "json list"
  | JObject "(string \<times> json) list"

type_synonym json_map = "(string, json) btree_map"

text \<open>Every object of the document is an ordered map.\<close>

fun wf_json :: "json \<Rightarrow> bool" where
  "wf_json (JArray xs) = (\<forall>x \<in> set xs. wf_json x)"
| "wf_json (JObject m) = (bm_ok m \<and> (\<forall>(k, v) \<in> set m. wf_json v))"
| "wf_json _ = True"

section \<open>Reading\<close>

fun is_null :: "json \<Rightarrow> bool" where
  "is_null JNull = True"
| "is_null _ = False"

fun is_object :: "json \<Rightarrow> bool" where
  "is_object (JObject _) = True"
| "is_object _ = False"

fun is_array :: "json \<Rightarrow> bool" where
  "is_array (JArray _) = True"
| "is_array _ = False"

fun as_object :: "json \<Rightarrow> json_map option" where
  "as_object (JObject m) = Some m"
| "as_object _ = None"

fun as_array :: "json \<Rightarrow> json list option" where
  "as_array (JArray xs) = Some xs"
| "as_array _ = None"

fun as_str :: "json \<Rightarrow> string option" where
  "as_str (JString s) = Some s"
| "as_str _ = None"

fun as_i64 :: "json \<Rightarrow> int option" where
  "as_i64 (JNumber (PosInt n)) = (if int n < 2 ^ 63 then Some (int n) else None)"
| "as_i64 (JNumber (NegInt i)) = Some i"
| "as_i64 _ = None"

text \<open>\<open>Value::get\<close> with a string index: \<open>None\<close> on anything that is not an object.\<close>

fun jget :: "json \<Rightarrow> string \<Rightarrow> json option" where
  "jget (JObject m) k = map_of m k"
| "jget _ k = None"

text \<open>The number a signed or unsigned machine integer converts to.\<close>

definition number_of_i64 :: "int \<Rightarrow> number" where
  "number_of_i64 i = (if i < 0 then NegInt i else PosInt (nat i))"

definition member2 :: "string \<Rightarrow> string \<Rightarrow> json \<Rightarrow> json option" where
  "member2 a b v = Option.bind (jget v a) (\<lambda>m. jget m b)"

lemma as_i64_number_of_i64 [simp]:
  "i < 2 ^ 63 \<Longrightarrow> as_i64 (JNumber (number_of_i64 i)) = Some i"
  by (auto simp: number_of_i64_def)

lemma as_object_Some [simp]: "as_object v = Some m \<longleftrightarrow> v = JObject m"
  by (cases v) auto

lemma as_array_Some [simp]: "as_array v = Some xs \<longleftrightarrow> v = JArray xs"
  by (cases v) auto

lemma as_str_Some [simp]: "as_str v = Some s \<longleftrightarrow> v = JString s"
  by (cases v) auto

lemma as_object_None: "as_object v = None \<longleftrightarrow> \<not> is_object v"
  by (cases v) auto

lemma is_object_iff: "is_object v \<longleftrightarrow> (\<exists>m. v = JObject m)"
  by (cases v) auto

lemma is_array_iff: "is_array v \<longleftrightarrow> (\<exists>xs. v = JArray xs)"
  by (cases v) auto

lemma is_null_iff [simp]: "is_null v \<longleftrightarrow> v = JNull"
  by (cases v) auto

section \<open>Well-formedness of the parts\<close>

lemma wf_json_get: "wf_json (JObject m) \<Longrightarrow> map_of m k = Some v \<Longrightarrow> wf_json v"
  by (auto dest!: map_of_SomeD)

lemma wf_members_get:
  "\<forall>x \<in> set m. case x of (k, v) \<Rightarrow> wf_json v \<Longrightarrow> map_of m k = Some v \<Longrightarrow> wf_json v"
  by (auto dest!: map_of_SomeD)

lemma wf_json_jget: "wf_json v \<Longrightarrow> jget v k = Some w \<Longrightarrow> wf_json w"
  by (cases v) (auto dest!: map_of_SomeD)

lemma set_bm_insert: "set (bm_insert k v m) \<subseteq> insert (k, v) (set m)"
  by (induction m) (auto split: if_splits)

lemma wf_json_insert [simp, intro]:
  "wf_json (JObject m) \<Longrightarrow> wf_json v \<Longrightarrow> wf_json (JObject (bm_insert k v m))"
  using set_bm_insert [of k v m] by (fastforce simp: bm_ok_insert)

lemma wf_json_remove [simp, intro]: "wf_json (JObject m) \<Longrightarrow> wf_json (JObject (bm_remove k m))"
  by (auto simp: bm_remove_def)

lemma wf_json_retain [simp, intro]: "wf_json (JObject m) \<Longrightarrow> wf_json (JObject (bm_retain P m))"
  by (auto simp: bm_retain_def)

lemmas wf_json_object_ops = wf_json_insert wf_json_remove wf_json_retain

section \<open>Size\<close>

lemma size_object_member:
  "(k, v) \<in> set m \<Longrightarrow> size v < size (JObject m)"
  by (induction m) auto

lemma size_array_member: "x \<in> set xs \<Longrightarrow> size x < size (JArray xs)"
  by (induction xs) auto

end
