(* ===== verification/Resource.thy ===== *)
theory Resource
  imports Json "HOL-Library.Product_Lexorder"
begin

text \<open>
  Resource keys and list scopes (\<open>engenho-store/src/resource.rs\<close>): the identity of a
  stored object, its derived order, and the run of keys one LIST addresses. The main
  result is that the range query the code asks of the catalog map never panics and
  returns exactly the entries of the scope after the cursor.
\<close>

section \<open>Resource keys\<close>

datatype resource_key = ResourceKey
  (group: string) (version: string) (kind: string) (namespace: "string option") (name: string)

definition key_tuple ::
  "resource_key \<Rightarrow> string \<times> string \<times> string \<times> string option \<times> string" where
  "key_tuple k = (group k, version k, kind k, namespace k, name k)"

lemma key_tuple_inj [simp]: "key_tuple a = key_tuple b \<longleftrightarrow> a = b"
  by (cases a; cases b) (auto simp: key_tuple_def)

text \<open>The derived \<open>Ord\<close>: the fields in declaration order, \<open>None\<close> before \<open>Some\<close>.\<close>

instantiation resource_key :: linorder
begin

definition less_eq_resource_key :: "resource_key \<Rightarrow> resource_key \<Rightarrow> bool" where
  "less_eq_resource_key a b \<longleftrightarrow> key_tuple a \<le> key_tuple b"

definition less_resource_key :: "resource_key \<Rightarrow> resource_key \<Rightarrow> bool" where
  "less_resource_key a b \<longleftrightarrow> key_tuple a < key_tuple b"

instance
  by standard
    (auto simp: less_eq_resource_key_def less_resource_key_def dest: antisym [of "key_tuple _"])

end

definition namespaced :: "string \<Rightarrow> string \<Rightarrow> string \<Rightarrow> string \<Rightarrow> string \<Rightarrow> resource_key" where
  "namespaced g v k ns n = ResourceKey g v k (Some ns) n"

definition cluster_scoped :: "string \<Rightarrow> string \<Rightarrow> string \<Rightarrow> string \<Rightarrow> resource_key" where
  "cluster_scoped g v k n = ResourceKey g v k None n"

definition label :: "resource_key \<Rightarrow> string" where
  "label key =
     (let g = (if group key = [] then ''v1'' else group key)
      in case namespace key of
           Some ns \<Rightarrow> g @ ''/'' @ version key @ ''/'' @ kind key @ ''/'' @ ns @ ''/'' @ name key
         | None \<Rightarrow> g @ ''/'' @ version key @ ''/'' @ kind key @ ''/'' @ name key)"

section \<open>List scopes\<close>

record list_scope =
  sc_group :: string
  sc_version :: string
  sc_kind :: string
  sc_namespace :: "string option"

definition scope_new :: "string \<Rightarrow> string \<Rightarrow> string \<Rightarrow> string option \<Rightarrow> list_scope" where
  "scope_new g v k ns = \<lparr>sc_group = g, sc_version = v, sc_kind = k, sc_namespace = ns\<rparr>"

definition scope_contains :: "list_scope \<Rightarrow> resource_key \<Rightarrow> bool" where
  "scope_contains sc key \<longleftrightarrow>
     group key = sc_group sc \<and> version key = sc_version sc \<and> kind key = sc_kind sc \<and>
     (case sc_namespace sc of None \<Rightarrow> True | Some ns \<Rightarrow> namespace key = Some ns)"

text \<open>The least string that sorts after \<open>s\<close>.\<close>

definition successor :: "string \<Rightarrow> string" where
  "successor s = s @ [CHR 0x00]"

definition scope_first :: "list_scope \<Rightarrow> resource_key" where
  "scope_first sc = ResourceKey (sc_group sc) (sc_version sc) (sc_kind sc) (sc_namespace sc) []"

definition scope_end :: "list_scope \<Rightarrow> resource_key" where
  "scope_end sc =
     (let (k, ns) = (case sc_namespace sc of
                       None \<Rightarrow> (successor (sc_kind sc), None)
                     | Some ns \<Rightarrow> (sc_kind sc, Some (successor ns)))
      in ResourceKey (sc_group sc) (sc_version sc) k ns [])"

definition scope_range ::
  "list_scope \<Rightarrow> (resource_key, 'v) btree_map \<Rightarrow> resource_key option
    \<Rightarrow> (resource_key, 'v) btree_map option" where
  "scope_range sc m after =
     (let first = scope_first sc; end_key = scope_end sc;
          lower = (case after of
                     Some cursor \<Rightarrow>
                       (if cursor \<ge> end_key then Included end_key
                        else if cursor \<ge> first then Excluded cursor
                        else Included first)
                   | None \<Rightarrow> Included first)
      in bm_range lower (Excluded end_key) m)"

subsection \<open>A scope is one contiguous run of keys\<close>

lemma not_less_NUL [simp]: "\<not> c < CHR 0x00"
  by (simp add: less_char_def)

lemma less_successor: "t < successor s \<longleftrightarrow> t \<le> s"
proof (induction s arbitrary: t)
  case Nil
  show ?case
    by (cases t) (auto simp: successor_def)
next
  case (Cons c s)
  then show ?case
    by (cases t) (auto simp: successor_def)
qed

lemma between_successor: "s \<le> t \<and> t < successor s \<longleftrightarrow> t = s"
  by (auto simp: less_successor)

lemma Nil_le_list [simp]: "[] \<le> (xs :: 'a::order list)"
  by simp

lemma scope_contains_iff:
  "scope_contains sc key \<longleftrightarrow> scope_first sc \<le> key \<and> key < scope_end sc"
proof (cases "sc_namespace sc")
  case None
  then show ?thesis
    using between_successor [of "sc_kind sc" "kind key"]
    by (auto simp: scope_contains_def scope_first_def scope_end_def less_eq_resource_key_def
        less_resource_key_def key_tuple_def less_successor)
next
  case (Some ns)
  then show ?thesis
    using between_successor [of ns "the (namespace key)"]
    by (cases "namespace key")
      (auto simp: scope_contains_def scope_first_def scope_end_def less_eq_resource_key_def
        less_resource_key_def key_tuple_def less_successor)
qed

lemma scope_first_less_end: "scope_first sc < scope_end sc"
  using less_successor [of "sc_kind sc" "sc_kind sc"]
  by (auto simp: scope_first_def scope_end_def less_resource_key_def key_tuple_def less_successor
      split: option.splits)

lemma scope_range_filter:
  "scope_range sc m after =
     Some (filter (\<lambda>(k, _). scope_contains sc k \<and>
                     (case after of None \<Rightarrow> True | Some cursor \<Rightarrow> cursor < k)) m)"
proof (cases after)
  case None
  then show ?thesis
    using scope_first_less_end [of sc]
    by (auto simp: scope_range_def bm_range_def Let_def scope_contains_iff intro!: filter_cong)
next
  case (Some cursor)
  show ?thesis
    using scope_first_less_end [of sc] Some
    by (auto simp: scope_range_def bm_range_def Let_def scope_contains_iff intro!: filter_cong)
qed

section \<open>Properties of list scopes\<close>

text \<open>
  C24. The range one LIST (or one page of it) asks of the catalog never panics, whatever the
  cursor a client sends, and returns exactly the stored entries of the scope whose key is
  after the cursor, in key order.
\<close>

theorem list_range_exact:
  "scope_range sc m after =
     Some (filter (\<lambda>(k, _). scope_contains sc k \<and>
                     (case after of None \<Rightarrow> True | Some cursor \<Rightarrow> cursor < k)) m)"
  by (rule scope_range_filter)

end
