(* ===== verification/Hex.thy ===== *)
theory Hex
  imports Resource
begin

text \<open>
  Hexadecimal text, as the store writes it by hand: the continue tokens of
  \<open>engenho-store/src/pagination.rs\<close>, the key fingerprints of \<open>at_rest.rs\<close> and the minted
  uids of \<open>state.rs\<close>. A byte is a \<open>char\<close>, as in every string of the development.
\<close>

section \<open>Nibbles\<close>

definition hex_digit :: "nat \<Rightarrow> char" where
  "hex_digit n = ''0123456789abcdef'' ! n"

definition nibble :: "char \<Rightarrow> nat option" where
  "nibble c =
     (let n = of_char c :: nat
      in if 48 \<le> n \<and> n \<le> 57 then Some (n - 48)
         else if 97 \<le> n \<and> n \<le> 102 then Some (n - 97 + 10)
         else if 65 \<le> n \<and> n \<le> 70 then Some (n - 65 + 10)
         else None)"

lemma less_16_cases:
  assumes "n < (16::nat)"
  shows "n \<in> {0, 1, 2, 3, 4, 5, 6, 7, 8, 9, 10, 11, 12, 13, 14, 15}"
  using assms by (simp only: insert_iff empty_iff) presburger

lemma nibble_hex_digit [simp]: "n < 16 \<Longrightarrow> nibble (hex_digit n) = Some n"
  using less_16_cases [of n] by (auto simp: hex_digit_def nibble_def)

lemma hex_digit_inj: "m < 16 \<Longrightarrow> n < 16 \<Longrightarrow> hex_digit m = hex_digit n \<Longrightarrow> m = n"
  by (metis nibble_hex_digit option.inject)

lemma of_char_div_16 [simp]: "of_char c div (16::nat) < 16"
proof -
  have "of_char c < (256::nat)" by (metis mod_less_divisor of_char_mod_256 zero_less_numeral)
  then show ?thesis by (intro less_mult_imp_div_less) simp
qed

section \<open>Byte strings\<close>

definition hex_byte :: "char \<Rightarrow> string" where
  "hex_byte b = [hex_digit (of_char b div 16), hex_digit (of_char b mod 16)]"

definition to_hex :: "string \<Rightarrow> string" where
  "to_hex bytes = concat (map hex_byte bytes)"

fun hex_pairs :: "string \<Rightarrow> string option" where
  "hex_pairs (h # l # rest) =
     (case (nibble h, nibble l) of
        (Some hi, Some lo) \<Rightarrow> map_option (Cons (char_of (hi * 16 + lo))) (hex_pairs rest)
      | _ \<Rightarrow> None)"
| "hex_pairs _ = Some []"

definition from_hex :: "string \<Rightarrow> string option" where
  "from_hex s = (if length s mod 2 \<noteq> 0 then None else hex_pairs s)"

lemma of_char_split: "of_char b div 16 * 16 + of_char b mod 16 = (of_char b :: nat)"
  by simp

lemma hex_pairs_to_hex: "hex_pairs (to_hex bytes) = Some bytes"
  by (induction bytes) (simp_all add: to_hex_def hex_byte_def)

lemma length_to_hex [simp]: "length (to_hex bytes) = 2 * length bytes"
  by (induction bytes) (simp_all add: to_hex_def hex_byte_def)

lemma from_hex_to_hex [simp]: "from_hex (to_hex bytes) = Some bytes"
  by (simp add: from_hex_def hex_pairs_to_hex)

lemma to_hex_append [simp]: "to_hex (a @ b) = to_hex a @ to_hex b"
  by (simp add: to_hex_def)

lemma to_hex_inj [simp]: "to_hex a = to_hex b \<longleftrightarrow> a = b"
  by (metis from_hex_to_hex option.inject)

end
