(* ===== verification/Revision.thy ===== *)
theory Revision
  imports Resource
begin

text \<open>
  The multi-version core (\<open>engenho-store/src/revision.rs\<close> and
  \<open>engenho-store/src/watch_history.rs\<close>): revisions, per-key version metadata, committed
  changes, and the bounded watch-replay ring with its compaction floor.

  A revision is a \<open>u64\<close> counter that starts at 0 and moves by one per committed write; it
  is modelled as a natural number. The root theory bounds it by the length of the applied
  log, so it stays below \<open>2 ^ 64\<close> for every log shorter than that.

  The ring is specified against the unbounded log of every change ever committed
  (\<open>backs\<close>): it holds exactly the changes above its floor, so a replay either returns what
  the whole log would or refuses.
\<close>

section \<open>Revisions, version metadata and changes\<close>

type_synonym revision = nat

definition next_rev :: "revision \<Rightarrow> revision" where
  "next_rev r = r + 1"

record version_meta =
  create_revision :: revision
  mod_revision :: revision
  key_version :: nat

definition created_at :: "revision \<Rightarrow> version_meta" where
  "created_at r = \<lparr>create_revision = r, mod_revision = r, key_version = 1\<rparr>"

definition bumped_at :: "version_meta \<Rightarrow> revision \<Rightarrow> version_meta" where
  "bumped_at m r =
     \<lparr>create_revision = create_revision m, mod_revision = r, key_version = key_version m + 1\<rparr>"

datatype change_kind = ChPut | ChDelete

record change =
  ch_revision :: revision
  ch_key :: resource_key
  ch_kind :: change_kind
  ch_value :: json
  ch_prior :: "json option"
  ch_meta :: version_meta

datatype compacted_too_old = CompactedTooOld (requested: revision) (compacted: revision)

section \<open>The watch-replay ring\<close>

record watch_history =
  wh_ring :: "change list"
  wh_floor :: revision
  wh_head :: revision
  wh_capacity :: nat

definition default_history_capacity :: nat where
  "default_history_capacity = 8192"

definition wh_new :: "nat \<Rightarrow> watch_history" where
  "wh_new cap = \<lparr>wh_ring = [], wh_floor = 0, wh_head = 0, wh_capacity = cap\<rparr>"

definition wh_loaded_at :: "revision \<Rightarrow> nat \<Rightarrow> watch_history" where
  "wh_loaded_at h cap = \<lparr>wh_ring = [], wh_floor = h, wh_head = h, wh_capacity = cap\<rparr>"

definition wh_next_revision :: "watch_history \<Rightarrow> revision" where
  "wh_next_revision h = next_rev (wh_head h)"

text \<open>
  \<open>partition_point\<close> on a ring in revision order: the length of the prefix at or below the
  revision. The ring is always in revision order (\<open>wh_ok\<close> below).
\<close>

definition wh_split ::
  "watch_history \<Rightarrow> revision \<Rightarrow> (compacted_too_old, change list \<times> change list) result" where
  "wh_split h rv =
     (if rv < wh_floor h then Inl (CompactedTooOld rv (wh_floor h))
      else Inr (takeWhile (\<lambda>c. ch_revision c \<le> rv) (wh_ring h),
                dropWhile (\<lambda>c. ch_revision c \<le> rv) (wh_ring h)))"

definition wh_since :: "watch_history \<Rightarrow> revision \<Rightarrow> (compacted_too_old, change list) result" where
  "wh_since h rv = map_sum id snd (wh_split h rv)"

definition evict_oldest_revision :: "watch_history \<Rightarrow> watch_history" where
  "evict_oldest_revision h =
     (case wh_ring h of
        [] \<Rightarrow> h
      | c # _ \<Rightarrow>
          (let oldest = ch_revision c
           in h\<lparr>wh_ring := dropWhile (\<lambda>c. ch_revision c \<le> oldest) (wh_ring h),
                wh_floor := oldest\<rparr>))"

lemma evict_oldest_shorter:
  "wh_ring h \<noteq> [] \<Longrightarrow> length (wh_ring (evict_oldest_revision h)) < length (wh_ring h)"
  using length_dropWhile_le [of _ "tl (wh_ring h)"]
  by (auto simp: evict_oldest_revision_def Let_def neq_Nil_conv less_Suc_eq_le)

text \<open>The eviction loop of \<open>commit\<close>: each round drops at least one change.\<close>

function evict_until_fits :: "watch_history \<Rightarrow> watch_history" where
  "evict_until_fits h =
     (if wh_capacity h < length (wh_ring h) then evict_until_fits (evict_oldest_revision h) else h)"
  by pat_completeness auto
termination
  by (relation "measure (\<lambda>h. length (wh_ring h))") (auto intro: evict_oldest_shorter)

declare evict_until_fits.simps [simp del]

definition wh_commit :: "watch_history \<Rightarrow> change \<Rightarrow> change list \<Rightarrow> watch_history" where
  "wh_commit h first rest =
     evict_until_fits (h\<lparr>wh_ring := wh_ring h @ first # rest, wh_head := wh_next_revision h\<rparr>)"

definition wh_compact :: "watch_history \<Rightarrow> revision \<Rightarrow> watch_history \<times> revision" where
  "wh_compact h target =
     (let target = min target (wh_head h);
          h' = (if target > wh_floor h
                then h\<lparr>wh_ring := dropWhile (\<lambda>c. ch_revision c \<le> target) (wh_ring h),
                       wh_floor := target\<rparr>
                else h)
      in (h', wh_floor h'))"

subsection \<open>The promise of the floor\<close>

definition wh_ok :: "watch_history \<Rightarrow> bool" where
  "wh_ok h \<longleftrightarrow>
     sorted (map ch_revision (wh_ring h)) \<and>
     (\<forall>c \<in> set (wh_ring h). wh_floor h < ch_revision c \<and> ch_revision c \<le> wh_head h) \<and>
     {wh_floor h <.. wh_head h} \<subseteq> ch_revision ` set (wh_ring h) \<and>
     wh_floor h \<le> wh_head h \<and> length (wh_ring h) \<le> wh_capacity h"

text \<open>The ring against the log of every change ever committed.\<close>

definition backs :: "change list \<Rightarrow> watch_history \<Rightarrow> bool" where
  "backs log h \<longleftrightarrow>
     sorted (map ch_revision log) \<and> (\<forall>c \<in> set log. ch_revision c \<le> wh_head h) \<and>
     wh_floor h \<le> wh_head h \<and>
     wh_ring h = filter (\<lambda>c. wh_floor h < ch_revision c) log"

lemma dropWhile_sorted_filter:
  "sorted (map f xs) \<Longrightarrow> dropWhile (\<lambda>x. f x \<le> b) xs = filter (\<lambda>x. (b::nat) < f x) xs"
proof (induction xs)
  case (Cons x xs)
  then have "b < f x \<Longrightarrow> filter (\<lambda>x. b < f x) xs = xs"
    by (auto simp: filter_id_conv)
  with Cons show ?case by (auto simp: not_le)
qed simp

lemma takeWhile_sorted_filter:
  "sorted (map f xs) \<Longrightarrow> takeWhile (\<lambda>x. f x \<le> b) xs = filter (\<lambda>x. f x \<le> (b::nat)) xs"
proof (induction xs)
  case (Cons x xs)
  then have "b < f x \<Longrightarrow> filter (\<lambda>x. f x \<le> b) xs = []"
    by (auto simp: filter_empty_conv)
  with Cons show ?case by (auto simp: not_le)
qed simp

lemma sorted_map_filter: "sorted (map f xs) \<Longrightarrow> sorted (map f (filter P xs))"
  by (induction xs) auto

lemma backs_ring_sorted: "backs log h \<Longrightarrow> sorted (map ch_revision (wh_ring h))"
  by (simp add: backs_def sorted_map_filter)

lemma backs_ring_mem:
  "backs log h \<Longrightarrow> c \<in> set (wh_ring h) \<longleftrightarrow> c \<in> set log \<and> wh_floor h < ch_revision c"
  by (auto simp: backs_def)

lemma backs_new: "backs [] (wh_new cap)"
  by (simp add: backs_def wh_new_def)

lemma backs_loaded_at:
  "sorted (map ch_revision log) \<Longrightarrow> \<forall>c \<in> set log. ch_revision c \<le> r \<Longrightarrow>
    backs log (wh_loaded_at r cap)"
  by (auto simp: backs_def wh_loaded_at_def filter_empty_conv not_less)

lemma evict_oldest_simps [simp]:
  "wh_head (evict_oldest_revision h) = wh_head h"
  "wh_capacity (evict_oldest_revision h) = wh_capacity h"
  by (auto simp: evict_oldest_revision_def Let_def split: list.splits)

lemma backs_evict: "backs log h \<Longrightarrow> backs log (evict_oldest_revision h)"
proof (cases "wh_ring h")
  case (Cons c cs)
  assume b: "backs log h"
  then have c: "c \<in> set log" "wh_floor h < ch_revision c"
    using backs_ring_mem [of log h c] Cons by auto
  have "dropWhile (\<lambda>x. ch_revision x \<le> ch_revision c) (wh_ring h) =
      filter (\<lambda>x. ch_revision c < ch_revision x) log"
    unfolding dropWhile_sorted_filter [OF backs_ring_sorted [OF b]]
    using b c(2) by (auto simp: backs_def intro!: filter_cong)
  moreover have "evict_oldest_revision h =
      h\<lparr>wh_ring := dropWhile (\<lambda>x. ch_revision x \<le> ch_revision c) (wh_ring h),
        wh_floor := ch_revision c\<rparr>"
    using Cons by (simp add: evict_oldest_revision_def Let_def)
  ultimately show ?thesis
    using b c by (simp add: backs_def)
qed (simp add: evict_oldest_revision_def)

lemma evict_until_fits_simps [simp]:
  "wh_head (evict_until_fits h) = wh_head h"
  "wh_capacity (evict_until_fits h) = wh_capacity h"
  by (induction h rule: evict_until_fits.induct; subst evict_until_fits.simps; simp)+

lemma backs_evict_until_fits: "backs log h \<Longrightarrow> backs log (evict_until_fits h)"
proof (induction h rule: evict_until_fits.induct)
  case (1 h)
  then show ?case
    by (subst evict_until_fits.simps) (simp add: backs_evict)
qed

lemma evict_until_fits_bound: "length (wh_ring (evict_until_fits h)) \<le> wh_capacity h"
proof (induction h rule: evict_until_fits.induct)
  case (1 h)
  then show ?case
    by (subst evict_until_fits.simps) auto
qed

lemma evict_until_fits_floor: "backs log h \<Longrightarrow> wh_floor h \<le> wh_floor (evict_until_fits h)"
proof (induction h rule: evict_until_fits.induct)
  case (1 h)
  show ?case
  proof (cases "wh_capacity h < length (wh_ring h)")
    case True
    then obtain c cs where r: "wh_ring h = c # cs"
      by (cases "wh_ring h") auto
    have "wh_floor h \<le> wh_floor (evict_oldest_revision h)"
      using backs_ring_mem [OF 1(2), of c] r by (simp add: evict_oldest_revision_def Let_def)
    also have "\<dots> \<le> wh_floor (evict_until_fits (evict_oldest_revision h))"
      using 1 True backs_evict by blast
    finally show ?thesis
      using True by (subst evict_until_fits.simps) simp
  next
    case False
    then show ?thesis by (subst evict_until_fits.simps) simp
  qed
qed

lemma wh_commit_simps [simp]:
  "wh_head (wh_commit h first rest) = wh_head h + 1"
  "wh_capacity (wh_commit h first rest) = wh_capacity h"
  by (simp_all add: wh_commit_def wh_next_revision_def next_rev_def)

lemma wh_commit_bound: "length (wh_ring (wh_commit h first rest)) \<le> wh_capacity h"
  unfolding wh_commit_def by (rule order_trans [OF evict_until_fits_bound]) simp

lemma backs_push:
  assumes "backs log h" and "\<forall>c \<in> set (first # rest). ch_revision c = wh_next_revision h"
  shows "backs (log @ first # rest)
    (h\<lparr>wh_ring := wh_ring h @ first # rest, wh_head := wh_next_revision h\<rparr>)"
proof -
  have "sorted (map ch_revision (first # rest))"
    using assms(2) by (auto simp: sorted_iff_nth_mono nth_Cons split: nat.splits)
  with assms show ?thesis
    by (auto simp: backs_def wh_next_revision_def next_rev_def sorted_append
        intro!: filter_True [symmetric])
qed

lemma backs_commit:
  "backs log h \<Longrightarrow> \<forall>c \<in> set (first # rest). ch_revision c = wh_next_revision h \<Longrightarrow>
    backs (log @ first # rest) (wh_commit h first rest)"
  unfolding wh_commit_def by (rule backs_evict_until_fits) (rule backs_push)

lemma wh_commit_floor:
  "backs log h \<Longrightarrow> \<forall>c \<in> set (first # rest). ch_revision c = wh_next_revision h \<Longrightarrow>
    wh_floor h \<le> wh_floor (wh_commit h first rest)"
  unfolding wh_commit_def using evict_until_fits_floor [OF backs_push] by fastforce

lemma backs_compact: "backs log h \<Longrightarrow> backs log (fst (wh_compact h target))"
proof -
  assume b: "backs log h"
  have "dropWhile (\<lambda>x. ch_revision x \<le> t) (wh_ring h) = filter (\<lambda>x. t < ch_revision x) log"
    if "wh_floor h < t" for t
    unfolding dropWhile_sorted_filter [OF backs_ring_sorted [OF b]]
    using b that by (auto simp: backs_def intro!: filter_cong)
  from this [of "min target (wh_head h)"] b show ?thesis
    by (auto simp: backs_def wh_compact_def Let_def simp del: min_less_iff_conj min.bounded_iff)
qed

lemma wh_split_backs:
  assumes "backs log h"
  shows "wh_split h rv =
    (if rv < wh_floor h then Inl (CompactedTooOld rv (wh_floor h))
     else Inr (filter (\<lambda>c. wh_floor h < ch_revision c \<and> ch_revision c \<le> rv) log,
               filter (\<lambda>c. rv < ch_revision c) log))"
proof -
  note srt = backs_ring_sorted [OF assms]
  have "filter (\<lambda>c. ch_revision c \<le> rv) (wh_ring h) =
      filter (\<lambda>c. wh_floor h < ch_revision c \<and> ch_revision c \<le> rv) log"
    using assms by (auto simp: backs_def intro!: filter_cong)
  moreover have "\<not> rv < wh_floor h \<Longrightarrow>
      filter (\<lambda>c. rv < ch_revision c) (wh_ring h) = filter (\<lambda>c. rv < ch_revision c) log"
    using assms by (auto simp: backs_def intro!: filter_cong)
  ultimately show ?thesis
    by (simp add: wh_split_def takeWhile_sorted_filter [OF srt] dropWhile_sorted_filter [OF srt])
qed

lemma wh_since_backs:
  "backs log h \<Longrightarrow> wh_since h rv =
    (if rv < wh_floor h then Inl (CompactedTooOld rv (wh_floor h))
     else Inr (filter (\<lambda>c. rv < ch_revision c) log))"
  by (simp add: wh_since_def wh_split_backs)

section \<open>The replay contract\<close>

text \<open>
  What the readers of the ring (the watch handlers, the reads of the past) rely on: an
  invariant against the unbounded log that committing and compacting keep, and a replay
  that is a suffix of that log or a refusal.
\<close>

locale replay_log =
  fixes inv :: "change list \<Rightarrow> 'h \<Rightarrow> bool"
    and head_of :: "'h \<Rightarrow> revision"
    and floor_of :: "'h \<Rightarrow> revision"
    and since :: "'h \<Rightarrow> revision \<Rightarrow> (compacted_too_old, change list) result"
    and commit :: "'h \<Rightarrow> change \<Rightarrow> change list \<Rightarrow> 'h"
    and compact :: "'h \<Rightarrow> revision \<Rightarrow> 'h \<times> revision"
  assumes since_log: "inv log h \<Longrightarrow>
      since h rv = (if rv < floor_of h then Inl (CompactedTooOld rv (floor_of h))
                    else Inr (filter (\<lambda>c. rv < ch_revision c) log))"
    and commit_log: "inv log h \<Longrightarrow> \<forall>c \<in> set (first # rest). ch_revision c = head_of h + 1 \<Longrightarrow>
      inv (log @ first # rest) (commit h first rest)"
    and commit_head: "head_of (commit h first rest) = head_of h + 1"
    and compact_log: "inv log h \<Longrightarrow> inv log (fst (compact h target))"
    and log_bounded: "inv log h \<Longrightarrow> c \<in> set log \<Longrightarrow> ch_revision c \<le> head_of h"
    and log_sorted: "inv log h \<Longrightarrow> sorted (map ch_revision log)"
begin

lemma since_head: "inv log h \<Longrightarrow> floor_of h \<le> head_of h \<Longrightarrow> since h (head_of h) = Inr []"
  using log_bounded by (fastforce simp: since_log filter_empty_conv not_less)

lemma since_after_commit:
  assumes "inv log h" and "\<forall>c \<in> set (first # rest). ch_revision c = head_of h + 1"
    and "floor_of (commit h first rest) \<le> rv" and "rv \<le> head_of h"
  shows "since (commit h first rest) rv =
    Inr (filter (\<lambda>c. rv < ch_revision c) log @ first # rest)"
  using since_log [OF commit_log [OF assms(1,2)], of rv] assms(2-4) by (auto simp: filter_id_conv)

lemma resume_log:
  assumes "inv (log @ later) h" and "\<forall>c \<in> set log. ch_revision c \<le> seen"
    and "\<forall>c \<in> set later. seen < ch_revision c"
  shows "since h seen = (if seen < floor_of h then Inl (CompactedTooOld seen (floor_of h))
                         else Inr later)"
proof -
  have "filter (\<lambda>c. seen < ch_revision c) log = []"
    using assms(2) by (auto simp: filter_empty_conv not_less)
  moreover have "filter (\<lambda>c. seen < ch_revision c) later = later"
    using assms(3) by (simp add: filter_id_conv)
  ultimately show ?thesis
    using since_log [OF assms(1), of seen] by simp
qed

end

interpretation wh: replay_log backs wh_head wh_floor wh_since wh_commit wh_compact
proof unfold_locales
  fix log h c
  assume b: "backs log h"
  show "sorted (map ch_revision log)" using b by (simp add: backs_def)
  show "c \<in> set log \<Longrightarrow> ch_revision c \<le> wh_head h" using b by (auto simp: backs_def)
  show "backs log (fst (wh_compact h target))" for target using b by (rule backs_compact)
  show "wh_since h rv = (if rv < wh_floor h then Inl (CompactedTooOld rv (wh_floor h))
      else Inr (filter (\<lambda>c. rv < ch_revision c) log))" for rv
    using b by (rule wh_since_backs)
  show "backs (log @ first # rest) (wh_commit h first rest)"
    if "\<forall>c \<in> set (first # rest). ch_revision c = wh_head h + 1" for first rest
    using b that by (intro backs_commit) (auto simp: wh_next_revision_def next_rev_def)
qed simp

subsection \<open>Every history a server goes through\<close>

text \<open>
  The operations on a ring over the life of a server: created empty, a commit of one or
  more changes at the next revision, a compaction to any target, and a restart, which loads
  the head from a snapshot and keeps nothing to replay.
\<close>

inductive ring_run :: "nat \<Rightarrow> change list \<Rightarrow> watch_history \<Rightarrow> bool" for cap where
  ring_new: "ring_run cap [] (wh_new cap)"
| ring_commit: "ring_run cap log h \<Longrightarrow>
    \<forall>c \<in> set (first # rest). ch_revision c = wh_next_revision h \<Longrightarrow>
    ring_run cap (log @ first # rest) (wh_commit h first rest)"
| ring_compact: "ring_run cap log h \<Longrightarrow> ring_run cap log (fst (wh_compact h target))"
| ring_restart: "ring_run cap log h \<Longrightarrow> ring_run cap log (wh_loaded_at (wh_head h) cap)"

lemma wh_compact_simps [simp]:
  "wh_capacity (fst (wh_compact h target)) = wh_capacity h"
  "wh_head (fst (wh_compact h target)) = wh_head h"
  by (simp_all add: wh_compact_def Let_def)

lemma wh_compact_shorter: "length (wh_ring (fst (wh_compact h target))) \<le> length (wh_ring h)"
  by (simp add: wh_compact_def Let_def length_dropWhile_le)

lemma ring_run_backs: "ring_run cap log h \<Longrightarrow> backs log h"
proof (induction rule: ring_run.induct)
  case (ring_restart log h)
  then show ?case by (intro backs_loaded_at) (auto simp: backs_def)
qed (simp_all add: backs_new backs_commit backs_compact)

lemma ring_run_capacity:
  "ring_run cap log h \<Longrightarrow> wh_capacity h = cap \<and> length (wh_ring h) \<le> cap"
proof (induction rule: ring_run.induct)
  case (ring_commit log h first rest)
  then show ?case using wh_commit_bound [of h first rest] by simp
next
  case (ring_compact log h target)
  then show ?case using wh_compact_shorter [of h target] by simp
qed (simp_all add: wh_new_def wh_loaded_at_def)

text \<open>Every revision up to the head committed at least one change.\<close>

lemma ring_run_dense: "ring_run cap log h \<Longrightarrow> ch_revision ` set log = {1..wh_head h}"
proof (induction rule: ring_run.induct)
  case (ring_commit log h first rest)
  then have "ch_revision ` set (first # rest) = {wh_head h + 1}"
    by (auto simp: wh_next_revision_def next_rev_def)
  with ring_commit.IH show ?case by (auto simp: image_Un)
qed (simp_all add: wh_new_def wh_loaded_at_def)

lemma ring_run_ok:
  assumes "ring_run cap log h"
  shows "wh_ok h"
proof -
  note b = ring_run_backs [OF assms]
  have "r \<in> ch_revision ` set (wh_ring h)" if r: "wh_floor h < r" "r \<le> wh_head h" for r
  proof -
    have "r \<in> ch_revision ` set log" using ring_run_dense [OF assms] r by auto
    then show ?thesis using backs_ring_mem [OF b] r by auto
  qed
  then show ?thesis
    using b backs_ring_sorted [OF b] ring_run_capacity [OF assms]
    by (auto simp: wh_ok_def backs_ring_mem backs_def)
qed

text \<open>
  C6. Whatever a server has been through (commits, capacity evictions, compactions,
  restarts), replaying the ring after a revision either returns exactly the changes the
  unbounded log holds after that revision, in order, or refuses because the revision is
  below the floor. The ring itself is in revision order, holds a change of every revision
  between its floor and its head and none outside, and never outgrows its capacity.
\<close>

theorem replay_exact_or_refused:
  assumes "ring_run cap log h"
  shows "wh_since h rv =
      (if wh_floor h \<le> rv then Inr (filter (\<lambda>c. rv < ch_revision c) log)
       else Inl (CompactedTooOld rv (wh_floor h))) \<and>
    wh_ok h \<and> wh_capacity h = cap"
  using wh.since_log [OF ring_run_backs [OF assms], of rv] ring_run_capacity [OF assms]
    ring_run_ok [OF assms] by auto

definition ring_example_change :: "revision \<Rightarrow> change" where
  "ring_example_change r =
     \<lparr>ch_revision = r, ch_key = namespaced [] ''v1'' ''Pod'' ''ns'' ''p'', ch_kind = ChPut,
      ch_value = JNull, ch_prior = None, ch_meta = created_at r\<rparr>"

theorem replay_exact_or_refused_witness:
  "let h = wh_commit (wh_commit (wh_new 1) (ring_example_change 1) []) (ring_example_change 2) []
   in wh_since h 0 = Inl (CompactedTooOld 0 1) \<and> wh_ok h"
proof -
  let ?h = "wh_commit (wh_commit (wh_new 1) (ring_example_change 1) []) (ring_example_change 2) []"
  have "ring_run 1 (([] @ ring_example_change 1 # []) @ ring_example_change 2 # []) ?h"
    by (intro ring_run.intros) (auto simp: ring_example_change_def wh_next_revision_def
        next_rev_def wh_new_def)
  from replay_exact_or_refused [OF this, of 0] show ?thesis
    by (simp add: wh_since_def ring_example_change_def wh_commit_def wh_new_def evict_until_fits.simps
        evict_oldest_revision_def wh_next_revision_def next_rev_def)
qed

end
