(* ===== verification/Patch.thy ===== *)
theory Patch
  imports Revision
begin

text \<open>
  The patch interpreter (\<open>engenho-store/src/patch_apply.rs\<close>, with the patch types of
  \<open>engenho-types/src/patch.rs\<close>): RFC 7396 merge patch, RFC 6902 JSON patch over JSON
  pointers, and the strategic merge patch.

  The schema lookup of the strategic merge is the argument \<open>env\<close>, as the trait object
  \<open>PatchSchemaEnv\<close> is in the code. Decoding a raw operation array is done by \<open>serde\<close>;
  it is the argument \<open>decode_ops\<close>. An error keeps the values its message is rendered from.
\<close>

section \<open>Types\<close>

record gvk =
  gvk_group :: string
  gvk_version :: string
  gvk_kind :: string

definition gvk_of_key :: "resource_key \<Rightarrow> gvk" where
  "gvk_of_key k = \<lparr>gvk_group = group k, gvk_version = version k, gvk_kind = kind k\<rparr>"

type_synonym json_path = "string list"

definition jp_root :: json_path where
  "jp_root = []"

definition jp_from_dotted :: "string \<Rightarrow> json_path" where
  "jp_from_dotted s = (if s = [] then jp_root else split_on CHR ''.'' s)"

definition jp_child :: "json_path \<Rightarrow> string \<Rightarrow> json_path" where
  "jp_child p seg = p @ [seg]"

definition jp_dotted :: "json_path \<Rightarrow> string" where
  "jp_dotted p = join_with ''.'' p"

datatype list_merge_strategy =
    LReplace
  | MergeByKey "string list"
  | MergeByKeyRetainKeys "string list"
  | LSet

type_synonym patch_schema_env = "gvk \<Rightarrow> json_path \<Rightarrow> list_merge_strategy"

datatype patch_directive = DReplace | DDelete | DMerge | DDeleteFromPrimitiveList

definition directive_from_value :: "json \<Rightarrow> patch_directive option" where
  "directive_from_value v =
     (case as_str v of
        None \<Rightarrow> None
      | Some s \<Rightarrow>
          (if s = ''replace'' then Some DReplace
           else if s = ''delete'' then Some DDelete
           else if s = ''merge'' then Some DMerge
           else None))"

datatype bad_directive = RawValue json | InvalidOpArray string

datatype patch_error =
    RfcMerge string
  | JsonPointer string
  | TestFailed string
  | MissingMergeKey string string
  | BadDirective bad_directive
  | Unsupported string

datatype patch_type = PtMerge | PtStrategic | PtJson | PtApply

datatype json_patch_op =
    OpAdd string json
  | OpRemove string
  | OpReplace string json
  | OpCopy string string
  | OpMove string string
  | OpTest string json

datatype patch_body =
    BMerge json
  | BStrategic json
  | BJson "json_patch_op list"
  | BApply json

type_synonym op_decoder = "json \<Rightarrow> (string, json_patch_op list) result"

definition patch_body_from_raw ::
  "op_decoder \<Rightarrow> patch_type \<Rightarrow> json \<Rightarrow> (patch_error, patch_body) result" where
  "patch_body_from_raw decode_ops pt raw =
     (case pt of
        PtMerge \<Rightarrow> Inr (BMerge raw)
      | PtStrategic \<Rightarrow> Inr (BStrategic raw)
      | PtApply \<Rightarrow> Inr (BApply raw)
      | PtJson \<Rightarrow>
          (case decode_ops raw of
             Inl e \<Rightarrow> Inl (BadDirective (InvalidOpArray e))
           | Inr ops \<Rightarrow> Inr (BJson ops)))"

text \<open>
  \<open>str::trim\<close> on the ASCII text of a header value (the HTTP layer admits no other bytes).
\<close>

definition trim :: "string \<Rightarrow> string" where
  "trim s = (let ws = (\<lambda>c. c \<in> set [CHR '' '', CHR 0x09, CHR 0x0A, CHR 0x0B, CHR 0x0C, CHR 0x0D])
             in rev (dropWhile ws (rev (dropWhile ws s))))"

definition patch_type_from_content_type :: "string \<Rightarrow> patch_type option" where
  "patch_type_from_content_type ct =
     (let media = trim (hd (split_on CHR '';'' ct))
      in if media = [] then Some PtStrategic
         else if media = ''application/merge-patch+json'' then Some PtMerge
         else if media = ''application/strategic-merge-patch+json'' then Some PtStrategic
         else if media = ''application/json-patch+json'' then Some PtJson
         else if media = ''application/apply-patch+yaml'' \<or> media = ''application/apply-patch+json''
         then Some PtApply
         else None)"

fun content_type_of :: "patch_type \<Rightarrow> string" where
  "content_type_of PtMerge = ''application/merge-patch+json''"
| "content_type_of PtStrategic = ''application/strategic-merge-patch+json''"
| "content_type_of PtJson = ''application/json-patch+json''"
| "content_type_of PtApply = ''application/apply-patch+yaml''"

section \<open>RFC 7396: JSON merge patch\<close>

fun merge_rfc7396 :: "json \<Rightarrow> json \<Rightarrow> json"
  and merge_fields :: "json_map \<Rightarrow> json_map \<Rightarrow> json_map" where
  "merge_rfc7396 target (JObject p) =
     JObject (merge_fields (case target of JObject m \<Rightarrow> m | _ \<Rightarrow> []) p)"
| "merge_rfc7396 target p = p"
| "merge_fields m [] = m"
| "merge_fields m ((k, v) # p) =
     merge_fields
       (if is_null v then bm_remove k m
        else bm_insert k (merge_rfc7396 (case map_of m k of Some w \<Rightarrow> w | None \<Rightarrow> JNull) v) m) p"

section \<open>RFC 6902: JSON patch\<close>

definition pointer_tokens :: "string \<Rightarrow> string list" where
  "pointer_tokens path =
     (if path = [] then []
      else map (\<lambda>t. replace2 CHR ''~'' CHR ''0'' ''~'' (replace2 CHR ''~'' CHR ''1'' ''/'' t))
             (drop 1 (split_on CHR ''/'' path)))"

fun get_tokens :: "json \<Rightarrow> string list \<Rightarrow> json option" where
  "get_tokens cur [] = Some cur"
| "get_tokens cur (t # ts) =
     (case cur of
        JObject m \<Rightarrow> (case map_of m t of None \<Rightarrow> None | Some v \<Rightarrow> get_tokens v ts)
      | JArray a \<Rightarrow>
          (case parse_usize t of
             None \<Rightarrow> None
           | Some i \<Rightarrow> (if i < length a then get_tokens (a ! i) ts else None))
      | _ \<Rightarrow> None)"

definition pointer_get :: "json \<Rightarrow> string \<Rightarrow> json option" where
  "pointer_get doc path = get_tokens doc (pointer_tokens path)"

text \<open>
  The walk \<open>pointer_add\<close>, \<open>pointer_replace\<close> and \<open>pointer_remove\<close> share: a mutable
  reference descends through \<open>parents\<close>, \<open>act\<close> runs on the value it reaches, and the
  document around it is unchanged.
\<close>

fun at_parent ::
  "patch_error \<Rightarrow> string list \<Rightarrow> (json \<Rightarrow> (patch_error, json \<times> 'a) result) \<Rightarrow> json
    \<Rightarrow> (patch_error, json \<times> 'a) result" where
  "at_parent bad [] act cur = act cur"
| "at_parent bad (t # ts) act cur =
     (case cur of
        JObject m \<Rightarrow>
          (case map_of m t of
             None \<Rightarrow> Inl bad
           | Some v \<Rightarrow>
               (case at_parent bad ts act v of
                  Inl e \<Rightarrow> Inl e
                | Inr (v', r) \<Rightarrow> Inr (JObject (bm_insert t v' m), r)))
      | JArray a \<Rightarrow>
          (case parse_usize t of
             None \<Rightarrow> Inl bad
           | Some i \<Rightarrow>
               (if i < length a
                then (case at_parent bad ts act (a ! i) of
                        Inl e \<Rightarrow> Inl e
                      | Inr (v', r) \<Rightarrow> Inr (JArray (a[i := v']), r))
                else Inl bad))
      | _ \<Rightarrow> Inl bad)"

definition add_last :: "string \<Rightarrow> string \<Rightarrow> json \<Rightarrow> json \<Rightarrow> (patch_error, json \<times> unit) result" where
  "add_last path t v cur =
     (case cur of
        JObject m \<Rightarrow> Inr (JObject (bm_insert t v m), ())
      | JArray a \<Rightarrow>
          (if t = ''-'' then Inr (JArray (a @ [v]), ())
           else case parse_usize t of
                  None \<Rightarrow> Inl (JsonPointer path)
                | Some i \<Rightarrow>
                    (if length a < i then Inl (JsonPointer path)
                     else Inr (JArray (take i a @ v # drop i a), ())))
      | _ \<Rightarrow> Inl (JsonPointer path))"

definition pointer_add :: "json \<Rightarrow> string \<Rightarrow> json \<Rightarrow> (patch_error, json) result" where
  "pointer_add doc path v =
     (let tokens = pointer_tokens path
      in if tokens = [] then Inr v
         else map_sum id fst
                (at_parent (JsonPointer path) (butlast tokens) (add_last path (last tokens) v) doc))"

definition replace_last ::
  "string \<Rightarrow> string \<Rightarrow> json \<Rightarrow> json \<Rightarrow> (patch_error, json \<times> unit) result" where
  "replace_last path t v cur =
     (case cur of
        JObject m \<Rightarrow> Inr (JObject (bm_insert t v m), ())
      | JArray a \<Rightarrow>
          (case parse_usize t of
             None \<Rightarrow> Inl (JsonPointer path)
           | Some i \<Rightarrow>
               (if i < length a then Inr (JArray (a[i := v]), ()) else Inl (JsonPointer path)))
      | _ \<Rightarrow> Inl (JsonPointer path))"

definition pointer_replace :: "json \<Rightarrow> string \<Rightarrow> json \<Rightarrow> (patch_error, json) result" where
  "pointer_replace doc path v =
     (let tokens = pointer_tokens path
      in if tokens = []
         then (if \<not> (is_object v \<or> is_array v) then Inl (JsonPointer path) else Inr v)
         else map_sum id fst
                (at_parent (JsonPointer path) (butlast tokens) (replace_last path (last tokens) v)
                  doc))"

definition remove_last :: "string \<Rightarrow> string \<Rightarrow> json \<Rightarrow> (patch_error, json \<times> json) result" where
  "remove_last path t cur =
     (case cur of
        JObject m \<Rightarrow>
          (case map_of m t of
             None \<Rightarrow> Inl (JsonPointer path)
           | Some v \<Rightarrow> Inr (JObject (bm_remove t m), v))
      | JArray a \<Rightarrow>
          (case parse_usize t of
             None \<Rightarrow> Inl (JsonPointer path)
           | Some i \<Rightarrow>
               (if length a \<le> i then Inl (JsonPointer path)
                else Inr (JArray (take i a @ drop (Suc i) a), a ! i)))
      | _ \<Rightarrow> Inl (JsonPointer path))"

definition pointer_remove :: "json \<Rightarrow> string \<Rightarrow> (patch_error, json \<times> json) result" where
  "pointer_remove doc path =
     (let tokens = pointer_tokens path
      in if tokens = [] then Inr (JNull, doc)
         else at_parent (JsonPointer path) (butlast tokens) (remove_last path (last tokens)) doc)"

definition apply_one_op :: "json \<Rightarrow> json_patch_op \<Rightarrow> (patch_error, json) result" where
  "apply_one_op doc op =
     (case op of
        OpAdd path v \<Rightarrow> pointer_add doc path v
      | OpRemove path \<Rightarrow> map_sum id fst (pointer_remove doc path)
      | OpReplace path v \<Rightarrow> pointer_replace doc path v
      | OpCopy src path \<Rightarrow>
          (case pointer_get doc src of
             None \<Rightarrow> Inl (JsonPointer src)
           | Some v \<Rightarrow> pointer_add doc path v)
      | OpMove src path \<Rightarrow>
          (case pointer_remove doc src of
             Inl e \<Rightarrow> Inl e
           | Inr (doc', v) \<Rightarrow> pointer_add doc' path v)
      | OpTest path v \<Rightarrow>
          (case pointer_get doc path of
             None \<Rightarrow> Inl (TestFailed path)
           | Some actual \<Rightarrow> (if actual = v then Inr doc else Inl (TestFailed path))))"

fun apply_json_patch :: "json \<Rightarrow> json_patch_op list \<Rightarrow> (patch_error, json) result" where
  "apply_json_patch doc [] = Inr doc"
| "apply_json_patch doc (op # ops) =
     (case apply_one_op doc op of Inl e \<Rightarrow> Inl e | Inr doc' \<Rightarrow> apply_json_patch doc' ops)"

section \<open>Strategic merge patch\<close>

definition patch_sentinel :: string where
  "patch_sentinel = ''$patch''"

definition retain_keys_sentinel :: string where
  "retain_keys_sentinel = ''$retainKeys''"

definition retain_keys_of :: "json_map \<Rightarrow> string list option" where
  "retain_keys_of p =
     (case map_of p retain_keys_sentinel of
        Some (JArray a) \<Rightarrow> Some (List.map_filter as_str a)
      | _ \<Rightarrow> None)"

text \<open>The merge key of a list element: \<open>None\<close> when it is no object or lacks one of the keys.\<close>

definition merge_key_of :: "string list \<Rightarrow> json \<Rightarrow> json list option" where
  "merge_key_of keys el =
     (case el of
        JObject m \<Rightarrow> those (map (map_of m) keys)
      | _ \<Rightarrow> None)"

definition missing_key :: "string list \<Rightarrow> json \<Rightarrow> string" where
  "missing_key keys el = (case find (\<lambda>k. jget el k = None) keys of Some k \<Rightarrow> k | None \<Rightarrow> [])"

fun position :: "('a \<Rightarrow> bool) \<Rightarrow> 'a list \<Rightarrow> nat option" where
  "position P [] = None"
| "position P (x # xs) = (if P x then Some 0 else map_option Suc (position P xs))"

fun set_union :: "json list \<Rightarrow> json list \<Rightarrow> json list" where
  "set_union out [] = out"
| "set_union out (p # ps) = set_union (if p \<in> set out then out else out @ [p]) ps"

definition strip_sentinel :: "json \<Rightarrow> json" where
  "strip_sentinel el = (case el of JObject m \<Rightarrow> JObject (bm_remove patch_sentinel m) | _ \<Rightarrow> el)"

text \<open>
  The \<open>$patch\<close> directive of an object-level patch: an error when it is not recognised,
  whether it replaces the object otherwise.
\<close>

definition object_directive :: "json_map \<Rightarrow> (patch_error, bool) result" where
  "object_directive p =
     (case map_of p patch_sentinel of
        None \<Rightarrow> Inr False
      | Some dir \<Rightarrow>
          (case directive_from_value dir of
             Some DReplace \<Rightarrow> Inr True
           | Some _ \<Rightarrow> Inr False
           | None \<Rightarrow> Inl (BadDirective (RawValue dir))))"

text \<open>The members an object-level merge starts from: \<open>$retainKeys\<close> drops the unlisted ones.\<close>

definition merge_base :: "json_map \<Rightarrow> json \<Rightarrow> json_map" where
  "merge_base p cur =
     (let out = (case cur of JObject m \<Rightarrow> m | _ \<Rightarrow> [])
      in case retain_keys_of p of
           Some ks \<Rightarrow> bm_retain (\<lambda>k. k \<in> set ks) out
         | None \<Rightarrow> out)"

function (sequential) strategic_merge ::
      "patch_schema_env \<Rightarrow> gvk \<Rightarrow> json_path \<Rightarrow> json \<Rightarrow> json \<Rightarrow> (patch_error, json) result"
  and strategic_fields ::
      "patch_schema_env \<Rightarrow> gvk \<Rightarrow> json_path \<Rightarrow> json_map \<Rightarrow> json_map
        \<Rightarrow> (patch_error, json_map) result"
  and merge_list ::
      "patch_schema_env \<Rightarrow> gvk \<Rightarrow> json_path \<Rightarrow> list_merge_strategy \<Rightarrow> json list \<Rightarrow> json list
        \<Rightarrow> (patch_error, json list) result"
  and merge_list_by_key ::
      "patch_schema_env \<Rightarrow> gvk \<Rightarrow> json_path \<Rightarrow> string list \<Rightarrow> json list \<Rightarrow> json list
        \<Rightarrow> (patch_error, json list) result" where
  "strategic_merge env g path cur (JObject p) =
     (case object_directive p of
        Inl e \<Rightarrow> Inl e
      | Inr replace \<Rightarrow>
          (if replace then Inr (JObject (bm_remove patch_sentinel p))
           else map_sum id JObject (strategic_fields env g path (merge_base p cur) p)))"
| "strategic_merge env g path cur patch = Inr patch"
| "strategic_fields env g path out [] = Inr out"
| "strategic_fields env g path out ((k, pv) # p) =
     (if k = patch_sentinel \<or> k = retain_keys_sentinel then strategic_fields env g path out p
      else case pv of
             JNull \<Rightarrow> strategic_fields env g path (bm_remove k out) p
           | JArray patch_list \<Rightarrow>
               (let existing_list = (case map_of out k of Some (JArray a) \<Rightarrow> a | _ \<Rightarrow> [])
                in case merge_list env g (jp_child path k) (env g (jp_child path k))
                          existing_list patch_list of
                     Inl e \<Rightarrow> Inl e
                   | Inr l \<Rightarrow> strategic_fields env g path (bm_insert k (JArray l) out) p)
           | JObject _ \<Rightarrow>
               (let base = (case map_of out k of Some b \<Rightarrow> b | None \<Rightarrow> JObject [])
                in case strategic_merge env g (jp_child path k) base pv of
                     Inl e \<Rightarrow> Inl e
                   | Inr v \<Rightarrow> strategic_fields env g path (bm_insert k v out) p)
           | _ \<Rightarrow> strategic_fields env g path (bm_insert k pv out) p)"
| "merge_list env g path strat existing patch_list =
     (case strat of
        LReplace \<Rightarrow> Inr patch_list
      | LSet \<Rightarrow> Inr (set_union existing patch_list)
      | MergeByKey keys \<Rightarrow> merge_list_by_key env g path keys existing patch_list
      | MergeByKeyRetainKeys keys \<Rightarrow> merge_list_by_key env g path keys existing patch_list)"
| "merge_list_by_key env g path keys out [] = Inr out"
| "merge_list_by_key env g path keys out (pel # pels) =
     (case merge_key_of keys pel of
        None \<Rightarrow>
          (if is_object pel then Inl (MissingMergeKey (jp_dotted path) (missing_key keys pel))
           else merge_list_by_key env g path keys
                  (if pel \<in> set out then out else out @ [pel]) pels)
      | Some pkey \<Rightarrow>
          (let directive = Option.bind (jget pel patch_sentinel) directive_from_value;
               matched = position (\<lambda>e. merge_key_of keys e = Some pkey) out
           in case (directive, matched) of
                (Some DDelete, Some i) \<Rightarrow>
                  merge_list_by_key env g path keys (take i out @ drop (Suc i) out) pels
              | (Some DDelete, None) \<Rightarrow> merge_list_by_key env g path keys out pels
              | (_, Some i) \<Rightarrow>
                  (case strategic_merge env g path (out ! i) pel of
                     Inl e \<Rightarrow> Inl e
                   | Inr merged \<Rightarrow> merge_list_by_key env g path keys (out[i := merged]) pels)
              | (_, None) \<Rightarrow>
                  merge_list_by_key env g path keys (out @ [strip_sentinel pel]) pels))"
  by pat_completeness auto
termination
  by (relation "measure (\<lambda>x. case x of
        Inl (Inl (env, g, path, cur, patch)) \<Rightarrow> size patch
      | Inl (Inr (env, g, path, out, p)) \<Rightarrow> size_list (size_prod (\<lambda>_. 0) size) p
      | Inr (Inl (env, g, path, strat, ex, pl)) \<Rightarrow> Suc (size_list size pl)
      | Inr (Inr (env, g, path, keys, out, pl)) \<Rightarrow> size_list size pl)") auto

section \<open>Dispatch\<close>

fun patch_type_debug :: "patch_type \<Rightarrow> string" where
  "patch_type_debug PtMerge = ''Merge''"
| "patch_type_debug PtStrategic = ''Strategic''"
| "patch_type_debug PtJson = ''Json''"
| "patch_type_debug PtApply = ''Apply''"

definition patch_apply ::
  "patch_schema_env \<Rightarrow> gvk \<Rightarrow> patch_type \<Rightarrow> json \<Rightarrow> patch_body \<Rightarrow> (patch_error, json) result" where
  "patch_apply env g pt current body =
     (case (pt, body) of
        (PtMerge, BMerge p) \<Rightarrow> Inr (merge_rfc7396 current p)
      | (PtJson, BJson ops) \<Rightarrow> apply_json_patch current ops
      | (PtStrategic, BStrategic p) \<Rightarrow> strategic_merge env g jp_root current p
      | (PtApply, _) \<Rightarrow> Inl (Unsupported ''server-side apply'')
      | (_, _) \<Rightarrow>
          Inl (Unsupported (''patch type '' @ patch_type_debug pt @ '' with mismatched body'')))"

section \<open>Merge patch: the member-wise meaning\<close>

definition or_null :: "json option \<Rightarrow> json" where
  "or_null x = (case x of Some w \<Rightarrow> w | None \<Rightarrow> JNull)"

lemma wf_json_or_null: "wf_json (JObject m) \<Longrightarrow> wf_json (or_null (map_of m k))"
  using wf_json_get [of m k] by (cases "map_of m k") (simp_all add: or_null_def)

lemma map_of_merge_fields:
  "distinct (map fst p) \<Longrightarrow>
    map_of (merge_fields m p) k =
      (case map_of p k of
         None \<Rightarrow> map_of m k
       | Some v \<Rightarrow> (if v = JNull then None else Some (merge_rfc7396 (or_null (map_of m k)) v)))"
proof (induction p arbitrary: m)
  case (Cons kv p)
  obtain k' v where kv: "kv = (k', v)" by (cases kv)
  have "k = k' \<Longrightarrow> map_of p k = None"
    using Cons.prems kv by (auto simp: map_of_eq_None_iff)
  with Cons kv show ?case by (auto simp: or_null_def split: option.splits)
qed simp

lemma bm_ok_merge_fields: "bm_ok m \<Longrightarrow> bm_ok (merge_fields m p)"
  by (induction m p rule: merge_rfc7396_merge_fields.induct(2) [where P = "\<lambda>_ _. True"]) auto

lemma wf_merge_rfc7396: "wf_json t \<Longrightarrow> wf_json p \<Longrightarrow> wf_json (merge_rfc7396 t p)"
  and wf_merge_fields:
    "wf_json (JObject m) \<Longrightarrow> \<forall>v \<in> snd ` set q. wf_json v \<Longrightarrow> wf_json (JObject (merge_fields m q))"
proof (induction t p and m q rule: merge_rfc7396_merge_fields.induct)
  case (1 t p)
  then show ?case by (cases t) fastforce+
next
  case (4 m k v p)
  have "wf_json (or_null (map_of m k))"
    using 4 by (intro wf_json_or_null) auto
  with 4 show ?case
    by (auto simp: or_null_def simp del: wf_json.simps)
qed auto

lemma merge_rfc7396_idem:
  "wf_json t \<Longrightarrow> wf_json p \<Longrightarrow> merge_rfc7396 (merge_rfc7396 t p) p = merge_rfc7396 t p"
proof (induction p arbitrary: t rule: json.induct)
  case (JObject p)
  define m where "m = (case t of JObject m \<Rightarrow> m | _ \<Rightarrow> [])"
  have m: "wf_json (JObject m)"
    using JObject.prems by (cases t) (auto simp: m_def)
  have d: "distinct (map fst p)"
    using JObject.prems by (auto intro: bm_ok_distinct)
  have "merge_fields (merge_fields m p) p = merge_fields m p"
  proof (rule bm_ok_ext)
    show "bm_ok (merge_fields (merge_fields m p) p)" "bm_ok (merge_fields m p)"
      using m by (auto intro: bm_ok_merge_fields)
    show "map_of (merge_fields (merge_fields m p) p) = map_of (merge_fields m p)"
    proof
      fix k
      show "map_of (merge_fields (merge_fields m p) p) k = map_of (merge_fields m p) k"
      proof (cases "map_of p k")
        case (Some v)
        have "wf_json (or_null (map_of m k))"
          using m by (rule wf_json_or_null)
        moreover have "wf_json v"
          using JObject.prems(2) Some by (rule wf_json_get)
        ultimately have "merge_rfc7396 (merge_rfc7396 (or_null (map_of m k)) v) v =
            merge_rfc7396 (or_null (map_of m k)) v"
          using JObject.IH [of "(k, v)" v] map_of_SomeD [OF Some] by simp
        with Some d show ?thesis by (simp add: map_of_merge_fields or_null_def)
      qed (simp add: map_of_merge_fields d)
    qed
  qed
  then show ?case by (simp add: m_def)
qed simp_all

section \<open>JSON pointers: what an operation reads and writes\<close>

lemma get_tokens_append:
  "get_tokens doc (ts @ us) = Option.bind (get_tokens doc ts) (\<lambda>v. get_tokens v us)"
  by (induction doc ts rule: get_tokens.induct) (auto split: json.splits option.splits)

lemma wf_get_tokens: "wf_json doc \<Longrightarrow> get_tokens doc ts = Some v \<Longrightarrow> wf_json v"
proof (induction doc ts rule: get_tokens.induct)
  case (2 cur t ts)
  then show ?case
    by (auto split: json.splits option.splits if_splits dest: wf_members_get)
qed simp

text \<open>A successful walk: where the action ran, and what is there afterwards.\<close>

lemma at_parent_Inr:
  "at_parent bad ts act doc = Inr (doc', r) \<Longrightarrow>
    \<exists>v v'. get_tokens doc ts = Some v \<and> act v = Inr (v', r) \<and> get_tokens doc' ts = Some v'"
proof (induction ts arbitrary: doc doc')
  case (Cons t ts)
  then show ?case
    by (cases doc) (fastforce split: option.splits if_splits sum.splits)+
qed simp

text \<open>An action that another one undoes is undone through the same walk.\<close>

lemma at_parent_undo:
  assumes "at_parent bad ts act doc = Inr (doc', r)" and "wf_json doc"
    and "\<And>v v'. get_tokens doc ts = Some v \<Longrightarrow> act v = Inr (v', r) \<Longrightarrow> undo v' = Inr (v, s)"
  shows "at_parent bad ts undo doc' = Inr (doc, s)"
  using assms
proof (induction ts arbitrary: doc doc')
  case (Cons t ts)
  show ?case
  proof (cases doc)
    case (JObject m)
    with Cons.prems(1) obtain v v' where v: "map_of m t = Some v"
      and w: "at_parent bad ts act v = Inr (v', r)" and d: "doc' = JObject (bm_insert t v' m)"
      by (auto split: option.splits sum.splits)
    have "at_parent bad ts undo v' = Inr (v, s)"
      using w Cons.prems(2,3) JObject v by (intro Cons.IH) (auto dest: wf_members_get)
    moreover have "bm_insert t v (bm_insert t v' m) = m"
      using Cons.prems(2) JObject v by (simp add: bm.put_put bm.put_id)
    ultimately show ?thesis using d JObject by simp
  next
    case (JArray a)
    with Cons.prems(1) obtain i v' where i: "parse_usize t = Some i" "i < length a"
      and w: "at_parent bad ts act (a ! i) = Inr (v', r)" and d: "doc' = JArray (a[i := v'])"
      by (auto split: option.splits sum.splits if_splits)
    have "at_parent bad ts undo v' = Inr (a ! i, s)"
      using w Cons.prems(2,3) JArray i by (intro Cons.IH) auto
    then show ?thesis using d JArray i by simp
  qed (use Cons.prems(1) in simp_all)
qed simp

lemma take_drop_insert_remove:
  "i \<le> length a \<Longrightarrow> take i (take i a @ v # drop i a) @ drop (Suc i) (take i a @ v # drop i a) = a"
  by (simp add: min_absorb2)

lemma remove_after_add_last:
  assumes "add_last path t v cur = Inr (cur', ())" and "wf_json cur"
    and "is_array cur \<Longrightarrow> t \<noteq> ''-''" and "jget cur t = None"
  shows "remove_last path t cur' = Inr (cur, v)"
proof (cases cur)
  case (JObject m)
  with assms(1) have "cur' = JObject (bm_insert t v m)" by (simp add: add_last_def)
  then show ?thesis
    using JObject assms(2,4) by (simp add: remove_last_def bm.del_put bm.del_id)
next
  case (JArray a)
  with assms(1,3) obtain i where "parse_usize t = Some i" "i \<le> length a"
    "cur' = JArray (take i a @ v # drop i a)"
    by (auto simp: add_last_def not_less split: option.splits if_splits)
  then show ?thesis
    using JArray by (auto simp: remove_last_def nth_append min_absorb2)
qed (use assms(1) in \<open>simp_all add: add_last_def\<close>)

lemma get_after_add_last:
  assumes "add_last path t v cur = Inr (cur', ())" and "is_array cur \<Longrightarrow> t \<noteq> ''-''"
  shows "get_tokens cur' [t] = Some v"
  using assms by (cases cur) (auto simp: add_last_def nth_append not_less split: option.splits if_splits)

text \<open>The value the last token of a pointer is looked up in.\<close>

definition pointer_parent :: "json \<Rightarrow> string \<Rightarrow> json option" where
  "pointer_parent doc path = get_tokens doc (butlast (pointer_tokens path))"

lemma pointer_add_InrD:
  assumes "pointer_add doc path v = Inr doc'" and "pointer_tokens path \<noteq> []"
  shows "at_parent (JsonPointer path) (butlast (pointer_tokens path))
      (add_last path (last (pointer_tokens path)) v) doc = Inr (doc', ())"
  using assms by (auto simp: pointer_add_def Let_def map_sum_def split: sum.splits)

lemma pointer_get_parent:
  "pointer_tokens path \<noteq> [] \<Longrightarrow>
    pointer_get doc path =
      Option.bind (pointer_parent doc path) (\<lambda>c. get_tokens c [last (pointer_tokens path)])"
  unfolding pointer_get_def pointer_parent_def
  by (metis append_butlast_last_id get_tokens_append)

section \<open>Strategic merge: what a patch leaves alone\<close>

lemmas strategic_induct =
  strategic_merge_strategic_fields_merge_list_merge_list_by_key.induct

lemma position_SomeD: "position P xs = Some i \<Longrightarrow> i < length xs \<and> P (xs ! i)"
  by (induction xs arbitrary: i) (auto split: if_splits)

lemma set_take_drop_remove: "set (take i xs @ drop (Suc i) xs) \<subseteq> set xs"
  using set_take_subset set_drop_subset by fastforce

lemma set_set_union: "set (set_union out ps) = set out \<union> set ps"
  by (induction out ps rule: set_union.induct) auto

lemma strategic_fields_frame:
  "strategic_fields env g path out p = Inr r \<Longrightarrow> k \<notin> fst ` set p \<Longrightarrow> map_of r k = map_of out k"
proof (induction p arbitrary: out)
  case (Cons kv p)
  then show ?case
    by (cases kv) (auto split: if_splits json.splits sum.splits simp: Let_def)
qed simp

definition scalar :: "json \<Rightarrow> bool" where
  "scalar v \<longleftrightarrow> \<not> is_null v \<and> \<not> is_array v \<and> \<not> is_object v"

lemma strategic_fields_scalar:
  assumes "strategic_fields env g path out p = Inr r" and "distinct (map fst p)"
    and "map_of p k = Some pv" and "scalar pv"
    and "k \<noteq> patch_sentinel" and "k \<noteq> retain_keys_sentinel"
  shows "map_of r k = Some pv"
  using assms
proof (induction p arbitrary: out)
  case (Cons kv p)
  obtain k' v where kv: "kv = (k', v)" by (cases kv)
  show ?case
  proof (cases "k' = k")
    case True
    with Cons.prems kv have "v = pv" "k \<notin> fst ` set p" by auto
    with Cons.prems kv True have "strategic_fields env g path (bm_insert k pv out) p = Inr r"
      by (cases pv) (auto simp: scalar_def)
    from strategic_fields_frame [OF this \<open>k \<notin> fst ` set p\<close>] show ?thesis by simp
  next
    case False
    with Cons kv show ?thesis
      by (auto split: if_splits json.splits sum.splits simp: Let_def)
  qed
qed simp

lemma strategic_merge_object_cases:
  assumes "strategic_merge env g path cur (JObject p) = Inr r"
  obtains (replaced) "r = JObject (bm_remove patch_sentinel p)"
  | (merged) r' where "strategic_fields env g path (merge_base p cur) p = Inr r'"
      and "r = JObject r'" and "object_directive p = Inr False"
  using assms by (auto simp: map_sum_def split: sum.splits if_splits)

text \<open>A list element a patch can address: an object with scalar merge keys.\<close>

definition addressed_by :: "string list \<Rightarrow> json \<Rightarrow> bool" where
  "addressed_by keys el \<longleftrightarrow>
     (case el of
        JObject p \<Rightarrow> bm_ok p \<and>
          (\<forall>k \<in> set keys. k \<noteq> patch_sentinel \<and> k \<noteq> retain_keys_sentinel \<and>
             (case map_of p k of Some pv \<Rightarrow> scalar pv | None \<Rightarrow> False))
      | _ \<Rightarrow> False)"

lemma strategic_merge_keeps_key:
  assumes "strategic_merge env g path cur pel = Inr r" and "addressed_by keys pel"
  shows "merge_key_of keys r = merge_key_of keys pel"
proof -
  from assms(2) obtain p where p: "pel = JObject p" "bm_ok p"
    and k: "\<And>k. k \<in> set keys \<Longrightarrow> k \<noteq> patch_sentinel \<and> k \<noteq> retain_keys_sentinel \<and>
              (\<exists>pv. map_of p k = Some pv \<and> scalar pv)"
    by (auto simp: addressed_by_def split: json.splits option.splits)
  from assms(1) [unfolded p(1)] obtain r' where r: "r = JObject r'"
    and same: "\<And>k. k \<in> set keys \<Longrightarrow> map_of r' k = map_of p k"
  proof (cases rule: strategic_merge_object_cases)
    case replaced
    then show ?thesis using k that by simp
  next
    case (merged r')
    then show ?thesis
      using k that strategic_fields_scalar [OF merged(1) bm_ok_distinct [OF p(2)]] by metis
  qed
  show ?thesis
    using same by (simp add: merge_key_of_def r p(1) cong: map_cong)
qed

lemma merge_key_strip_sentinel:
  "addressed_by keys pel \<Longrightarrow> merge_key_of keys (strip_sentinel pel) = merge_key_of keys pel"
  by (auto simp: addressed_by_def strip_sentinel_def merge_key_of_def cong: map_cong
      split: json.splits)

lemma addressed_is_object: "addressed_by keys pel \<Longrightarrow> is_object pel"
  by (auto simp: addressed_by_def split: json.splits)

lemma filter_list_update_out:
  "i < length xs \<Longrightarrow> \<not> P (xs ! i) \<Longrightarrow> \<not> P y \<Longrightarrow> filter P (xs[i := y]) = filter P xs"
proof (induction xs arbitrary: i)
  case (Cons x xs)
  then show ?case by (cases i) auto
qed simp

lemma filter_take_drop_out:
  assumes "i < length xs" and "\<not> P (xs ! i)"
  shows "filter P (take i xs @ drop (Suc i) xs) = filter P xs"
proof -
  have "filter P xs = filter P (take i xs @ xs ! i # drop (Suc i) xs)"
    using assms(1) by (simp add: id_take_nth_drop [symmetric])
  with assms(2) show ?thesis by simp
qed

lemma merge_list_by_key_ConsE:
  assumes "merge_list_by_key env g path keys out (pel # pels) = Inr l"
  obtains
    (kept) "merge_list_by_key env g path keys out pels = Inr l"
  | (plain) "merge_list_by_key env g path keys (out @ [pel]) pels = Inr l" and "\<not> is_object pel"
  | (appended) "merge_list_by_key env g path keys (out @ [strip_sentinel pel]) pels = Inr l"
  | (removed) i where "i < length out" and "merge_key_of keys (out ! i) = merge_key_of keys pel"
      and "merge_list_by_key env g path keys (take i out @ drop (Suc i) out) pels = Inr l"
  | (merged) i m where "i < length out" and "merge_key_of keys (out ! i) = merge_key_of keys pel"
      and "strategic_merge env g path (out ! i) pel = Inr m"
      and "merge_list_by_key env g path keys (out[i := m]) pels = Inr l"
proof (cases "merge_key_of keys pel")
  case None
  then show thesis using assms kept plain by (auto split: if_splits)
next
  case (Some pkey)
  note mk = this
  show thesis
  proof (cases "position (\<lambda>e. merge_key_of keys e = Some pkey) out")
    case None
    then show thesis using assms mk kept appended
      by (auto simp: Let_def split: option.splits patch_directive.splits)
  next
    case (Some i)
    then show thesis using assms mk position_SomeD [OF Some] removed [of i] merged [of i]
      by (auto simp: Let_def split: option.splits patch_directive.splits sum.splits)
  qed
qed

lemma merge_list_by_key_frame:
  assumes "merge_list_by_key env g path keys ex pl = Inr out"
    and "\<forall>pel \<in> set pl. addressed_by keys pel" and "merge_key_of keys ` set pl \<subseteq> S"
  shows "filter (\<lambda>e. merge_key_of keys e \<notin> S) out = filter (\<lambda>e. merge_key_of keys e \<notin> S) ex"
  using assms
proof (induction pl arbitrary: ex)
  case (Cons pel pls)
  let ?P = "\<lambda>e. merge_key_of keys e \<notin> S"
  have pel: "addressed_by keys pel" "merge_key_of keys pel \<in> S" using Cons.prems by auto
  have IH: "merge_list_by_key env g path keys ex' pls = Inr out \<Longrightarrow> filter ?P out = filter ?P ex'"
    for ex' using Cons by auto
  from Cons.prems(1) show ?case
  proof (cases rule: merge_list_by_key_ConsE)
    case kept
    then show ?thesis by (rule IH)
  next
    case plain
    then show ?thesis using addressed_is_object [OF pel(1)] by simp
  next
    case appended
    then show ?thesis using IH [OF appended] merge_key_strip_sentinel [OF pel(1)] pel(2) by simp
  next
    case (removed i)
    then show ?thesis
      using IH [OF removed(3)] filter_take_drop_out [where P = ?P, of i ex] pel(2) by simp
  next
    case (merged i m)
    then show ?thesis
      using IH [OF merged(4)] filter_list_update_out [where P = ?P, of i ex m] pel(2)
        strategic_merge_keeps_key [OF merged(3) pel(1)] by simp
  qed
qed simp

section \<open>Every patch keeps documents well formed\<close>

abbreviation wf_values :: "json_map \<Rightarrow> bool" where
  "wf_values p \<equiv> \<forall>v \<in> snd ` set p. wf_json v"

abbreviation wf_list :: "json list \<Rightarrow> bool" where
  "wf_list xs \<equiv> \<forall>x \<in> set xs. wf_json x"

lemma wf_object_iff: "wf_json (JObject m) \<longleftrightarrow> bm_ok m \<and> wf_values m"
  by fastforce

lemma wf_update:
  assumes "wf_list xs" and "wf_json v"
  shows "wf_list (xs[i := v])"
  using assms set_update_subset_insert [of xs i v] by blast

lemma wf_remove_nth: "wf_list xs \<Longrightarrow> wf_list (take i xs @ drop (Suc i) xs)"
  using set_take_drop_remove [of i xs] by blast

lemma wf_strip_sentinel: "wf_json el \<Longrightarrow> wf_json (strip_sentinel el)"
  by (cases el) (auto simp: strip_sentinel_def bm_remove_def)

lemma wf_merge_base: "wf_json cur \<Longrightarrow> wf_json (JObject (merge_base p cur))"
  by (cases cur) (auto simp: merge_base_def bm_retain_def split: option.splits)

lemma wf_default_array: "wf_json (JObject out) \<Longrightarrow>
    wf_list (case map_of out k of Some (JArray a) \<Rightarrow> a | _ \<Rightarrow> [])"
  using wf_json_get [of out k]
  by (cases "map_of out k") (auto simp del: wf_json.simps(2) split: json.splits)

lemma wf_default_object: "wf_json (JObject out) \<Longrightarrow>
    wf_json (case map_of out k of Some b \<Rightarrow> b | None \<Rightarrow> JObject [])"
  using wf_json_get [of out k] by (cases "map_of out k") simp_all

definition merges_wf :: "json \<Rightarrow> bool" where
  "merges_wf patch \<longleftrightarrow>
     (\<forall>env g path cur r. strategic_merge env g path cur patch = Inr r \<longrightarrow> wf_json cur \<longrightarrow> wf_json r)"

lemma merges_wfD:
  "merges_wf patch \<Longrightarrow> strategic_merge env g path cur patch = Inr r \<Longrightarrow> wf_json cur \<Longrightarrow> wf_json r"
  unfolding merges_wf_def by blast

lemma wf_merge_list_by_key:
  assumes "merge_list_by_key env g path keys ex pl = Inr l" and "wf_list ex" and "wf_list pl"
    and "\<forall>el \<in> set pl. merges_wf el"
  shows "wf_list l"
  using assms
proof (induction pl arbitrary: ex)
  case (Cons pel pls)
  have IH: "merge_list_by_key env g path keys ex' pls = Inr l \<Longrightarrow> wf_list ex' \<Longrightarrow> wf_list l" for ex'
    using Cons by auto
  from Cons.prems(1) show ?case
  proof (cases rule: merge_list_by_key_ConsE)
    case kept
    then show ?thesis using IH Cons.prems(2) by blast
  next
    case plain
    show ?thesis by (rule IH [OF plain(1)]) (use Cons.prems in auto)
  next
    case appended
    show ?thesis by (rule IH [OF appended]) (use Cons.prems wf_strip_sentinel in auto)
  next
    case (removed i)
    show ?thesis by (rule IH [OF removed(3)]) (rule wf_remove_nth [OF Cons.prems(2)])
  next
    case (merged i m)
    have "wf_json m"
      by (rule merges_wfD [OF _ merged(3)]) (use Cons.prems merged(1) in auto)
    with Cons.prems(2) show ?thesis using IH [OF merged(4)] wf_update by blast
  qed
qed simp

lemma wf_merge_list:
  assumes "merge_list env g path strat ex pl = Inr l" and "wf_list ex" and "wf_list pl"
    and "\<forall>el \<in> set pl. merges_wf el"
  shows "wf_list l"
  using assms wf_merge_list_by_key
  by (cases strat) (auto simp: set_set_union)

lemma wf_strategic_fields:
  assumes "strategic_fields env g path out p = Inr m" and "wf_json (JObject out)" and "wf_values p"
    and "\<forall>(k, pv) \<in> set p. merges_wf pv \<and> (\<forall>pl. pv = JArray pl \<longrightarrow> (\<forall>el \<in> set pl. merges_wf el))"
  shows "wf_json (JObject m)"
  using assms
proof (induction p arbitrary: out)
  case (Cons kv p)
  obtain k pv where kv: "kv = (k, pv)" by (cases kv)
  have IH: "strategic_fields env g path out' p = Inr m \<Longrightarrow> wf_json (JObject out')
      \<Longrightarrow> wf_json (JObject m)" for out' using Cons by auto
  note out = Cons.prems(2)
  have pv: "wf_json pv" "merges_wf pv" "\<And>pl. pv = JArray pl \<Longrightarrow> \<forall>el \<in> set pl. merges_wf el"
    using Cons.prems(3,4) kv by auto
  show ?case
  proof (cases "k = patch_sentinel \<or> k = retain_keys_sentinel")
    case True
    then show ?thesis using IH Cons.prems kv by simp
  next
    case plain: False
    note step = Cons.prems(1) [unfolded kv strategic_fields.simps if_not_P [OF plain]]
    have put: "strategic_fields env g path (bm_insert k v out) p = Inr m \<Longrightarrow> wf_json v
        \<Longrightarrow> wf_json (JObject m)" for v
      using IH wf_json_insert [OF out] by blast
    show ?thesis
    proof (cases pv)
      case JNull
      with step show ?thesis using IH [OF _ wf_json_remove [OF out]] by simp
    next
      case (JArray pl)
      with step obtain l where l: "merge_list env g (jp_child path k) (env g (jp_child path k))
            (case map_of out k of Some (JArray a) \<Rightarrow> a | _ \<Rightarrow> []) pl = Inr l"
          "strategic_fields env g path (bm_insert k (JArray l) out) p = Inr m"
        by (auto simp: Let_def split: sum.splits)
      have "wf_list l"
        by (rule wf_merge_list [OF l(1) wf_default_array [OF out]]) (use pv JArray in auto)
      then show ?thesis using put [OF l(2)] by simp
    next
      case (JObject q)
      with step obtain v where v: "strategic_merge env g (jp_child path k)
            (case map_of out k of Some b \<Rightarrow> b | None \<Rightarrow> JObject []) pv = Inr v"
          "strategic_fields env g path (bm_insert k v out) p = Inr m"
        by (auto simp: Let_def simp del: strategic_merge.simps split: sum.splits)
      show ?thesis
        by (rule put [OF v(2) merges_wfD [OF pv(2) v(1) wf_default_object [OF out]]])
    qed (use step put [OF _ pv(1)] in simp_all)
  qed
qed simp

lemma wf_strategic_merge_all:
  "wf_json patch \<Longrightarrow>
    merges_wf patch \<and> (\<forall>pl. patch = JArray pl \<longrightarrow> (\<forall>el \<in> set pl. merges_wf el))"
proof (induction patch)
  case (JArray pl)
  then have "\<forall>el \<in> set pl. merges_wf el" by simp
  with JArray.prems show ?case by (simp add: merges_wf_def [of "JArray pl"])
next
  case (JObject p)
  from JObject.prems have vals: "wf_values p" unfolding wf_object_iff by blast
  have members: "\<forall>(k, pv) \<in> set p. merges_wf pv \<and>
      (\<forall>pl. pv = JArray pl \<longrightarrow> (\<forall>el \<in> set pl. merges_wf el))"
  proof clarify
    fix k pv assume "(k, pv) \<in> set p"
    then show "merges_wf pv \<and> (\<forall>pl. pv = JArray pl \<longrightarrow> (\<forall>el \<in> set pl. merges_wf el))"
      by (intro JObject.IH [of "(k, pv)"]) (use vals in auto)
  qed
  have "wf_json r" if r: "strategic_merge env g path cur (JObject p) = Inr r" and "wf_json cur"
    for env g path cur r
    using r
  proof (cases rule: strategic_merge_object_cases)
    case replaced
    then show ?thesis using wf_json_remove [OF JObject.prems] by simp
  next
    case (merged r')
    then show ?thesis
      using wf_strategic_fields [OF merged(1) wf_merge_base [OF \<open>wf_json cur\<close>] vals members] by simp
  qed
  then have "merges_wf (JObject p)" unfolding merges_wf_def by blast
  then show ?case by simp
qed (simp_all add: merges_wf_def)

lemma wf_strategic_merge:
  "strategic_merge env g path cur patch = Inr r \<Longrightarrow> wf_json cur \<Longrightarrow> wf_json patch \<Longrightarrow> wf_json r"
  by (metis wf_strategic_merge_all merges_wfD)

lemma wf_at_parent:
  assumes "at_parent bad ts act doc = Inr (doc', r)" and "wf_json doc"
    and "\<And>v v'. wf_json v \<Longrightarrow> act v = Inr (v', r) \<Longrightarrow> wf_json v'"
  shows "wf_json doc'"
  using assms(1,2)
proof (induction ts arbitrary: doc doc')
  case Nil
  then show ?case using assms(3) by simp
next
  case (Cons t ts)
  show ?case
  proof (cases doc)
    case (JObject m)
    with Cons.prems(1) obtain v v' where v: "map_of m t = Some v"
      and w: "at_parent bad ts act v = Inr (v', r)" and d: "doc' = JObject (bm_insert t v' m)"
      by (auto split: option.splits sum.splits)
    have "wf_json v'" by (rule Cons.IH [OF w]) (use Cons.prems(2) JObject v wf_json_get in blast)
    with Cons.prems(2) JObject show ?thesis unfolding d by (simp only: wf_json_insert)
  next
    case (JArray a)
    with Cons.prems(1) obtain i v' where i: "i < length a"
      and w: "at_parent bad ts act (a ! i) = Inr (v', r)" and d: "doc' = JArray (a[i := v'])"
      by (auto split: option.splits sum.splits if_splits)
    have "wf_json v'" by (rule Cons.IH [OF w]) (use Cons.prems(2) JArray i in simp)
    with Cons.prems(2) JArray show ?thesis using d wf_update [of a v' i] by simp
  qed (use Cons.prems(1) in simp_all)
qed

lemma wf_insert_at: "wf_list a \<Longrightarrow> wf_json v \<Longrightarrow> wf_list (take i a @ v # drop i a)"
  by (auto dest: in_set_takeD in_set_dropD)

lemma wf_add_last:
  assumes "add_last path t v cur = Inr (cur', u)" and "wf_json cur" and "wf_json v"
  shows "wf_json cur'"
proof (cases cur)
  case (JObject m)
  with assms show ?thesis by (simp add: add_last_def del: wf_json.simps(2)) auto
next
  case (JArray a)
  with assms(1) consider "cur' = JArray (a @ [v])" | i where "cur' = JArray (take i a @ v # drop i a)"
    by (auto simp: add_last_def split: option.splits if_splits)
  then show ?thesis using assms(2,3) JArray wf_insert_at [of a v] by cases auto
qed (use assms(1) in \<open>simp_all add: add_last_def\<close>)

lemma wf_replace_last:
  assumes "replace_last path t v cur = Inr (cur', u)" and "wf_json cur" and "wf_json v"
  shows "wf_json cur'"
proof (cases cur)
  case (JObject m)
  with assms show ?thesis by (simp add: replace_last_def del: wf_json.simps(2)) auto
next
  case (JArray a)
  with assms(1) obtain i where "cur' = JArray (a[i := v])"
    by (auto simp: replace_last_def split: option.splits if_splits)
  then show ?thesis using assms(2,3) JArray wf_update [of a v i] by simp
qed (use assms(1) in \<open>simp_all add: replace_last_def\<close>)

lemma wf_remove_last:
  assumes "remove_last path t cur = Inr (cur', w)" and "wf_json cur"
  shows "wf_json cur' \<and> wf_json w"
proof (cases cur)
  case (JObject m)
  with assms(1) have "map_of m t = Some w" "cur' = JObject (bm_remove t m)"
    by (auto simp: remove_last_def split: option.splits)
  with wf_json_get [of m t w] wf_json_remove [of m t] assms(2) JObject show ?thesis by simp
next
  case (JArray a)
  with assms(1) obtain i where "i < length a" "w = a ! i"
    "cur' = JArray (take i a @ drop (Suc i) a)"
    by (auto simp: remove_last_def not_le split: option.splits if_splits)
  then show ?thesis using assms(2) JArray wf_remove_nth [of a i] by simp
qed (use assms(1) in \<open>simp_all add: remove_last_def\<close>)

lemma wf_pointer_add:
  assumes "pointer_add doc path v = Inr doc'" and "wf_json doc" and "wf_json v"
  shows "wf_json doc'"
proof (cases "pointer_tokens path = []")
  case False
  then have "at_parent (JsonPointer path) (butlast (pointer_tokens path))
      (add_last path (last (pointer_tokens path)) v) doc = Inr (doc', ())"
    using assms(1) by (auto simp: pointer_add_def Let_def map_sum_def split: sum.splits)
  from wf_at_parent [OF this assms(2)] wf_add_last [OF _ _ assms(3)] show ?thesis by blast
qed (use assms in \<open>auto simp: pointer_add_def split: if_splits\<close>)

lemma wf_pointer_replace:
  assumes "pointer_replace doc path v = Inr doc'" and "wf_json doc" and "wf_json v"
  shows "wf_json doc'"
proof (cases "pointer_tokens path = []")
  case False
  then have "at_parent (JsonPointer path) (butlast (pointer_tokens path))
      (replace_last path (last (pointer_tokens path)) v) doc = Inr (doc', ())"
    using assms(1) by (auto simp: pointer_replace_def Let_def map_sum_def split: sum.splits)
  from wf_at_parent [OF this assms(2)] wf_replace_last [OF _ _ assms(3)] show ?thesis by blast
qed (use assms in \<open>auto simp: pointer_replace_def split: if_splits\<close>)

lemma wf_pointer_remove:
  assumes "pointer_remove doc path = Inr (doc', v)" and "wf_json doc"
  shows "wf_json doc' \<and> wf_json v"
proof (cases "pointer_tokens path = []")
  case False
  let ?ts = "butlast (pointer_tokens path)"
  have walk: "at_parent (JsonPointer path) ?ts (remove_last path (last (pointer_tokens path))) doc
      = Inr (doc', v)"
    using assms(1) False by (simp add: pointer_remove_def Let_def)
  have "wf_json doc'" using wf_at_parent [OF walk assms(2)] wf_remove_last by blast
  moreover obtain c c' where "get_tokens doc ?ts = Some c"
      "remove_last path (last (pointer_tokens path)) c = Inr (c', v)"
    using at_parent_Inr [OF walk] by blast
  ultimately show ?thesis using wf_get_tokens [OF assms(2)] wf_remove_last by blast
qed (use assms in \<open>auto simp: pointer_remove_def\<close>)

text \<open>The values a patch body brings with it.\<close>

fun wf_op :: "json_patch_op \<Rightarrow> bool" where
  "wf_op (OpAdd path v) = wf_json v"
| "wf_op (OpReplace path v) = wf_json v"
| "wf_op _ = True"

fun wf_body :: "patch_body \<Rightarrow> bool" where
  "wf_body (BMerge p) = wf_json p"
| "wf_body (BStrategic p) = wf_json p"
| "wf_body (BApply p) = wf_json p"
| "wf_body (BJson ops) = (\<forall>op \<in> set ops. wf_op op)"

lemma wf_apply_one_op:
  "apply_one_op doc op = Inr doc' \<Longrightarrow> wf_json doc \<Longrightarrow> wf_op op \<Longrightarrow> wf_json doc'"
  by (cases op) (auto simp: apply_one_op_def map_sum_def pointer_get_def
      split: option.splits sum.splits prod.splits if_splits
      dest: wf_pointer_add wf_pointer_replace wf_pointer_remove wf_get_tokens)

lemma wf_apply_json_patch:
  "apply_json_patch doc ops = Inr doc' \<Longrightarrow> wf_json doc \<Longrightarrow> \<forall>op \<in> set ops. wf_op op \<Longrightarrow> wf_json doc'"
  by (induction doc ops rule: apply_json_patch.induct)
    (auto split: sum.splits intro: wf_apply_one_op)

lemma wf_patch_apply:
  "patch_apply env g pt doc body = Inr doc' \<Longrightarrow> wf_json doc \<Longrightarrow> wf_body body \<Longrightarrow> wf_json doc'"
  using wf_merge_rfc7396 wf_apply_json_patch wf_strategic_merge
  by (cases pt; cases body) (simp_all add: patch_apply_def, blast+)

section \<open>Properties of the patch engine\<close>



text \<open>
  Applying a merge patch twice is the same as applying it once, on every well-formed
  document: a client that retries a merge patch does no harm.
\<close>

theorem merge_patch_idempotent:
  assumes "wf_json cur" and "wf_json p"
  shows "patch_apply env g PtMerge (merge_rfc7396 cur p) (BMerge p) =
    patch_apply env g PtMerge cur (BMerge p)"
  using assms by (simp add: patch_apply_def merge_rfc7396_idem)

theorem merge_patch_idempotent_witness:
  "patch_apply (\<lambda>_ _. LReplace) (gvk_of_key (namespaced [] ''v1'' ''Pod'' ''ns'' ''p'')) PtMerge (merge_rfc7396 (JObject [(''a'', JBool True)])
      (JObject [(''a'', JNull), (''b'', JBool True)]))
      (BMerge (JObject [(''a'', JNull), (''b'', JBool True)])) =
    patch_apply (\<lambda>_ _. LReplace) (gvk_of_key (namespaced [] ''v1'' ''Pod'' ''ns'' ''p'')) PtMerge (JObject [(''a'', JBool True)])
      (BMerge (JObject [(''a'', JNull), (''b'', JBool True)]))"
  by (rule merge_patch_idempotent) code_simp+

text \<open>
  C40. JSON Patch round trip: when an \<open>add\<close> creates a member (or inserts an element by its
  index) the value can be read back at the same pointer, and a \<open>remove\<close> at that pointer
  restores the document and returns the added value.
\<close>

theorem json_patch_add_remove:
  assumes "wf_json doc" and "pointer_add doc path v = Inr doc'"
    and "pointer_tokens path \<noteq> []" and "pointer_parent doc path = Some parent"
    and "is_array parent \<longrightarrow> last (pointer_tokens path) \<noteq> ''-''"
    and "jget parent (last (pointer_tokens path)) = None"
  shows "pointer_get doc' path = Some v \<and> pointer_remove doc' path = Inr (doc, v)"
proof -
  let ?ts = "butlast (pointer_tokens path)" and ?t = "last (pointer_tokens path)"
  note walk = pointer_add_InrD [OF assms(2,3)]
  have par: "get_tokens doc ?ts = Some parent"
    using assms(4) by (simp add: pointer_parent_def)
  obtain c' where c': "add_last path ?t v parent = Inr (c', ())" "get_tokens doc' ?ts = Some c'"
    using at_parent_Inr [OF walk] par by auto
  have "pointer_get doc' path = Some v"
    using pointer_get_parent [OF assms(3), of doc'] get_after_add_last [OF c'(1)] assms(5) c'(2)
    by (simp add: pointer_parent_def)
  moreover have "at_parent (JsonPointer path) ?ts (remove_last path ?t) doc' = Inr (doc, v)"
    using par assms(1,5,6)
    by (intro at_parent_undo [OF walk]) (auto intro!: remove_after_add_last dest: wf_get_tokens)
  ultimately show ?thesis
    using assms(3) by (simp add: pointer_remove_def Let_def)
qed

theorem json_patch_add_remove_witness:
  "pointer_get (JObject [(''spec'', JObject [(''a'', JBool True), (''b'', JBool False)])]) ''/spec/b''
      = Some (JBool False) \<and>
    pointer_remove (JObject [(''spec'', JObject [(''a'', JBool True), (''b'', JBool False)])]) ''/spec/b''
      = Inr (JObject [(''spec'', JObject [(''a'', JBool True)])], JBool False)"
  by (rule json_patch_add_remove [where parent = "JObject [(''a'', JBool True)]"]) code_simp+

text \<open>
  C36. The list merge behind \<open>kubectl set image\<close>: when every element of the patch list is an
  object with scalar merge keys, the elements of the stored list whose key the patch does
  not name are all kept, unchanged and in order, and no other element with such a key
  appears.
\<close>

theorem merge_by_key_frame:
  assumes "merge_list env g path (MergeByKey keys) existing patch_list = Inr out"
    and "\<forall>pel \<in> set patch_list. addressed_by keys pel"
  shows "filter (\<lambda>e. merge_key_of keys e \<notin> merge_key_of keys ` set patch_list) out =
    filter (\<lambda>e. merge_key_of keys e \<notin> merge_key_of keys ` set patch_list) existing"
  using assms by (intro merge_list_by_key_frame) auto

theorem merge_by_key_frame_witness:
  "let existing = [JObject [(''image'', JString ''a:1''), (''name'', JString ''app'')],
                   JObject [(''image'', JString ''s:1''), (''name'', JString ''sidecar'')]];
       patch_list = [JObject [(''image'', JString ''a:2''), (''name'', JString ''app'')]];
       out = [JObject [(''image'', JString ''a:2''), (''name'', JString ''app'')],
              JObject [(''image'', JString ''s:1''), (''name'', JString ''sidecar'')]];
       other = (\<lambda>e. merge_key_of [''name''] e \<notin> merge_key_of [''name''] ` set patch_list)
   in filter other out = filter other existing"
  unfolding Let_def
  by (rule merge_by_key_frame [where env = "\<lambda>_ _. LReplace" and path = jp_root
        and g = "\<lparr>gvk_group = [], gvk_version = ''v1'', gvk_kind = ''Pod''\<rparr>"]) code_simp+

text \<open>
  Every patch, of every type, maps a well-formed document (members sorted and distinct at
  every level, as the map type guarantees) and a well-formed body to a well-formed document.
\<close>

theorem patch_keeps_wf:
  assumes "patch_apply env g pt doc body = Inr doc'" and "wf_json doc" and "wf_body body"
  shows "wf_json doc'"
  using assms by (rule wf_patch_apply)

theorem patch_keeps_wf_witness:
  "wf_json (JObject [(''a'', JArray [JBool True, JNull])])"
  by (rule patch_keeps_wf [where doc = "JObject [(''a'', JArray [JBool True])]" and pt = PtJson
        and body = "BJson [OpAdd ''/a/-'' JNull]" and env = "\<lambda>_ _. LReplace"
        and g = "\<lparr>gvk_group = [], gvk_version = ''v1'', gvk_kind = ''Pod''\<rparr>"]) code_simp+

end
