(* ===== verification/Command.thy ===== *)
theory Command
  imports Patch
begin

text \<open>
  The commands the store replicates (\<open>engenho-store/src/command.rs\<close>): put, patch, delete and
  transaction, the rules version a logged command is replayed under, and the operation an
  application reports. The clock and the field manager of a command were frozen when it was
  proposed, so applying a command reads nothing but the command and the catalog.
\<close>

section \<open>Commands\<close>

datatype reason =
    Operator | Controller | GarbageCollector | Admission | Scheduler | SealedPlaceholder

record apply_meta =
  am_manager :: string
  am_force :: bool
  am_time :: string

datatype txn_compare =
    ModRevisionEq resource_key revision
  | NotExists resource_key

datatype txn_op =
    TxnPut resource_key json
  | TxnDelete resource_key "string option"

datatype resource_command =
    CmdPut resource_key json "revision option" reason
  | CmdPatch resource_key json patch_type "apply_meta option" "revision option" reason
  | CmdDelete resource_key "revision option" reason "string option"
  | CmdTxn "txn_compare list" "txn_op list" "txn_op list" reason

fun compare_key :: "txn_compare \<Rightarrow> resource_key" where
  "compare_key (ModRevisionEq k _) = k"
| "compare_key (NotExists k) = k"

fun txn_op_key :: "txn_op \<Rightarrow> resource_key" where
  "txn_op_key (TxnPut k _) = k"
| "txn_op_key (TxnDelete k _) = k"

fun command_keys :: "resource_command \<Rightarrow> resource_key list" where
  "command_keys (CmdPut k _ _ _) = [k]"
| "command_keys (CmdPatch k _ _ _ _ _) = [k]"
| "command_keys (CmdDelete k _ _ _) = [k]"
| "command_keys (CmdTxn compares success failure _) =
     map compare_key compares @ map txn_op_key (success @ failure)"

definition sealed_placeholder :: resource_command where
  "sealed_placeholder = CmdTxn [] [] [] SealedPlaceholder"

definition is_sealed_placeholder :: "resource_command \<Rightarrow> bool" where
  "is_sealed_placeholder cmd = (case cmd of CmdTxn _ _ _ SealedPlaceholder \<Rightarrow> True | _ \<Rightarrow> False)"

section \<open>Constructors\<close>

definition cmd_put :: "resource_key \<Rightarrow> json \<Rightarrow> reason \<Rightarrow> resource_command" where
  "cmd_put key v r = CmdPut key v None r"

definition cmd_patch_typed :: "resource_key \<Rightarrow> json \<Rightarrow> patch_type \<Rightarrow> reason \<Rightarrow> resource_command" where
  "cmd_patch_typed key p pt r = CmdPatch key p pt None None r"

definition cmd_apply_ssa ::
  "resource_key \<Rightarrow> json \<Rightarrow> apply_meta \<Rightarrow> revision option \<Rightarrow> reason \<Rightarrow> resource_command" where
  "cmd_apply_ssa key body meta expected r = CmdPatch key body PtApply (Some meta) expected r"

definition cmd_patch :: "resource_key \<Rightarrow> json \<Rightarrow> reason \<Rightarrow> resource_command" where
  "cmd_patch key p r = cmd_patch_typed key p PtMerge r"

definition cmd_patch_cas ::
  "resource_key \<Rightarrow> json \<Rightarrow> revision option \<Rightarrow> reason \<Rightarrow> resource_command" where
  "cmd_patch_cas key p expected r = CmdPatch key p PtMerge None expected r"

definition cmd_delete_at ::
  "resource_key \<Rightarrow> revision option \<Rightarrow> reason \<Rightarrow> string option \<Rightarrow> resource_command" where
  "cmd_delete_at key expected r ts = CmdDelete key expected r ts"

text \<open>The clock read of \<open>delete\<close> is the argument \<open>now\<close>.\<close>

definition cmd_delete :: "string \<Rightarrow> resource_key \<Rightarrow> reason \<Rightarrow> resource_command" where
  "cmd_delete now key r = cmd_delete_at key None r (Some now)"

section \<open>The log\<close>

datatype apply_semantics = V0 | V1

definition current_semantics :: apply_semantics where
  "current_semantics = V1"

definition unmarked_semantics :: apply_semantics where
  "unmarked_semantics = V0"

record logged_command =
  lc_command :: resource_command
  lc_semantics :: apply_semantics

definition proposed :: "resource_command \<Rightarrow> logged_command" where
  "proposed cmd = \<lparr>lc_command = cmd, lc_semantics = current_semantics\<rparr>"

datatype resource_op =
    Created | Replaced | Patched | Deleted | DeletionPending | Conflict | PatchRejected
  | ApplyConflict | Unchanged | NoOp

end
