(* ===== verification/Ssa.thy ===== *)
theory Ssa
  imports Patch
begin

text \<open>
  Server-side apply (\<open>engenho-store/src/ssa.rs\<close>): field-ownership tries, the fieldset an
  applied configuration owns, conflict detection, the merge with field removal, and the
  \<open>managedFields\<close> ledger.

  The text form of a JSON value is rendered and parsed by \<open>serde_json\<close>, which is not part
  of the repository: the pair of functions is the argument \<open>J\<close>. The code orders the
  children of a trie node by their \<open>FieldsV1\<close> key, so a node's children are kept here as a
  map from that key to the path element and its subtree.
\<close>

record json_text =
  to_string :: "json \<Rightarrow> string"
  from_str :: "string \<Rightarrow> json option"

text \<open>An object literal: the members inserted in the order written.\<close>

definition json_object :: "(string \<times> json) list \<Rightarrow> json" where
  "json_object kvs = JObject (fold (\<lambda>(k, v). bm_insert k v) kvs [])"

section \<open>Path elements\<close>

datatype path_element = PField string | PKey json_map | PValue json | PIndex nat

definition to_fields_v1_key :: "json_text \<Rightarrow> path_element \<Rightarrow> string" where
  "to_fields_v1_key J el =
     (case el of
        PField n \<Rightarrow> ''f:'' @ n
      | PKey keys \<Rightarrow> ''k:'' @ to_string J (JObject keys)
      | PValue v \<Rightarrow> ''v:'' @ to_string J v
      | PIndex i \<Rightarrow> ''i:'' @ show_nat i)"

definition strip_prefix :: "string \<Rightarrow> string \<Rightarrow> string option" where
  "strip_prefix p s = (if take (length p) s = p then Some (drop (length p) s) else None)"

definition from_fields_v1_key :: "json_text \<Rightarrow> string \<Rightarrow> path_element option" where
  "from_fields_v1_key J key =
     (case strip_prefix ''f:'' key of
        Some n \<Rightarrow> Some (PField n)
      | None \<Rightarrow>
     (case strip_prefix ''k:'' key of
        Some rest \<Rightarrow> map_option PKey (Option.bind (from_str J rest) as_object)
      | None \<Rightarrow>
     (case strip_prefix ''v:'' key of
        Some rest \<Rightarrow> map_option PValue (from_str J rest)
      | None \<Rightarrow>
     (case strip_prefix ''i:'' key of
        Some rest \<Rightarrow> map_option PIndex (parse_usize rest)
      | None \<Rightarrow> None))))"

section \<open>Field sets\<close>

datatype field_set =
  FieldSet (self_owned: bool) (children: "(string \<times> (path_element \<times> field_set)) list")

definition fs_new :: field_set where
  "fs_new = FieldSet False []"

definition fs_is_empty :: "field_set \<Rightarrow> bool" where
  "fs_is_empty fs \<longleftrightarrow> \<not> self_owned fs \<and> children fs = []"

fun collect_paths :: "path_element list \<Rightarrow> field_set \<Rightarrow> path_element list list"
  and collect_children ::
    "path_element list \<Rightarrow> (string \<times> (path_element \<times> field_set)) list \<Rightarrow> path_element list list" where
  "collect_paths pre (FieldSet s cs) =
     (if s then [pre] else []) @ collect_children pre cs"
| "collect_children pre [] = []"
| "collect_children pre ((_, el, child) # cs) =
     collect_paths (pre @ [el]) child @ collect_children pre cs"

definition owned_paths :: "field_set \<Rightarrow> path_element list list" where
  "owned_paths fs = collect_paths [] fs"

fun owns :: "json_text \<Rightarrow> field_set \<Rightarrow> path_element list \<Rightarrow> bool" where
  "owns J fs [] = self_owned fs"
| "owns J fs (el # els) =
     (case map_of (children fs) (to_fields_v1_key J el) of
        None \<Rightarrow> False
      | Some (_, child) \<Rightarrow> owns J child els)"

fun fs_to_value :: "json_text \<Rightarrow> field_set \<Rightarrow> json"
  and fs_to_members ::
    "json_text \<Rightarrow> json_map \<Rightarrow> (string \<times> (path_element \<times> field_set)) list \<Rightarrow> json_map" where
  "fs_to_value J (FieldSet s cs) =
     JObject (fs_to_members J (if s then bm_insert ''.'' (JObject []) [] else []) cs)"
| "fs_to_members J obj [] = obj"
| "fs_to_members J obj ((_, el, child) # cs) =
     fs_to_members J (bm_insert (to_fields_v1_key J el) (fs_to_value J child) obj) cs"

text \<open>
  \<open>entry(el).or_default()\<close> and \<open>insert(el, _)\<close> on the children: a key already present stays
  the one that is there.
\<close>

definition child_entry :: "json_text \<Rightarrow> path_element \<Rightarrow> field_set \<Rightarrow> path_element \<times> field_set" where
  "child_entry J el fs =
     (case map_of (children fs) (to_fields_v1_key J el) of
        Some entry \<Rightarrow> entry
      | None \<Rightarrow> (el, fs_new))"

definition set_child :: "json_text \<Rightarrow> path_element \<Rightarrow> field_set \<Rightarrow> field_set \<Rightarrow> field_set" where
  "set_child J el child fs =
     FieldSet (self_owned fs)
       (bm_insert (to_fields_v1_key J el) (fst (child_entry J el fs), child) (children fs))"

definition drop_child :: "json_text \<Rightarrow> path_element \<Rightarrow> field_set \<Rightarrow> field_set" where
  "drop_child J el fs = FieldSet (self_owned fs) (bm_remove (to_fields_v1_key J el) (children fs))"

definition own_self :: "bool \<Rightarrow> field_set \<Rightarrow> field_set" where
  "own_self b fs = FieldSet b (children fs)"

fun fs_from_value :: "json_text \<Rightarrow> json \<Rightarrow> field_set"
  and fs_from_members :: "json_text \<Rightarrow> field_set \<Rightarrow> json_map \<Rightarrow> field_set" where
  "fs_from_value J (JObject m) = fs_from_members J fs_new m"
| "fs_from_value J _ = fs_new"
| "fs_from_members J fs [] = fs"
| "fs_from_members J fs ((k, child) # m) =
     (if k = ''.'' then fs_from_members J (own_self True fs) m
      else case from_fields_v1_key J k of
             Some el \<Rightarrow> fs_from_members J (set_child J el (fs_from_value J child) fs) m
           | None \<Rightarrow> fs_from_members J fs m)"

section \<open>The fieldset of an applied configuration\<close>

definition apiserver_owned_metadata :: "string list" where
  "apiserver_owned_metadata =
     [''managedFields'', ''resourceVersion'', ''uid'', ''generation'', ''creationTimestamp'',
      ''deletionTimestamp'']"

definition own_value :: "json_text \<Rightarrow> json \<Rightarrow> field_set \<Rightarrow> field_set" where
  "own_value J v fs = set_child J (PValue v) (own_self True (snd (child_entry J (PValue v) fs))) fs"

definition key_tuple_of :: "string list \<Rightarrow> json_map \<Rightarrow> json_map" where
  "key_tuple_of keys obj =
     fold (\<lambda>k tuple. case map_of obj k of Some v \<Rightarrow> bm_insert k v tuple | None \<Rightarrow> tuple) keys []"

function (sequential) build_fieldset ::
      "json_text \<Rightarrow> patch_schema_env \<Rightarrow> gvk \<Rightarrow> json_path \<Rightarrow> json \<Rightarrow> field_set \<Rightarrow> field_set"
  and build_members ::
      "json_text \<Rightarrow> patch_schema_env \<Rightarrow> gvk \<Rightarrow> json_path \<Rightarrow> json_map \<Rightarrow> field_set \<Rightarrow> field_set"
  and build_metadata_fieldset ::
      "json_text \<Rightarrow> patch_schema_env \<Rightarrow> gvk \<Rightarrow> json_path \<Rightarrow> json_map \<Rightarrow> field_set \<Rightarrow> field_set"
  and build_list_elements ::
      "json_text \<Rightarrow> patch_schema_env \<Rightarrow> gvk \<Rightarrow> json_path \<Rightarrow> string list \<Rightarrow> json list \<Rightarrow> field_set
        \<Rightarrow> field_set" where
  "build_fieldset J env g path (JObject m) out =
     (if m = [] then own_self True out else build_members J env g path m out)"
| "build_fieldset J env g path (JArray arr) out =
     (case env g path of
        LReplace \<Rightarrow> own_self True out
      | LSet \<Rightarrow> fold (own_value J) arr out
      | MergeByKey keys \<Rightarrow> build_list_elements J env g path keys arr out
      | MergeByKeyRetainKeys keys \<Rightarrow> build_list_elements J env g path keys arr out)"
| "build_fieldset J env g path node out = own_self True out"
| "build_members J env g path [] out = out"
| "build_members J env g path ((k, v) # m) out =
     (let child = snd (child_entry J (PField k) out)
      in if path = [] \<and> k = ''metadata''
         then (let child' = (case v of
                               JObject mm \<Rightarrow> build_metadata_fieldset J env g (jp_child path k) mm child
                             | _ \<Rightarrow> child)
               in build_members J env g path m
                    (if fs_is_empty child' then drop_child J (PField k) out
                     else set_child J (PField k) child' out))
         else build_members J env g path m
                (set_child J (PField k) (build_fieldset J env g (jp_child path k) v child) out))"
| "build_metadata_fieldset J env g path [] out = out"
| "build_metadata_fieldset J env g path ((k, v) # m) out =
     (if k \<in> set apiserver_owned_metadata then build_metadata_fieldset J env g path m out
      else build_metadata_fieldset J env g path m
             (set_child J (PField k)
               (build_fieldset J env g (jp_child path k) v (snd (child_entry J (PField k) out))) out))"
| "build_list_elements J env g path keys [] out = out"
| "build_list_elements J env g path keys (el # arr) out =
     (case el of
        JObject obj \<Rightarrow>
          (let pe = PKey (key_tuple_of keys obj)
           in build_list_elements J env g path keys arr
                (set_child J pe (build_fieldset J env g path el (snd (child_entry J pe out))) out))
      | _ \<Rightarrow> build_list_elements J env g path keys arr (own_value J el out))"
  by pat_completeness auto
termination
  by (relation "measure (\<lambda>x. case x of
        Inl (Inl (J, env, g, path, node, out)) \<Rightarrow> size node
      | Inl (Inr (J, env, g, path, m, out)) \<Rightarrow> size_list (size_prod (\<lambda>_. 0) size) m
      | Inr (Inl (J, env, g, path, m, out)) \<Rightarrow> size_list (size_prod (\<lambda>_. 0) size) m
      | Inr (Inr (J, env, g, path, keys, arr, out)) \<Rightarrow> size_list size arr)") auto

definition fieldset_of :: "json_text \<Rightarrow> json \<Rightarrow> gvk \<Rightarrow> patch_schema_env \<Rightarrow> field_set" where
  "fieldset_of J config g env = build_fieldset J env g jp_root config fs_new"

section \<open>Navigation by path elements\<close>

definition has_keys :: "json_map \<Rightarrow> json \<Rightarrow> bool" where
  "has_keys keys e \<longleftrightarrow> (\<forall>(k, v) \<in> set keys. jget e k = Some v)"

definition step :: "json \<Rightarrow> path_element \<Rightarrow> json option" where
  "step node el =
     (case el of
        PField n \<Rightarrow> jget node n
      | PIndex i \<Rightarrow> Option.bind (as_array node) (\<lambda>a. if i < length a then Some (a ! i) else None)
      | PValue v \<Rightarrow> Option.bind (as_array node) (find (\<lambda>e. e = v))
      | PKey keys \<Rightarrow> Option.bind (as_array node) (find (has_keys keys)))"

fun value_at :: "json \<Rightarrow> path_element list \<Rightarrow> json option" where
  "value_at cur [] = Some cur"
| "value_at cur (el # path) =
     (case step cur el of None \<Rightarrow> None | Some v \<Rightarrow> value_at v path)"

definition list_element_index :: "json \<Rightarrow> path_element \<Rightarrow> nat option" where
  "list_element_index node hd_el =
     Option.bind (as_array node) (\<lambda>arr.
       (case hd_el of
          PIndex i \<Rightarrow> (if i < length arr then Some i else None)
        | PValue v \<Rightarrow> position (\<lambda>e. e = v) arr
        | PKey keys \<Rightarrow> position (has_keys keys) arr
        | PField _ \<Rightarrow> None))"

definition is_empty_container :: "json \<Rightarrow> bool" where
  "is_empty_container v = (case v of JObject m \<Rightarrow> m = [] | JArray a \<Rightarrow> a = [] | _ \<Rightarrow> False)"

definition remove_leaf :: "path_element \<Rightarrow> json \<Rightarrow> json" where
  "remove_leaf el node =
     (case (el, node) of
        (PField n, JObject m) \<Rightarrow> JObject (bm_remove n m)
      | (PIndex i, JArray a) \<Rightarrow>
          (if i < length a then JArray (take i a @ drop (Suc i) a) else node)
      | (PValue v, JArray a) \<Rightarrow> JArray (filter (\<lambda>e. e \<noteq> v) a)
      | (PKey keys, JArray a) \<Rightarrow> JArray (filter (\<lambda>e. \<not> has_keys keys e) a)
      | _ \<Rightarrow> node)"

text \<open>The node after the removal, and whether it became an empty container.\<close>

fun remove_rec :: "json \<Rightarrow> path_element list \<Rightarrow> json \<times> bool" where
  "remove_rec node [] = (node, False)"
| "remove_rec node [el] = (let node' = remove_leaf el node in (node', is_empty_container node'))"
| "remove_rec node (el # tail) =
     (case el of
        PField n \<Rightarrow>
          (case node of
             JObject m \<Rightarrow>
               (case map_of m n of
                  None \<Rightarrow> (node, False)
                | Some child \<Rightarrow>
                    (let node' = JObject (bm_insert n (fst (remove_rec child tail)) m)
                     in (node', is_empty_container node')))
           | _ \<Rightarrow> (node, False))
      | _ \<Rightarrow>
          (case (list_element_index node el, node) of
             (Some idx, JArray arr) \<Rightarrow>
               (let (child, emptied) = remove_rec (arr ! idx) tail;
                    node' = JArray (if emptied then take idx arr @ drop (Suc idx) arr
                                    else arr[idx := child])
                in (node', is_empty_container node'))
           | _ \<Rightarrow> (node, False)))"

definition remove_at :: "json \<Rightarrow> path_element list \<Rightarrow> json" where
  "remove_at root path = fst (remove_rec root path)"

fun render_element :: "json_text \<Rightarrow> path_element \<Rightarrow> string" where
  "render_element J (PField n) = ''.'' @ n"
| "render_element J (PIndex i) = ''['' @ show_nat i @ '']''"
| "render_element J (PValue v) = ''['' @ to_string J v @ '']''"
| "render_element J (PKey keys) =
     ''['' @ join_with '','' (map (\<lambda>(k, v). k @ ''='' @ to_string J v) keys) @ '']''"

definition render_field_path :: "json_text \<Rightarrow> path_element list \<Rightarrow> string" where
  "render_field_path J path =
     (let out = concat (map (render_element J) path) in if out = [] then ''.'' else out)"

section \<open>The managed-fields ledger\<close>

datatype managed_op = MApply | MUpdate

record decoded_entry =
  de_manager :: string
  de_operation :: managed_op
  de_fields :: field_set
  de_raw :: json

definition decode_entry :: "json_text \<Rightarrow> json \<Rightarrow> decoded_entry option" where
  "decode_entry J e =
     (case Option.bind (jget e ''manager'') as_str of
        None \<Rightarrow> None
      | Some manager \<Rightarrow>
          Some \<lparr>de_manager = manager,
                de_operation =
                  (if Option.bind (jget e ''operation'') as_str = Some ''Update'' then MUpdate
                   else MApply),
                de_fields =
                  (case jget e ''fieldsV1'' of Some f \<Rightarrow> fs_from_value J f | None \<Rightarrow> fs_new),
                de_raw = e\<rparr>)"

definition read_managed_fields :: "json_text \<Rightarrow> json \<Rightarrow> decoded_entry list" where
  "read_managed_fields J current =
     (case Option.bind (member2 ''metadata'' ''managedFields'' current) as_array of
        None \<Rightarrow> []
      | Some arr \<Rightarrow> List.map_filter (decode_entry J) arr)"

definition make_entry :: "json_text \<Rightarrow> string \<Rightarrow> field_set \<Rightarrow> gvk \<Rightarrow> string \<Rightarrow> json" where
  "make_entry J manager owned g time =
     (let api_version = (if gvk_group g = [] then gvk_version g
                         else gvk_group g @ ''/'' @ gvk_version g)
      in json_object
           [(''manager'', JString manager),
            (''operation'', JString ''Apply''),
            (''apiVersion'', JString api_version),
            (''time'', JString time),
            (''fieldsType'', JString ''FieldsV1''),
            (''fieldsV1'', fs_to_value J owned)])"

fun remove_owned_path :: "json_text \<Rightarrow> field_set \<Rightarrow> path_element list \<Rightarrow> field_set" where
  "remove_owned_path J fs [] = own_self False fs"
| "remove_owned_path J fs (el # tail) =
     (case map_of (children fs) (to_fields_v1_key J el) of
        None \<Rightarrow> fs
      | Some (_, child) \<Rightarrow>
          (let child' = remove_owned_path J child tail
           in if fs_is_empty child' then drop_child J el fs else set_child J el child' fs))"

definition fs_subtract :: "json_text \<Rightarrow> field_set \<Rightarrow> field_set \<Rightarrow> field_set" where
  "fs_subtract J fs removed = fold (\<lambda>path fs. remove_owned_path J fs path) (owned_paths removed) fs"

text \<open>One entry of the ledger after an apply by \<open>manager\<close>; \<open>None\<close> when it is dropped.\<close>

definition update_entry ::
  "json_text \<Rightarrow> string \<Rightarrow> field_set \<Rightarrow> bool \<Rightarrow> gvk \<Rightarrow> string \<Rightarrow> decoded_entry \<Rightarrow> json option" where
  "update_entry J manager applied force g time entry =
     (if de_manager entry = manager \<and> de_operation entry = MApply
      then Some (make_entry J manager applied g time)
      else if force \<and> de_operation entry = MApply
      then (let remaining = fs_subtract J (de_fields entry) applied
            in if fs_is_empty remaining then None
               else Some (case de_raw entry of
                            JObject m \<Rightarrow> JObject (bm_insert ''fieldsV1'' (fs_to_value J remaining) m)
                          | raw \<Rightarrow> raw))
      else Some (de_raw entry))"

definition update_ownership ::
  "json_text \<Rightarrow> decoded_entry list \<Rightarrow> string \<Rightarrow> field_set \<Rightarrow> bool \<Rightarrow> gvk \<Rightarrow> string \<Rightarrow> json list" where
  "update_ownership J entries manager applied force g time =
     (let out = List.map_filter (update_entry J manager applied force g time) entries;
          saw_manager = (\<exists>e \<in> set entries. de_manager e = manager \<and> de_operation e = MApply)
      in if saw_manager then out else out @ [make_entry J manager applied g time])"

definition set_managed_fields :: "json \<Rightarrow> json \<Rightarrow> json" where
  "set_managed_fields managed_fields obj =
     (case obj of
        JObject m \<Rightarrow>
          (case map_of m ''metadata'' of
             None \<Rightarrow>
               JObject (bm_insert ''metadata'' (JObject (bm_insert ''managedFields'' managed_fields [])) m)
           | Some (JObject mm) \<Rightarrow>
               JObject (bm_insert ''metadata'' (JObject (bm_insert ''managedFields'' managed_fields mm)) m)
           | Some _ \<Rightarrow> obj)
      | _ \<Rightarrow> obj)"

section \<open>The interpreter\<close>

record conflict =
  cf_manager :: string
  cf_field :: string

definition to_causes :: "conflict list \<Rightarrow> json" where
  "to_causes conflicts =
     JArray (map (\<lambda>c. json_object
               [(''type'', JString ''FieldManagerConflict''),
                (''message'', JString (''conflict with '' @ [CHR 0x22] @ cf_manager c @ [CHR 0x22])),
                (''field'', JString (cf_field c))]) conflicts)"

datatype ssa_outcome =
    SsaCreated (merged: json) (managed_fields: json)
  | SsaUpdated (merged: json) (managed_fields: json)

definition collect_conflicts ::
  "json_text \<Rightarrow> json \<Rightarrow> json \<Rightarrow> string \<Rightarrow> decoded_entry list \<Rightarrow> field_set \<Rightarrow> conflict list" where
  "collect_conflicts J current config manager entries applied =
     concat (map (\<lambda>path. List.map_filter (\<lambda>e.
         if de_manager e \<noteq> manager \<and> de_operation e = MApply \<and> owns J (de_fields e) path \<and>
            value_at config path \<noteq> value_at current path
         then Some \<lparr>cf_manager = de_manager e, cf_field = render_field_path J path\<rparr>
         else None) entries)
       (owned_paths applied))"

definition prior_self_fields :: "string \<Rightarrow> decoded_entry list \<Rightarrow> field_set" where
  "prior_self_fields manager entries =
     (case find (\<lambda>e. de_manager e = manager \<and> de_operation e = MApply) entries of
        Some e \<Rightarrow> de_fields e
      | None \<Rightarrow> fs_new)"

definition owned_by_other ::
  "json_text \<Rightarrow> string \<Rightarrow> decoded_entry list \<Rightarrow> path_element list \<Rightarrow> bool" where
  "owned_by_other J manager entries path \<longleftrightarrow>
     (\<exists>e \<in> set entries. de_manager e \<noteq> manager \<and> de_operation e = MApply \<and> owns J (de_fields e) path)"

definition remove_unapplied ::
  "json_text \<Rightarrow> string \<Rightarrow> decoded_entry list \<Rightarrow> field_set \<Rightarrow> json \<Rightarrow> json" where
  "remove_unapplied J manager entries applied doc =
     fold (\<lambda>path doc. if owns J applied path \<or> owned_by_other J manager entries path then doc
                      else remove_at doc path)
       (owned_paths (prior_self_fields manager entries)) doc"

definition apply_ssa ::
  "json_text \<Rightarrow> json option \<Rightarrow> json \<Rightarrow> string \<Rightarrow> bool \<Rightarrow> gvk \<Rightarrow> patch_schema_env \<Rightarrow> string
    \<Rightarrow> (conflict list, ssa_outcome) result" where
  "apply_ssa J cur config manager force g env time =
     (let applied = fieldset_of J config g env
      in case cur of
           None \<Rightarrow>
             (let mf = JArray [make_entry J manager applied g time]
              in Inr (SsaCreated (set_managed_fields mf config) mf))
         | Some current \<Rightarrow>
             (let entries = read_managed_fields J current;
                  conflicts = collect_conflicts J current config manager entries applied
              in if conflicts \<noteq> [] \<and> \<not> force
                 then Inl (remdups_adj (sort_key (\<lambda>c. (cf_field c, cf_manager c)) conflicts))
                 else (let doc = (case strategic_merge env g jp_root current config of
                                    Inr m \<Rightarrow> m
                                  | Inl _ \<Rightarrow> current);
                           doc' = remove_unapplied J manager entries applied doc;
                           mf = JArray (update_ownership J entries manager applied force g time)
                       in Inr (SsaUpdated (set_managed_fields mf doc') mf))))"

section \<open>Well-formed field sets\<close>

text \<open>Children in key order, each under the key of its own path element.\<close>

fun fs_ok :: "json_text \<Rightarrow> field_set \<Rightarrow> bool" where
  "fs_ok J (FieldSet s cs) \<longleftrightarrow>
     bm_ok cs \<and> (\<forall>(k, el, c) \<in> set cs. k = to_fields_v1_key J el \<and> fs_ok J c)"

abbreviation path_key :: "json_text \<Rightarrow> path_element list \<Rightarrow> string list" where
  "path_key J p \<equiv> map (to_fields_v1_key J) p"

lemma fs_ok_new [simp]: "fs_ok J fs_new"
  by (simp add: fs_new_def)

lemma fs_ok_children: "fs_ok J fs \<Longrightarrow> bm_ok (children fs)"
  by (cases fs) simp

lemma fs_ok_child:
  "fs_ok J fs \<Longrightarrow> map_of (children fs) k = Some (el, c) \<Longrightarrow> k = to_fields_v1_key J el \<and> fs_ok J c"
  by (cases fs) (fastforce dest: map_of_SomeD)

lemma child_simps [simp]:
  "self_owned (set_child J el c fs) = self_owned fs"
  "children (set_child J el c fs) =
    bm_insert (to_fields_v1_key J el) (fst (child_entry J el fs), c) (children fs)"
  "self_owned (drop_child J el fs) = self_owned fs"
  "children (drop_child J el fs) = bm_remove (to_fields_v1_key J el) (children fs)"
  by (simp_all add: set_child_def drop_child_def)

lemma own_self_simps [simp]:
  "self_owned (own_self b fs) = b" "children (own_self b fs) = children fs"
  "fs_ok J (own_self b fs) = fs_ok J fs"
  by (cases fs; simp add: own_self_def)+

lemma child_entry_key: "fs_ok J fs \<Longrightarrow> to_fields_v1_key J (fst (child_entry J el fs)) = to_fields_v1_key J el"
  using fs_ok_child [of J fs "to_fields_v1_key J el"]
  by (auto simp: child_entry_def split: option.splits)

lemma fs_ok_child_entry [simp]: "fs_ok J fs \<Longrightarrow> fs_ok J (snd (child_entry J el fs))"
  using fs_ok_child [of J fs "to_fields_v1_key J el"]
  by (auto simp: child_entry_def split: option.splits)

lemma set_bm_insert_cases: "x \<in> set (bm_insert k v m) \<Longrightarrow> x = (k, v) \<or> x \<in> set m"
  by (induction m) (auto split: if_splits)

lemma fs_ok_set_child [simp]: "fs_ok J fs \<Longrightarrow> fs_ok J c \<Longrightarrow> fs_ok J (set_child J el c fs)"
  using child_entry_key [of J fs el]
  by (cases fs) (auto simp: set_child_def dest!: set_bm_insert_cases)

lemma fs_ok_drop_child [simp]: "fs_ok J fs \<Longrightarrow> fs_ok J (drop_child J el fs)"
  by (cases fs) (auto simp: drop_child_def bm_remove_def)

lemma fs_ok_own_value [simp]: "fs_ok J fs \<Longrightarrow> fs_ok J (own_value J v fs)"
  by (simp add: own_value_def)

lemma fs_ok_fold_own_value: "fs_ok J fs \<Longrightarrow> fs_ok J (fold (own_value J) vs fs)"
  by (induction vs arbitrary: fs) simp_all

lemma fs_ok_build:
    "fs_ok J out \<Longrightarrow> fs_ok J (build_fieldset J env g path node out)"
  and "fs_ok J out \<Longrightarrow> fs_ok J (build_members J env g path m out)"
  and "fs_ok J out \<Longrightarrow> fs_ok J (build_metadata_fieldset J env g path m out)"
  and "fs_ok J out \<Longrightarrow> fs_ok J (build_list_elements J env g path keys arr out)"
  by (induction J env g path node out and J env g path m out and J env g path m out
      and J env g path keys arr out
      rule: build_fieldset_build_members_build_metadata_fieldset_build_list_elements.induct)
    (auto simp: Let_def fs_ok_fold_own_value split: list_merge_strategy.splits json.splits)

lemma fs_ok_fieldset_of [simp]: "fs_ok J (fieldset_of J config g env)"
  by (simp add: fieldset_of_def fs_ok_build)

lemma fs_ok_from_value:
    "fs_ok J (fs_from_value J v)"
  and "fs_ok J fs \<Longrightarrow> fs_ok J (fs_from_members J fs m)"
  by (induction J v and J fs m rule: fs_from_value_fs_from_members.induct)
    (auto split: option.splits)

section \<open>Ownership as a set of paths\<close>

lemma not_owns_empty: "fs_is_empty fs \<Longrightarrow> \<not> owns J fs p"
  by (cases p) (simp_all add: fs_is_empty_def)

lemma owns_remove_owned_path:
  "owns J (remove_owned_path J fs p) q \<longleftrightarrow> owns J fs q \<and> path_key J q \<noteq> path_key J p"
proof (induction p arbitrary: fs q)
  case Nil
  then show ?case by (cases q) simp_all
next
  case (Cons el tail)
  show ?case
  proof (cases "map_of (children fs) (to_fields_v1_key J el)")
    case None
    then show ?thesis by (cases q) auto
  next
    case (Some ec)
    obtain e c where ec: "ec = (e, c)" by (cases ec)
    let ?c' = "remove_owned_path J c tail"
    have "fs_is_empty ?c' \<Longrightarrow> owns J c es \<Longrightarrow> path_key J es = path_key J tail" for es
      using Cons.IH [of c es] not_owns_empty [of ?c' J es] by blast
    with Some ec Cons.IH [of c] show ?thesis
      by (cases q) (auto simp: Let_def split: if_splits)
  qed
qed

lemma owns_fold_remove:
  "owns J (fold (\<lambda>path fs. remove_owned_path J fs path) ps fs) q \<longleftrightarrow>
    owns J fs q \<and> path_key J q \<notin> path_key J ` set ps"
  by (induction ps arbitrary: fs) (auto simp: owns_remove_owned_path)

lemma collect_paths_prefix: "collect_paths pre fs = map ((@) pre) (collect_paths [] fs)"
proof (induction fs arbitrary: pre)
  case (FieldSet s cs)
  have "collect_children pre cs = map ((@) pre) (collect_children [] cs)" for pre
    using FieldSet
  proof (induction cs)
    case (Cons x cs)
    obtain k el c where x: "x = (k, el, c)" by (cases x)
    have c: "collect_paths q c = map ((@) q) (collect_paths [] c)" for q
      using Cons.prems [of x "(el, c)" c q] x by simp
    have "collect_children pre cs = map ((@) pre) (collect_children [] cs)"
      using Cons.IH Cons.prems by (meson list.set_intros(2))
    with c [of "pre @ [el]"] c [of "[el]"] show ?case by (simp add: x comp_def)
  qed simp
  from this [of pre] show ?case by simp
qed

lemma mem_collect_children:
  "p \<in> set (collect_children [] cs) \<longleftrightarrow>
    (\<exists>k el c q. (k, el, c) \<in> set cs \<and> p = el # q \<and> q \<in> set (owned_paths c))"
proof (induction cs)
  case (Cons x cs)
  then show ?case
    by (cases x) (auto simp: collect_paths_prefix [of "[_]"] owned_paths_def)
qed simp

lemma owned_paths_Nil: "[] \<in> set (owned_paths fs) \<longleftrightarrow> self_owned fs"
  by (cases fs) (auto simp: owned_paths_def mem_collect_children)

lemma owned_paths_Cons:
  "el # q \<in> set (owned_paths fs) \<longleftrightarrow>
    (\<exists>k c. (k, el, c) \<in> set (children fs) \<and> q \<in> set (owned_paths c))"
  by (cases fs) (auto simp: owned_paths_def [of "FieldSet _ _"] mem_collect_children)

lemma owns_iff_owned_path:
  "fs_ok J fs \<Longrightarrow> owns J fs p \<longleftrightarrow> (\<exists>q \<in> set (owned_paths fs). path_key J q = path_key J p)"
proof (induction p arbitrary: fs)
  case Nil
  then show ?case by (simp add: owned_paths_Nil)
next
  case (Cons el p)
  let ?k = "to_fields_v1_key J el"
  have entry: "(k, e, c) \<in> set (children fs) \<longleftrightarrow> map_of (children fs) k = Some (e, c)" for k e c
    by (rule bm_get_mem [OF fs_ok_children [OF Cons.prems]])
  have "(\<exists>q \<in> set (owned_paths fs). path_key J q = path_key J (el # p)) \<longleftrightarrow>
      (\<exists>e c q. map_of (children fs) ?k = Some (e, c) \<and> q \<in> set (owned_paths c) \<and>
        path_key J q = path_key J p)"
  proof
    assume "\<exists>q \<in> set (owned_paths fs). path_key J q = path_key J (el # p)"
    then obtain e q where q: "e # q \<in> set (owned_paths fs)" "to_fields_v1_key J e = ?k"
      "path_key J q = path_key J p" by (auto simp: map_eq_Cons_conv)
    then obtain k c where "map_of (children fs) k = Some (e, c)" "q \<in> set (owned_paths c)"
      by (auto simp: owned_paths_Cons entry)
    with q fs_ok_child [OF Cons.prems] show "\<exists>e c q. map_of (children fs) ?k = Some (e, c) \<and>
        q \<in> set (owned_paths c) \<and> path_key J q = path_key J p" by metis
  next
    assume "\<exists>e c q. map_of (children fs) ?k = Some (e, c) \<and> q \<in> set (owned_paths c) \<and>
        path_key J q = path_key J p"
    then obtain e c q where c: "map_of (children fs) ?k = Some (e, c)" "q \<in> set (owned_paths c)"
        "path_key J q = path_key J p" by blast
    then have "e # q \<in> set (owned_paths fs)" "to_fields_v1_key J e = ?k"
      using fs_ok_child [OF Cons.prems c(1)] by (auto simp: owned_paths_Cons entry)
    with c(3) show "\<exists>q \<in> set (owned_paths fs). path_key J q = path_key J (el # p)" by force
  qed
  moreover have "fs_ok J c \<Longrightarrow> owns J c p \<longleftrightarrow> (\<exists>q \<in> set (owned_paths c). path_key J q = path_key J p)"
    for c by (rule Cons.IH)
  ultimately show ?case
    using fs_ok_child [OF Cons.prems, of ?k] by (cases "map_of (children fs) ?k") auto
qed

lemma owns_subtract:
  "fs_ok J removed \<Longrightarrow> owns J (fs_subtract J fs removed) q \<longleftrightarrow> owns J fs q \<and> \<not> owns J removed q"
  unfolding fs_subtract_def owns_fold_remove
  using owns_iff_owned_path [of J removed q] by (metis image_iff)
section \<open>The wire form of a field set\<close>

text \<open>
  What the wire form relies on from \<open>serde_json\<close>: the values inside a path element survive
  being printed and parsed.
\<close>

fun codable :: "json_text \<Rightarrow> path_element \<Rightarrow> bool" where
  "codable J (PField n) \<longleftrightarrow> True"
| "codable J (PKey keys) \<longleftrightarrow> from_str J (to_string J (JObject keys)) = Some (JObject keys)"
| "codable J (PValue v) \<longleftrightarrow> from_str J (to_string J v) = Some v"
| "codable J (PIndex i) \<longleftrightarrow> i < 2 ^ 64"

fun fs_codable :: "json_text \<Rightarrow> field_set \<Rightarrow> bool" where
  "fs_codable J (FieldSet s cs) \<longleftrightarrow> (\<forall>(k, el, c) \<in> set cs. codable J el \<and> fs_codable J c)"

lemma from_to_fields_v1_key: "codable J el \<Longrightarrow> from_fields_v1_key J (to_fields_v1_key J el) = Some el"
  by (cases el) (auto simp: from_fields_v1_key_def to_fields_v1_key_def strip_prefix_def
      parse_usize_show_nat)

lemma dot_less_fields_v1_key: "''.'' < to_fields_v1_key J el"
  by (cases el) (auto simp: to_fields_v1_key_def less_char_def)

lemma bm_insert_last: "\<forall>k' \<in> fst ` set m. k' < k \<Longrightarrow> bm_insert k v m = m @ [(k, v)]"
  by (induction m) auto

definition wire_members ::
  "json_text \<Rightarrow> (string \<times> (path_element \<times> field_set)) list \<Rightarrow> json_map" where
  "wire_members J cs = map (\<lambda>(k, el, c). (k, fs_to_value J c)) cs"

lemma fs_to_members_wire:
  "bm_ok cs \<Longrightarrow> \<forall>(k, el, c) \<in> set cs. k = to_fields_v1_key J el \<Longrightarrow>
    \<forall>k \<in> fst ` set obj. \<forall>k' \<in> fst ` set cs. k < k' \<Longrightarrow>
    fs_to_members J obj cs = obj @ wire_members J cs"
proof (induction cs arbitrary: obj)
  case (Cons x cs)
  obtain k el c where x: "x = (k, el, c)" by (cases x)
  have k: "to_fields_v1_key J el = k" using Cons.prems x by auto
  have "bm_insert k (fs_to_value J c) obj = obj @ [(k, fs_to_value J c)]"
    using Cons.prems(3) x by (intro bm_insert_last) auto
  moreover have "fs_to_members J (obj @ [(k, fs_to_value J c)]) cs =
      (obj @ [(k, fs_to_value J c)]) @ wire_members J cs"
    using Cons.prems x by (intro Cons.IH) (auto simp: bm_ok_Cons)
  ultimately show ?case by (simp add: x k wire_members_def)
qed (simp add: wire_members_def)

lemma fs_to_value_wire:
  assumes "fs_ok J (FieldSet s cs)"
  shows "fs_to_value J (FieldSet s cs) =
    JObject ((if s then [(''.'', JObject [])] else []) @ wire_members J cs)"
proof -
  have "\<forall>k' \<in> fst ` set cs. ''.'' < k'"
    using assms dot_less_fields_v1_key [of J] by auto
  moreover have "bm_ok cs" "\<forall>(k, el, c) \<in> set cs. k = to_fields_v1_key J el"
    using assms by auto
  ultimately show ?thesis
    using fs_to_members_wire [of cs J "[(''.'', JObject [])]"] fs_to_members_wire [of cs J "[]"]
    by simp
qed

lemma set_child_last:
  "\<forall>k \<in> fst ` set cs. k < to_fields_v1_key J el \<Longrightarrow>
    set_child J el c (FieldSet s cs) = FieldSet s (cs @ [(to_fields_v1_key J el, el, c)])"
proof -
  assume less: "\<forall>k \<in> fst ` set cs. k < to_fields_v1_key J el"
  then have "map_of cs (to_fields_v1_key J el) = None"
    by (force simp: map_of_eq_None_iff)
  with less show ?thesis by (simp add: set_child_def child_entry_def bm_insert_last)
qed

lemma fs_from_members_wire:
  "bm_ok cs \<Longrightarrow>
    \<forall>(k, el, c) \<in> set cs. k = to_fields_v1_key J el \<and> codable J el \<and>
      fs_from_value J (fs_to_value J c) = c \<Longrightarrow>
    \<forall>k \<in> fst ` set acc. \<forall>k' \<in> fst ` set cs. k < k' \<Longrightarrow>
    fs_from_members J (FieldSet s acc) (wire_members J cs) = FieldSet s (acc @ cs)"
proof (induction cs arbitrary: acc)
  case (Cons x cs)
  obtain k el c where x: "x = (k, el, c)" by (cases x)
  have k: "to_fields_v1_key J el = k" "from_fields_v1_key J k = Some el" "k \<noteq> ''.''"
    "fs_from_value J (fs_to_value J c) = c"
    using Cons.prems(2) x from_to_fields_v1_key [of J el] dot_less_fields_v1_key [of J el] by auto
  have "set_child J el c (FieldSet s acc) = FieldSet s (acc @ [(k, el, c)])"
    using set_child_last [of acc J el c s] Cons.prems(3) x k(1) by auto
  moreover have "fs_from_members J (FieldSet s (acc @ [(k, el, c)])) (wire_members J cs) =
      FieldSet s ((acc @ [(k, el, c)]) @ cs)"
    using Cons.prems x by (intro Cons.IH) (auto simp: bm_ok_Cons)
  ultimately show ?case by (simp add: x k wire_members_def)
qed (simp add: wire_members_def)

lemma fs_wire_roundtrip:
  "fs_ok J fs \<Longrightarrow> fs_codable J fs \<Longrightarrow> fs_from_value J (fs_to_value J fs) = fs"
proof (induction fs)
  case (FieldSet s cs)
  have "\<forall>(k, el, c) \<in> set cs. k = to_fields_v1_key J el \<and> codable J el \<and>
      fs_from_value J (fs_to_value J c) = c"
  proof clarify
    fix k el c assume mem: "(k, el, c) \<in> set cs"
    then have "k = to_fields_v1_key J el" "codable J el" "fs_ok J c" "fs_codable J c"
      using FieldSet.prems by auto
    with mem FieldSet.IH [of "(k, el, c)" "(el, c)" c]
    show "k = to_fields_v1_key J el \<and> codable J el \<and> fs_from_value J (fs_to_value J c) = c" by auto
  qed
  with fs_from_members_wire [of cs J "[]" s] FieldSet.prems(1)
  have "fs_from_members J (FieldSet s []) (wire_members J cs) = FieldSet s cs" by simp
  then show ?case
    unfolding fs_to_value_wire [OF FieldSet.prems(1)]
    by (cases s) (simp_all add: fs_new_def own_self_def)
qed

section \<open>The ledger after an apply\<close>

text \<open>A document the ledger can be written to: an object whose metadata, if any, is one too.\<close>

definition stampable :: "json \<Rightarrow> bool" where
  "stampable v \<longleftrightarrow>
     (case v of
        JObject m \<Rightarrow> (case map_of m ''metadata'' of None \<Rightarrow> True | Some w \<Rightarrow> is_object w)
      | _ \<Rightarrow> False)"

lemma set_map_filter: "set (List.map_filter f xs) = {y. \<exists>x \<in> set xs. f x = Some y}"
  by (induction xs) (auto split: option.splits)

lemma managed_fields_of_set:
  "stampable doc \<Longrightarrow> member2 ''metadata'' ''managedFields'' (set_managed_fields mf doc) = Some mf"
  by (cases doc) (auto simp: stampable_def set_managed_fields_def member2_def is_object_iff
      split: option.splits json.splits)

lemma stampable_set_managed_fields: "stampable (set_managed_fields mf doc) = stampable doc"
  by (cases doc) (auto simp: stampable_def set_managed_fields_def
      split: option.splits json.splits)

lemma read_set_managed_fields:
  "stampable doc \<Longrightarrow>
    read_managed_fields J (set_managed_fields (JArray es) doc) = List.map_filter (decode_entry J) es"
  by (simp add: read_managed_fields_def managed_fields_of_set)

lemma decode_make_entry:
  assumes "fs_ok J fs" and "fs_codable J fs"
  shows "decode_entry J (make_entry J manager fs g time) =
    Some \<lparr>de_manager = manager, de_operation = MApply, de_fields = fs,
          de_raw = make_entry J manager fs g time\<rparr>"
  using fs_wire_roundtrip [OF assms]
  by (simp add: decode_entry_def make_entry_def json_object_def Let_def)

lemma decode_entry_raw: "decode_entry J r = Some e \<Longrightarrow> de_raw e = r \<and> decode_entry J (de_raw e) = Some e"
  by (auto simp: decode_entry_def split: option.splits)

lemma read_managed_fields_raw:
  "e \<in> set (read_managed_fields J cur) \<Longrightarrow> decode_entry J (de_raw e) = Some e"
  by (auto simp: read_managed_fields_def set_map_filter decode_entry_raw split: option.splits)

lemma decode_entry_fields:
  assumes "decode_entry J (JObject m) = Some e"
  shows "decode_entry J (JObject (bm_insert ''fieldsV1'' f m)) =
    Some (e\<lparr>de_fields := fs_from_value J f, de_raw := JObject (bm_insert ''fieldsV1'' f m)\<rparr>)"
  using assms by (auto simp: decode_entry_def split: option.splits)

lemma decode_entry_object: "decode_entry J r = Some e \<Longrightarrow> is_object r"
  by (cases r) (auto simp: decode_entry_def)

lemma fs_codable_child:
  "fs_codable J fs \<Longrightarrow> map_of (children fs) k = Some (el, c) \<Longrightarrow> codable J el \<and> fs_codable J c"
  by (cases fs) (auto dest: map_of_SomeD)

lemma fs_codable_simps [simp]:
  "fs_codable J (own_self b fs) = fs_codable J fs"
  "fs_codable J fs \<Longrightarrow> fs_codable J (drop_child J el fs)"
  by (cases fs; auto simp: own_self_def drop_child_def bm_remove_def)+

lemma fs_codable_set_child:
  "fs_codable J fs \<Longrightarrow> fs_codable J c \<Longrightarrow> map_of (children fs) (to_fields_v1_key J el) = Some (el', c') \<Longrightarrow>
    fs_codable J (set_child J el c fs)"
  using fs_codable_child [of J fs "to_fields_v1_key J el" el' c']
  by (cases fs) (auto simp: set_child_def child_entry_def dest!: set_bm_insert_cases)

lemma fs_codable_remove: "fs_codable J fs \<Longrightarrow> fs_codable J (remove_owned_path J fs p)"
proof (induction p arbitrary: fs)
  case (Cons el tail)
  show ?case
  proof (cases "map_of (children fs) (to_fields_v1_key J el)")
    case (Some ec)
    then obtain e c where "map_of (children fs) (to_fields_v1_key J el) = Some (e, c)"
      by (cases ec) auto
    with Cons fs_codable_child [of J fs "to_fields_v1_key J el" e c] show ?thesis
      by (simp add: Let_def fs_codable_set_child)
  qed (use Cons.prems in simp)
qed simp

lemma fs_ok_remove: "fs_ok J fs \<Longrightarrow> fs_ok J (remove_owned_path J fs p)"
proof (induction p arbitrary: fs)
  case (Cons el tail)
  show ?case
  proof (cases "map_of (children fs) (to_fields_v1_key J el)")
    case (Some ec)
    then obtain e c where "map_of (children fs) (to_fields_v1_key J el) = Some (e, c)"
      by (cases ec) auto
    with Cons fs_ok_child [of J fs "to_fields_v1_key J el" e c] show ?thesis
      by (simp add: Let_def)
  qed (use Cons.prems in simp)
qed simp

lemma fs_subtract_ok:
  "fs_ok J fs \<Longrightarrow> fs_ok J (fs_subtract J fs removed)"
  "fs_codable J fs \<Longrightarrow> fs_codable J (fs_subtract J fs removed)"
proof -
  have "fs_ok J fs \<Longrightarrow> fs_ok J (fold (\<lambda>path fs. remove_owned_path J fs path) ps fs)"
    "fs_codable J fs \<Longrightarrow> fs_codable J (fold (\<lambda>path fs. remove_owned_path J fs path) ps fs)" for ps
    by (induction ps arbitrary: fs) (simp_all add: fs_ok_remove fs_codable_remove)
  then show "fs_ok J fs \<Longrightarrow> fs_ok J (fs_subtract J fs removed)"
    "fs_codable J fs \<Longrightarrow> fs_codable J (fs_subtract J fs removed)"
    by (simp_all add: fs_subtract_def)
qed

lemma decoded_fields_ok: "decode_entry J r = Some e \<Longrightarrow> fs_ok J (de_fields e)"
  by (auto simp: decode_entry_def fs_ok_from_value split: option.splits)

text \<open>What the ledger says of one entry after an apply by \<open>manager\<close>.\<close>

definition entry_after ::
  "json_text \<Rightarrow> string \<Rightarrow> field_set \<Rightarrow> bool \<Rightarrow> decoded_entry \<Rightarrow> bool" where
  "entry_after J manager applied force e \<longleftrightarrow>
     (de_manager e = manager \<and> de_operation e = MApply \<longrightarrow> de_fields e = applied) \<and>
     (de_manager e \<noteq> manager \<and> de_operation e = MApply \<and> force \<longrightarrow>
       (\<forall>p. \<not> (owns J applied p \<and> owns J (de_fields e) p)))"

lemma update_entry_after:
  assumes "decode_entry J (de_raw e) = Some e" and "fs_ok J applied" and "fs_codable J applied"
    and "fs_codable J (de_fields e)" and "update_entry J manager applied force g time e = Some r"
    and "decode_entry J r = Some e'"
  shows "entry_after J manager applied force e'"
proof -
  consider (self) "de_manager e = manager \<and> de_operation e = MApply"
    | (forced) "\<not> (de_manager e = manager \<and> de_operation e = MApply)" "force" "de_operation e = MApply"
    | (kept) "\<not> (de_manager e = manager \<and> de_operation e = MApply)" "\<not> (force \<and> de_operation e = MApply)"
    by blast
  then show ?thesis
  proof cases
    case self
    with assms decode_make_entry [OF assms(2,3)] show ?thesis
      by (auto simp: update_entry_def entry_after_def)
  next
    case forced
    obtain m where m: "de_raw e = JObject m"
      using decode_entry_object [OF assms(1)] by (auto simp: is_object_iff)
    let ?rem = "fs_subtract J (de_fields e) applied"
    have "r = JObject (bm_insert ''fieldsV1'' (fs_to_value J ?rem) m)"
      using assms(5) forced m by (auto simp: update_entry_def Let_def split: if_splits)
    moreover have "fs_from_value J (fs_to_value J ?rem) = ?rem"
      by (intro fs_wire_roundtrip fs_subtract_ok decoded_fields_ok [OF assms(1)] assms(4))
    ultimately have "e' = e\<lparr>de_fields := ?rem, de_raw := r\<rparr>"
      using assms(1,6) m decode_entry_fields [of J m e "fs_to_value J ?rem"] by simp
    then show ?thesis
      using forced owns_subtract [OF assms(2)] by (auto simp: entry_after_def)
  next
    case kept
    then have "r = de_raw e" using assms(5) by (auto simp: update_entry_def split: if_splits)
    then have "e' = e" using assms(1,6) by simp
    then show ?thesis using kept by (auto simp: entry_after_def)
  qed
qed

lemma make_entry_in_ownership:
  "make_entry J manager applied g time \<in> set (update_ownership J entries manager applied force g time)"
  by (force simp: update_ownership_def Let_def set_map_filter update_entry_def)

lemma update_ownership_after:
  assumes "\<forall>e \<in> set entries. decode_entry J (de_raw e) = Some e \<and> fs_codable J (de_fields e)"
    and "fs_ok J applied" and "fs_codable J applied"
    and "e' \<in> set (List.map_filter (decode_entry J)
            (update_ownership J entries manager applied force g time))"
  shows "entry_after J manager applied force e'"
proof -
  obtain r where r: "r \<in> set (update_ownership J entries manager applied force g time)"
      "decode_entry J r = Some e'"
    using assms(4) by (auto simp: set_map_filter)
  then consider "r = make_entry J manager applied g time"
    | e where "e \<in> set entries" "update_entry J manager applied force g time e = Some r"
    by (auto simp: update_ownership_def Let_def set_map_filter split: if_splits)
  then show ?thesis
  proof cases
    case 1
    then show ?thesis
      using r(2) decode_make_entry [OF assms(2,3)] by (auto simp: entry_after_def)
  next
    case 2
    then show ?thesis using update_entry_after assms(1-3) r(2) by blast
  qed
qed
section \<open>An apply keeps documents well formed\<close>

lemma wf_json_object: "\<forall>(k, v) \<in> set kvs. wf_json v \<Longrightarrow> wf_json (json_object kvs)"
proof -
  have "wf_json (JObject m) \<Longrightarrow> \<forall>(k, v) \<in> set kvs. wf_json v \<Longrightarrow>
      wf_json (JObject (fold (\<lambda>(k, v). bm_insert k v) kvs m))" for m
  proof (induction kvs arbitrary: m)
    case (Cons kv kvs)
    then show ?case
      by (cases kv) (simp del: wf_json.simps(2))
  qed simp
  from this [of "[]"] show "\<forall>(k, v) \<in> set kvs. wf_json v \<Longrightarrow> wf_json (json_object kvs)"
    unfolding json_object_def by simp
qed

lemma wf_fs_to_value:
    "wf_json (fs_to_value J fs)"
  and "wf_json (JObject obj) \<Longrightarrow> wf_json (JObject (fs_to_members J obj cs))"
proof (induction J fs and J obj cs rule: fs_to_value_fs_to_members.induct)
  case (1 J s cs)
  have "wf_json (JObject (if s then bm_insert ''.'' (JObject []) [] else []))"
    by (simp add: bm_ok_Cons)
  from 1 [OF this] show ?case by (simp only: fs_to_value.simps)
qed (simp_all del: wf_json.simps(2))

lemma wf_make_entry: "wf_json (make_entry J manager fs g time)"
  unfolding make_entry_def Let_def by (rule wf_json_object) (simp add: wf_fs_to_value)

lemma wf_set_managed_fields:
  assumes "wf_json mf" and "wf_json doc"
  shows "wf_json (set_managed_fields mf doc)"
proof (cases doc)
  case (JObject m)
  have new: "wf_json (JObject (bm_insert ''managedFields'' mf []))"
    using assms(1) by (simp add: bm_ok_Cons)
  have upd: "wf_json (JObject (bm_insert ''managedFields'' mf mm))"
    if "map_of m ''metadata'' = Some (JObject mm)" for mm
    using wf_json_get [OF assms(2) [unfolded JObject] that] assms(1) by (rule wf_json_insert)
  show ?thesis
    using assms(2) JObject new upd
    by (auto simp: set_managed_fields_def simp del: wf_json.simps(2) split: option.splits json.splits)
qed (use assms in \<open>simp_all add: set_managed_fields_def\<close>)

lemma wf_remove_leaf: "wf_json node \<Longrightarrow> wf_json (remove_leaf el node)"
  by (cases el; cases node)
    (auto simp: remove_leaf_def bm_remove_def dest: in_set_takeD in_set_dropD)

lemma list_element_index_less:
  "list_element_index (JArray arr) el = Some idx \<Longrightarrow> idx < length arr"
  by (auto simp: list_element_index_def split: path_element.splits if_splits dest: position_SomeD)

lemma remove_rec_field:
  "remove_rec node (PField n # t # ts) =
    (case jget node n of
       None \<Rightarrow> (node, False)
     | Some child \<Rightarrow>
         (let node' = JObject (bm_insert n (fst (remove_rec child (t # ts))) (the (as_object node)))
          in (node', is_empty_container node')))"
  by (cases node) (simp_all split: option.split)

lemma remove_rec_list:
  assumes "\<nexists>n. el = PField n"
  shows "remove_rec node (el # t # ts) =
    (case (list_element_index node el, node) of
       (Some idx, JArray arr) \<Rightarrow>
         (let (child, emptied) = remove_rec (arr ! idx) (t # ts);
              node' = JArray (if emptied then take idx arr @ drop (Suc idx) arr else arr[idx := child])
          in (node', is_empty_container node'))
     | _ \<Rightarrow> (node, False))"
  using assms by (cases el) simp_all

lemma wf_remove_list_step:
  assumes "wf_json node" and "\<nexists>n. el = PField n"
    and "\<And>v. wf_json v \<Longrightarrow> wf_json (fst (remove_rec v (t # ts)))"
  shows "wf_json (fst (remove_rec node (el # t # ts)))"
proof (cases "\<exists>idx arr. list_element_index node el = Some idx \<and> node = JArray arr")
  case True
  then obtain idx arr where i: "list_element_index node el = Some idx" "node = JArray arr" by blast
  have idx: "idx < length arr" using i(1) unfolding i(2) by (rule list_element_index_less)
  obtain child emptied where rr: "remove_rec (arr ! idx) (t # ts) = (child, emptied)"
    by (cases "remove_rec (arr ! idx) (t # ts)")
  have "wf_json child" using assms(1) assms(3) [of "arr ! idx"] i(2) idx rr by simp
  then have "wf_list (arr[idx := child])"
    by (intro wf_update) (use assms(1) i(2) in simp_all)
  moreover have "wf_list (take idx arr @ drop (Suc idx) arr)"
    by (rule wf_remove_nth) (use assms(1) i(2) in simp)
  ultimately have "wf_json (JArray (if emptied then take idx arr @ drop (Suc idx) arr
      else arr[idx := child]))" by (simp del: set_append)
  then show ?thesis
    using i rr unfolding remove_rec_list [OF assms(2)] by (simp add: Let_def del: wf_json.simps)
next
  case False
  then have "remove_rec node (el # t # ts) = (node, False)"
    unfolding remove_rec_list [OF assms(2)] by (auto split: option.split json.split)
  with assms(1) show ?thesis by simp
qed

lemma wf_remove_field_step:
  assumes "wf_json node" and "\<And>v. wf_json v \<Longrightarrow> wf_json (fst (remove_rec v (t # ts)))"
  shows "wf_json (fst (remove_rec node (PField n # t # ts)))"
proof (cases "jget node n")
  case (Some child)
  then obtain m where m: "node = JObject m" by (cases node) auto
  have "wf_json (fst (remove_rec child (t # ts)))"
    by (rule assms(2)) (rule wf_json_jget [OF assms(1) Some])
  with assms(1) have "wf_json (JObject (bm_insert n (fst (remove_rec child (t # ts))) m))"
    unfolding m by (rule wf_json_insert)
  with Some show ?thesis
    unfolding remove_rec_field by (simp add: Let_def m del: wf_json.simps(2))
qed (use assms(1) in \<open>simp add: remove_rec_field del: remove_rec.simps\<close>)

lemma wf_remove_rec: "wf_json node \<Longrightarrow> wf_json (fst (remove_rec node path))"
proof (induction path arbitrary: node)
  case step: (Cons el path)
  show ?case
  proof (cases path)
    case Nil
    with step.prems show ?thesis by (simp add: Let_def wf_remove_leaf)
  next
    case (Cons t ts)
    note IH = step.IH [unfolded Cons]
    show ?thesis
    proof (cases "\<exists>n. el = PField n")
      case True
      then obtain n where "el = PField n" by blast
      with wf_remove_field_step [OF step.prems IH] Cons show ?thesis by metis
    next
      case False
      from wf_remove_list_step [OF step.prems False IH] Cons show ?thesis by metis
    qed
  qed
qed simp

lemma wf_remove_unapplied:
  "wf_json doc \<Longrightarrow> wf_json (remove_unapplied J manager entries applied doc)"
proof -
  have "wf_json doc \<Longrightarrow> wf_json (fold (\<lambda>path doc. if P path then doc else remove_at doc path) ps doc)"
    for P ps
    by (induction ps arbitrary: doc) (simp_all add: remove_at_def wf_remove_rec)
  then show "wf_json doc \<Longrightarrow> wf_json (remove_unapplied J manager entries applied doc)"
    by (simp add: remove_unapplied_def)
qed

lemma wf_read_managed_fields:
  assumes "wf_json cur" and "e \<in> set (read_managed_fields J cur)"
  shows "wf_json (de_raw e)"
proof -
  obtain arr where arr: "member2 ''metadata'' ''managedFields'' cur = Some (JArray arr)"
    and "de_raw e \<in> set arr"
    using assms(2) decode_entry_raw [of J _ e]
    by (cases "member2 ''metadata'' ''managedFields'' cur"; cases "the (member2 ''metadata'' ''managedFields'' cur)")
      (auto simp: read_managed_fields_def set_map_filter split: option.splits)
  moreover obtain meta where "jget cur ''metadata'' = Some meta" "jget meta ''managedFields'' = Some (JArray arr)"
    using arr by (auto simp: member2_def bind_eq_Some_conv)
  then have "wf_json (JArray arr)"
    using wf_json_jget [OF wf_json_jget [OF assms(1)]] by blast
  ultimately show ?thesis by simp
qed

lemma wf_update_entry:
  assumes "wf_json (de_raw e)" and "update_entry J manager applied force g time e = Some r"
  shows "wf_json r"
proof -
  have "wf_json (case de_raw e of
      JObject m \<Rightarrow> JObject (bm_insert ''fieldsV1'' (fs_to_value J fs) m) | raw \<Rightarrow> raw)" for fs
    using assms(1) wf_json_insert [OF _ wf_fs_to_value(1)] by (cases "de_raw e") auto
  with assms show ?thesis
    by (auto simp: update_entry_def Let_def wf_make_entry simp del: wf_json.simps split: if_splits)
qed

lemma wf_update_ownership:
  assumes "\<forall>e \<in> set entries. wf_json (de_raw e)"
  shows "wf_json (JArray (update_ownership J entries manager applied force g time))"
  using assms wf_update_entry
  by (fastforce simp: update_ownership_def Let_def set_map_filter wf_make_entry)

lemma wf_apply_ssa:
  assumes "apply_ssa J cur config manager force g env time = Inr out"
    and "wf_json config" and "\<forall>v. cur = Some v \<longrightarrow> wf_json v"
  shows "wf_json (merged out)"
proof (cases cur)
  case None
  with assms show ?thesis
    by (auto simp: apply_ssa_def Let_def wf_make_entry intro!: wf_set_managed_fields)
next
  case (Some current)
  define doc where "doc = (case strategic_merge env g jp_root current config of
      Inr m \<Rightarrow> m | Inl _ \<Rightarrow> current)"
  have cur: "wf_json current" using assms(3) Some by simp
  have doc: "wf_json doc"
    using wf_strategic_merge [OF _ cur assms(2)] cur by (auto simp: doc_def split: sum.splits)
  show ?thesis
    using assms(1) Some wf_read_managed_fields [OF cur]
    by (auto simp: apply_ssa_def Let_def doc_def [symmetric] simp del: wf_json.simps
        split: if_splits intro!: wf_set_managed_fields wf_update_ownership wf_remove_unapplied doc)
qed

section \<open>Properties of server-side apply\<close>

text \<open>
  C35. An ownership trie survives its wire form: encoding it as \<open>FieldsV1\<close> and decoding it
  again gives the same trie, for every configuration whose list keys and set elements the
  JSON library prints and parses back.
\<close>

theorem fields_v1_roundtrip:
  assumes "fs_codable J (fieldset_of J config g env)"
  shows "fs_from_value J (fs_to_value J (fieldset_of J config g env)) = fieldset_of J config g env"
  using assms by (intro fs_wire_roundtrip) simp_all

definition ssa_example_text :: json_text where
  "ssa_example_text =
     \<lparr>to_string = (\<lambda>v. if v = JObject [(''name'', JString ''app'')] then ''{name:app}'' else ''?''),
      from_str = (\<lambda>s. if s = ''{name:app}'' then Some (JObject [(''name'', JString ''app'')]) else None)\<rparr>"

definition ssa_example_env :: patch_schema_env where
  "ssa_example_env = (\<lambda>_ p. if p = [''containers''] then MergeByKey [''name''] else LReplace)"

definition ssa_example_gvk :: gvk where
  "ssa_example_gvk = \<lparr>gvk_group = ''apps'', gvk_version = ''v1'', gvk_kind = ''Deployment''\<rparr>"

definition ssa_example_config :: "string \<Rightarrow> json" where
  "ssa_example_config img =
     JObject [(''containers'',
       JArray [JObject [(''image'', JString img), (''name'', JString ''app'')]])]"

theorem fields_v1_roundtrip_witness:
  "fs_from_value ssa_example_text (fs_to_value ssa_example_text
      (fieldset_of ssa_example_text (ssa_example_config ''a:1'') ssa_example_gvk ssa_example_env)) =
    fieldset_of ssa_example_text (ssa_example_config ''a:1'') ssa_example_gvk ssa_example_env"
  by (rule fields_v1_roundtrip) code_simp

text \<open>
  C34. The ledger an apply to an existing object leaves behind: the applying manager is
  recorded, and its entry owns exactly the paths of the configuration it applied; under \<open>force\<close>
  no other entry of operation \<open>Apply\<close> still owns any of those paths. (Entries of another
  operation keep what they own.) The result is an object whose metadata, if any, is an object,
  and the field sets concerned have keys that survive their encoding.
\<close>

theorem ssa_ownership_ledger:
  assumes "apply_ssa J (Some current) config manager force g env time = Inr out"
    and "stampable (merged out)"
    and "fs_codable J (fieldset_of J config g env)"
    and "\<forall>e \<in> set (read_managed_fields J current). fs_codable J (de_fields e)"
  shows "(\<exists>e \<in> set (read_managed_fields J (merged out)).
        de_manager e = manager \<and> de_operation e = MApply) \<and>
    (\<forall>e \<in> set (read_managed_fields J (merged out)).
        (de_manager e = manager \<and> de_operation e = MApply \<longrightarrow>
           de_fields e = fieldset_of J config g env) \<and>
        (de_manager e \<noteq> manager \<and> de_operation e = MApply \<and> force \<longrightarrow>
           (\<forall>p. \<not> (owns J (fieldset_of J config g env) p \<and> owns J (de_fields e) p))))"
proof -
  let ?applied = "fieldset_of J config g env" and ?entries = "read_managed_fields J current"
  obtain doc where doc: "merged out =
      set_managed_fields (JArray (update_ownership J ?entries manager ?applied force g time)) doc"
    using assms(1) by (auto simp: apply_ssa_def Let_def split: if_splits)
  have st: "stampable doc" using assms(2) by (simp add: doc stampable_set_managed_fields)
  note ledger = read_set_managed_fields [OF st]
  have "decode_entry J (make_entry J manager ?applied g time) \<in>
      decode_entry J ` set (update_ownership J ?entries manager ?applied force g time)"
    by (rule imageI) (rule make_entry_in_ownership)
  then have "\<exists>e \<in> set (read_managed_fields J (merged out)). de_manager e = manager \<and> de_operation e = MApply"
    using decode_make_entry [OF fs_ok_fieldset_of assms(3), of manager g time]
    by (fastforce simp: doc ledger set_map_filter)
  moreover have "entry_after J manager ?applied force e"
    if "e \<in> set (read_managed_fields J (merged out))" for e
    by (rule update_ownership_after [of ?entries])
      (use assms(3,4) that read_managed_fields_raw in \<open>auto simp: doc ledger\<close>)
  ultimately show ?thesis by (auto simp: entry_after_def)
qed

definition ssa_example_object :: json where
  "ssa_example_object =
     merged (projr (apply_ssa ssa_example_text None (ssa_example_config ''a:1'') ''alice'' False
       ssa_example_gvk ssa_example_env ''t0''))"

definition ssa_example_forced :: json where
  "ssa_example_forced =
     merged (projr (apply_ssa ssa_example_text (Some ssa_example_object) (ssa_example_config ''a:2'')
       ''bob'' True ssa_example_gvk ssa_example_env ''t1''))"

theorem ssa_ownership_ledger_witness:
  "\<exists>e \<in> set (read_managed_fields ssa_example_text ssa_example_forced).
     de_manager e = ''bob'' \<and> de_operation e = MApply"
proof -
  let ?r = "apply_ssa ssa_example_text (Some ssa_example_object) (ssa_example_config ''a:2'')
       ''bob'' True ssa_example_gvk ssa_example_env ''t1''"
  have ok: "?r = Inr (projr ?r)" by code_simp
  have "stampable (merged (projr ?r))" by code_simp
  moreover have "fs_codable ssa_example_text
      (fieldset_of ssa_example_text (ssa_example_config ''a:2'') ssa_example_gvk ssa_example_env)"
    by code_simp
  moreover have "\<forall>e \<in> set (read_managed_fields ssa_example_text ssa_example_object).
      fs_codable ssa_example_text (de_fields e)" by code_simp
  ultimately show ?thesis
    using ssa_ownership_ledger [OF ok] by (simp add: ssa_example_forced_def)
qed


definition in_conflict ::
  "json_text \<Rightarrow> json \<Rightarrow> json \<Rightarrow> string \<Rightarrow> field_set \<Rightarrow> conflict \<Rightarrow> bool" where
  "in_conflict J current config manager applied c \<longleftrightarrow>
     (\<exists>path e. path \<in> set (owned_paths applied) \<and> e \<in> set (read_managed_fields J current) \<and>
        de_manager e \<noteq> manager \<and> de_operation e = MApply \<and> owns J (de_fields e) path \<and>
        value_at config path \<noteq> value_at current path \<and>
        c = \<lparr>cf_manager = de_manager e, cf_field = render_field_path J path\<rparr>)"

lemma set_collect_conflicts:
  "set (collect_conflicts J current config manager (read_managed_fields J current) applied) =
    Collect (in_conflict J current config manager applied)"
proof -
  have "c \<in> set (collect_conflicts J current config manager (read_managed_fields J current) applied)
      \<longleftrightarrow> in_conflict J current config manager applied c" for c
    unfolding collect_conflicts_def in_conflict_def
    by (simp add: set_map_filter) (metis (no_types, lifting) option.distinct(1) option.inject)
  then show ?thesis by blast
qed

lemma strict_sorted_remdups_adj: "sorted (xs :: 'a::linorder list) \<Longrightarrow> sorted_wrt (<) (remdups_adj xs)"
proof (induction xs rule: remdups_adj.induct)
  case (3 x y xs)
  then show ?case by (cases "x = y") (auto simp: le_less_trans)
qed simp_all

lemma strict_sorted_conflicts:
  fixes cs :: "conflict list"
  shows "sorted_wrt (<) (map (\<lambda>c. (cf_field c, cf_manager c))
    (remdups_adj (sort_key (\<lambda>c. (cf_field c, cf_manager c)) cs)))"
proof -
  let ?k = "\<lambda>c :: conflict. (cf_field c, cf_manager c)"
  have inj: "inj ?k" by (auto simp: inj_def)
  show ?thesis
    using strict_sorted_remdups_adj [of "map ?k (sort_key ?k cs)"] remdups_adj_map_injective [OF inj]
    by simp
qed

lemma apply_ssa_unforced:
  "apply_ssa J (Some current) config manager False g env time =
    (let cs = collect_conflicts J current config manager (read_managed_fields J current)
                (fieldset_of J config g env)
     in if cs \<noteq> [] then Inl (remdups_adj (sort_key (\<lambda>c. (cf_field c, cf_manager c)) cs))
        else Inr (projr (apply_ssa J (Some current) config manager False g env time)))"
  by (simp add: apply_ssa_def Let_def)

lemma conflicts_by_path:
  "case apply_ssa J (Some current) config manager False g env time of
     Inr out \<Rightarrow> (\<nexists>c. in_conflict J current config manager (fieldset_of J config g env) c)
   | Inl cs \<Rightarrow> cs \<noteq> [] \<and> sorted_wrt (<) (map (\<lambda>c. (cf_field c, cf_manager c)) cs) \<and>
       set cs = Collect (in_conflict J current config manager (fieldset_of J config g env))"
proof -
  define cs where "cs = collect_conflicts J current config manager (read_managed_fields J current)
      (fieldset_of J config g env)"
  have set_cs: "set cs = Collect (in_conflict J current config manager (fieldset_of J config g env))"
    unfolding cs_def by (rule set_collect_conflicts)
  have r: "apply_ssa J (Some current) config manager False g env time =
    (if cs \<noteq> [] then Inl (remdups_adj (sort_key (\<lambda>c. (cf_field c, cf_manager c)) cs))
     else Inr (projr (apply_ssa J (Some current) config manager False g env time)))"
    by (subst apply_ssa_unforced) (simp only: Let_def cs_def)
  show ?thesis
  proof (cases "cs = []")
    case True
    then obtain out where "apply_ssa J (Some current) config manager False g env time = Inr out"
      using r by metis
    with True set_cs show ?thesis by auto
  next
    case False
    let ?ds = "remdups_adj (sort_key (\<lambda>c. (cf_field c, cf_manager c)) cs)"
    have "set ?ds = set cs" by simp
    moreover from this False have "?ds \<noteq> []" by (metis set_empty)
    moreover have "apply_ssa J (Some current) config manager False g env time = Inl ?ds"
      using r False by simp
    ultimately show ?thesis using strict_sorted_conflicts [of cs] set_cs by simp
  qed
qed

text \<open>
  Overlapping ownership: a field set owns a path, something under it, or something it lies under.
\<close>

fun owned_below :: "json_text \<Rightarrow> field_set \<Rightarrow> path_element list \<Rightarrow> bool" where
  "owned_below J fs [] \<longleftrightarrow> owned_paths fs \<noteq> []"
| "owned_below J fs (el # els) \<longleftrightarrow>
     (case map_of (children fs) (to_fields_v1_key J el) of
        None \<Rightarrow> False
      | Some (_, child) \<Rightarrow> owned_below J child els)"

definition overlaps :: "json_text \<Rightarrow> field_set \<Rightarrow> path_element list \<Rightarrow> bool" where
  "overlaps J fs path \<longleftrightarrow> owned_below J fs path \<or> (\<exists>n < length path. owns J fs (take n path))"

lemma owns_below: "owns J fs path \<Longrightarrow> owned_below J fs path"
proof (induction J fs path rule: owns.induct)
  case (1 J fs)
  then have "[] \<in> set (owned_paths fs)" by (simp add: owned_paths_Nil)
  then show ?case by auto
qed (auto split: option.splits)

definition others_overlapping :: "json_text \<Rightarrow> json \<Rightarrow> string \<Rightarrow> path_element list \<Rightarrow> decoded_entry list" where
  "others_overlapping J current manager path =
     filter (\<lambda>e. de_manager e \<noteq> manager \<and> de_operation e = MApply \<and> overlaps J (de_fields e) path)
       (read_managed_fields J current)"

text \<open>
  C33. Conflicts are exact: without \<open>force\<close> an apply to an existing object is refused if and
  only if some path it would own overlaps what another applying manager owns and has a
  different value, and the refusal lists exactly those paths with their owners, once each and in
  order. This is claimed where ownership overlaps only at equal paths, that is, where no other
  applying manager owns a container of a path that is applied, or a member of one, without
  owning the path itself; ownership at unequal depths is not seen by the code (see
  \<open>ssa_overlap_is_no_conflict\<close>). Managers recorded with another operation than \<open>Apply\<close> are outside
  conflict detection.
\<close>

theorem apply_conflicts_exact:
  assumes "\<forall>path \<in> set (owned_paths (fieldset_of J config g env)).
    \<forall>e \<in> set (others_overlapping J current manager path). owns J (de_fields e) path"
  shows "case apply_ssa J (Some current) config manager False g env time of
     Inr out \<Rightarrow>
       (\<forall>path \<in> set (owned_paths (fieldset_of J config g env)).
          others_overlapping J current manager path = [] \<or> value_at config path = value_at current path)
   | Inl cs \<Rightarrow> cs \<noteq> [] \<and> sorted_wrt (<) (map (\<lambda>c. (cf_field c, cf_manager c)) cs) \<and>
       set cs = {\<lparr>cf_manager = de_manager e, cf_field = render_field_path J path\<rparr> | path e.
         path \<in> set (owned_paths (fieldset_of J config g env)) \<and>
         e \<in> set (others_overlapping J current manager path) \<and> value_at config path \<noteq> value_at current path}"
proof -
  let ?fs = "fieldset_of J config g env"
  have iff: "in_conflict J current config manager ?fs c \<longleftrightarrow>
      (\<exists>path e. c = \<lparr>cf_manager = de_manager e, cf_field = render_field_path J path\<rparr> \<and> path \<in> set (owned_paths ?fs) \<and>
        e \<in> set (others_overlapping J current manager path) \<and> value_at config path \<noteq> value_at current path)" for c
    using assms owns_below by (fastforce simp: in_conflict_def others_overlapping_def overlaps_def)
  have conflicts: "Collect (in_conflict J current config manager ?fs) =
      {\<lparr>cf_manager = de_manager e, cf_field = render_field_path J path\<rparr> | path e. path \<in> set (owned_paths ?fs) \<and>
         e \<in> set (others_overlapping J current manager path) \<and> value_at config path \<noteq> value_at current path}"
    by (intro set_eqI) (simp only: mem_Collect_eq iff)
  show ?thesis
  proof (cases "apply_ssa J (Some current) config manager False g env time")
    case (Inl cs)
    with conflicts_by_path [of J current config manager g env time] conflicts show ?thesis by simp
  next
    case (Inr out)
    with conflicts_by_path [of J current config manager g env time]
    have none: "\<not> in_conflict J current config manager ?fs c" for c by simp
    have "others_overlapping J current manager path = []"
      if "path \<in> set (owned_paths ?fs)" "value_at config path \<noteq> value_at current path" for path
    proof (rule ccontr)
      assume "others_overlapping J current manager path \<noteq> []"
      then obtain e where "e \<in> set (others_overlapping J current manager path)"
        by (cases "others_overlapping J current manager path") auto
      with that none show False unfolding iff by blast
    qed
    with Inr show ?thesis by auto
  qed
qed

text \<open>Bob applies another image to the object Alice applied first.\<close>

theorem apply_conflicts_exact_witness:
  "\<exists>cs. apply_ssa ssa_example_text (Some ssa_example_object) (ssa_example_config ''a:2'') ''bob'' False
      ssa_example_gvk ssa_example_env ''t1'' = Inl cs \<and> cs \<noteq> [] \<and>
    sorted_wrt (<) (map (\<lambda>c. (cf_field c, cf_manager c)) cs)"
proof -
  let ?r = "apply_ssa ssa_example_text (Some ssa_example_object) (ssa_example_config ''a:2'') ''bob'' False
      ssa_example_gvk ssa_example_env ''t1''"
  have level: "\<forall>path \<in> set (owned_paths (fieldset_of ssa_example_text (ssa_example_config ''a:2'')
        ssa_example_gvk ssa_example_env)).
      \<forall>e \<in> set (others_overlapping ssa_example_text ssa_example_object ''bob'' path).
        owns ssa_example_text (de_fields e) path" by code_simp
  have "isl ?r" by code_simp
  then obtain cs where "?r = Inl cs" by (cases ?r) simp_all
  with apply_conflicts_exact [OF level, of "''t1''"] show ?thesis by simp
qed

subsection \<open>Where the code departs from its description\<close>

definition ssa_apply_twice :: "json_text \<Rightarrow> json \<Rightarrow> json \<Rightarrow> patch_schema_env \<Rightarrow> json" where
  "ssa_apply_twice J first_config second_config env =
     (let obj = merged (projr (apply_ssa J None first_config ''m'' False ssa_example_gvk env ''t0''))
      in merged (projr (apply_ssa J (Some obj) second_config ''m'' False ssa_example_gvk env ''t1'')))"

text \<open>
  Field removal compares owned paths exactly. A manager that applied \<open>{data: {}}\<close> owns the
  path \<open>data\<close> itself; when it then applies \<open>{data: {a: true}}\<close> it owns \<open>data.a\<close>, no longer
  \<open>data\<close>, and the removal phase drops the whole member it has just merged.
\<close>

theorem ssa_removes_what_it_applied:
  "jget (ssa_apply_twice ssa_example_text (JObject [(''data'', JObject [])])
      (JObject [(''data'', JObject [(''a'', JBool True)])]) ssa_example_env) ''data'' = None"
  by code_simp

text \<open>
  Removing the fields of a list element one at a time, in key order, removes its merge key
  before the fields that sort after it; those are then no longer found, and an element
  without its merge key stays behind instead of being pruned.
\<close>

theorem ssa_leaves_keyless_element:
  "jget (ssa_apply_twice ssa_example_text
      (JObject [(''containers'', JArray [JObject [(''name'', JString ''app''), (''ports'', JArray [])]]),
                (''kind'', JString ''D'')])
      (JObject [(''kind'', JString ''D'')]) ssa_example_env) ''containers'' =
    Some (JArray [JObject [(''ports'', JArray [])]])"
  by code_simp

text \<open>
  Ownership is compared path by path, so owning a container is not seen to overlap owning a
  member of it: a second manager overwrites the container the first one owns without a
  conflict and without \<open>force\<close>.
\<close>

theorem ssa_overlap_is_no_conflict:
  "let obj = merged (projr (apply_ssa ssa_example_text None
               (JObject [(''data'', JObject [])]) ''alice'' False ssa_example_gvk ssa_example_env ''t0''));
       r = apply_ssa ssa_example_text (Some obj) (JObject [(''data'', JObject [(''a'', JBool True)])])
             ''bob'' False ssa_example_gvk ssa_example_env ''t1''
   in isl r = False \<and> jget (merged (projr r)) ''data'' = Some (JObject [(''a'', JBool True)])"
  by code_simp

end
