(* ===== verification/AtRest.thy ===== *)
theory AtRest
  imports Hex Command Ssa
begin

text \<open>
  Secrets at rest (\<open>engenho-store/src/at_rest.rs\<close>): which kinds are sealed, the key
  fingerprint, why a value cannot be sealed or opened, the envelope of a sealed value and
  of a sealed log entry. The cipher, the base64 codec and the JSON encoders are third-party
  code: they are arguments (\<open>aead\<close>, \<open>seal_env\<close>), and the random nonce is an argument too.
  Reading and creating the key file is file I/O and is not modelled; the state of the key it
  leaves is.
\<close>

section \<open>Kinds, keys and faults\<close>

definition envelope_prefix :: string where
  "envelope_prefix = ''engenho-sealed:v1:''"

definition sealed_kinds :: "string list" where
  "sealed_kinds = [''Secret'']"

definition is_sealed_kind :: "resource_key \<Rightarrow> bool" where
  "is_sealed_kind key \<longleftrightarrow> group key = [] \<and> kind key \<in> set sealed_kinds"

datatype seal_writes = Seal | Plain

text \<open>Eight bytes.\<close>

type_synonym key_id = string

definition key_id_hex :: "key_id \<Rightarrow> string" where
  "key_id_hex i = to_hex i"

text \<open>\<open>u8::from_str_radix(_, 16)\<close> on two ASCII bytes: the first may be a plus sign.\<close>

definition radix16_pair :: "char \<Rightarrow> char \<Rightarrow> char option" where
  "radix16_pair h l =
     (if h = CHR ''+'' then map_option char_of (nibble l)
      else case (nibble h, nibble l) of
             (Some hi, Some lo) \<Rightarrow> Some (char_of (hi * 16 + lo))
           | _ \<Rightarrow> None)"

fun radix16_pairs :: "string \<Rightarrow> string option" where
  "radix16_pairs (h # l # rest) =
     (case radix16_pair h l of
        None \<Rightarrow> None
      | Some b \<Rightarrow> map_option (Cons b) (radix16_pairs rest))"
| "radix16_pairs _ = Some []"

definition is_ascii :: "string \<Rightarrow> bool" where
  "is_ascii s \<longleftrightarrow> (\<forall>c \<in> set s. of_char c < (128::nat))"

definition key_id_parse :: "string \<Rightarrow> key_id option" where
  "key_id_parse hex = (if length hex \<noteq> 16 \<or> \<not> is_ascii hex then None else radix16_pairs hex)"

datatype seal_fault =
    KeyMissing key_id
  | KeyUnusable
  | WrongKey key_id key_id
  | Damaged key_id
  | Unopened

definition is_envelope :: "json \<Rightarrow> bool" where
  "is_envelope v =
     (case as_str v of Some text \<Rightarrow> strip_prefix envelope_prefix text \<noteq> None | None \<Rightarrow> False)"

section \<open>The sealer\<close>

record aead =
  aead_encrypt :: "string \<Rightarrow> string \<Rightarrow> string \<Rightarrow> string option"
  aead_decrypt :: "string \<Rightarrow> string \<Rightarrow> string \<Rightarrow> string option"

record seal_env =
  se_text :: json_text
  se_key_text :: "resource_key \<Rightarrow> string"
  se_b64_encode :: "string \<Rightarrow> string"
  se_b64_decode :: "string \<Rightarrow> string option"

datatype key_state = Held aead key_id | Absent | Unusable

record secret_sealer =
  ss_writes :: seal_writes
  ss_key :: key_state
  ss_pinned :: "key_id option"

definition nonce_len :: nat where
  "nonce_len = 24"

definition pin_to_record :: "secret_sealer \<Rightarrow> key_id option" where
  "pin_to_record s =
     (case (ss_key s, ss_pinned s) of (Held _ i, None) \<Rightarrow> Some i | _ \<Rightarrow> None)"

definition write_fault :: "secret_sealer \<Rightarrow> seal_fault option" where
  "write_fault s =
     (if ss_writes s = Plain then None
      else case (ss_key s, ss_pinned s) of
             (Held _ i, Some wanted) \<Rightarrow> (if i \<noteq> wanted then Some (WrongKey wanted i) else None)
           | (Held _ _, None) \<Rightarrow> None
           | (Absent, Some wanted) \<Rightarrow> Some (KeyMissing wanted)
           | (_, _) \<Rightarrow> Some KeyUnusable)"

definition seals :: "secret_sealer \<Rightarrow> bool" where
  "seals s \<longleftrightarrow> ss_writes s = Seal \<and> write_fault s = None"

definition damaged :: "secret_sealer \<Rightarrow> seal_fault" where
  "damaged s = (case ss_key s of Held _ i \<Rightarrow> Damaged i | _ \<Rightarrow> KeyUnusable)"

definition seal ::
  "seal_env \<Rightarrow> secret_sealer \<Rightarrow> string \<Rightarrow> string \<Rightarrow> string \<Rightarrow> (seal_fault, string) result" where
  "seal E s nonce aad plain =
     (case (ss_key s, write_fault s) of
        (Held cipher i, None) \<Rightarrow>
          (case aead_encrypt cipher nonce aad plain of
             None \<Rightarrow> Inl (Damaged i)
           | Some body \<Rightarrow>
               Inr (envelope_prefix @ key_id_hex i @ '':'' @ se_b64_encode E (nonce @ body)))
      | (_, fault) \<Rightarrow> Inl (case fault of Some f \<Rightarrow> f | None \<Rightarrow> KeyUnusable))"

fun split_once :: "char \<Rightarrow> string \<Rightarrow> (string \<times> string) option" where
  "split_once sep [] = None"
| "split_once sep (c # cs) =
     (if c = sep then Some ([], cs) else map_option (\<lambda>(a, b). (c # a, b)) (split_once sep cs))"

definition open_with ::
  "seal_env \<Rightarrow> secret_sealer \<Rightarrow> string \<Rightarrow> string \<Rightarrow> (seal_fault, string) result" where
  "open_with E s aad envelope =
     (case strip_prefix envelope_prefix envelope of
        None \<Rightarrow> Inl (damaged s)
      | Some rest \<Rightarrow>
     (case split_once CHR '':'' rest of
        None \<Rightarrow> Inl (damaged s)
      | Some (i, encoded) \<Rightarrow>
     (case key_id_parse i of
        None \<Rightarrow> Inl (damaged s)
      | Some wanted \<Rightarrow>
     (case ss_key s of
        Absent \<Rightarrow> Inl (KeyMissing wanted)
      | Unusable \<Rightarrow> Inl KeyUnusable
      | Held cipher have_id \<Rightarrow>
          (if have_id \<noteq> wanted then Inl (WrongKey wanted have_id)
           else case se_b64_decode E encoded of
                  None \<Rightarrow> Inl (Damaged have_id)
                | Some sealed \<Rightarrow>
                    (if length sealed < nonce_len then Inl (Damaged have_id)
                     else case aead_decrypt cipher (take nonce_len sealed) aad (drop nonce_len sealed) of
                            None \<Rightarrow> Inl (Damaged have_id)
                          | Some plain \<Rightarrow> Inr plain))))))"

definition resource_aad :: "seal_env \<Rightarrow> resource_key \<Rightarrow> string" where
  "resource_aad E key = ''resource:'' @ se_key_text E key"

definition seal_value ::
  "seal_env \<Rightarrow> secret_sealer \<Rightarrow> string \<Rightarrow> resource_key \<Rightarrow> json \<Rightarrow> (seal_fault, json) result" where
  "seal_value E s nonce key v =
     map_sum id JString (seal E s nonce (resource_aad E key) (to_string (se_text E) v))"

definition open_value ::
  "seal_env \<Rightarrow> secret_sealer \<Rightarrow> resource_key \<Rightarrow> string \<Rightarrow> (seal_fault, json) result" where
  "open_value E s key envelope =
     (case open_with E s (resource_aad E key) envelope of
        Inl f \<Rightarrow> Inl f
      | Inr plain \<Rightarrow>
          (case from_str (se_text E) plain of None \<Rightarrow> Inl (damaged s) | Some v \<Rightarrow> Inr v))"

section \<open>Log entries\<close>

datatype entry_payload = Normal logged_command | OtherPayload

record log_entry =
  le_log_id :: nat
  le_payload :: entry_payload

text \<open>The JSON encoding of an entry and of its log id, by \<open>serde_json\<close>.\<close>

record entry_codec =
  ec_entry_to_vec :: "log_entry \<Rightarrow> string"
  ec_entry_from_slice :: "string \<Rightarrow> log_entry option"
  ec_id_to_vec :: "nat \<Rightarrow> string"
  ec_id_from_slice :: "string \<Rightarrow> nat option"
  ec_utf8 :: "string \<Rightarrow> bool"

datatype entry_refused = RefusedFault seal_fault | RefusedPlaceholder nat

definition sealed_entry_prefix :: string where
  "sealed_entry_prefix = ''ENGENHO-SEALED-ENTRY:v1'' @ [CHR 0x0A]"

definition log_aad :: "string \<Rightarrow> string" where
  "log_aad header = ''log-entry:'' @ header"

definition encode_log_entry ::
  "seal_env \<Rightarrow> entry_codec \<Rightarrow> secret_sealer \<Rightarrow> string \<Rightarrow> log_entry \<Rightarrow> (entry_refused, string) result" where
  "encode_log_entry E C s nonce entry =
     (case le_payload entry of
        OtherPayload \<Rightarrow> Inr (ec_entry_to_vec C entry)
      | Normal logged \<Rightarrow>
          (if is_sealed_placeholder (lc_command logged)
           then Inl (RefusedPlaceholder (le_log_id entry))
           else if ss_writes s = Plain \<or> \<not> list_ex is_sealed_kind (command_keys (lc_command logged))
           then Inr (ec_entry_to_vec C entry)
           else (let header = ec_id_to_vec C (le_log_id entry)
                 in case seal E s nonce (log_aad header) (ec_entry_to_vec C entry) of
                      Inl f \<Rightarrow> Inl (RefusedFault f)
                    | Inr envelope \<Rightarrow>
                        Inr (sealed_entry_prefix @ header @ [CHR 0x0A] @ envelope))))"

definition split_sealed_entry :: "string \<Rightarrow> (string \<times> string) option" where
  "split_sealed_entry bytes =
     (case strip_prefix sealed_entry_prefix bytes of
        None \<Rightarrow> None
      | Some rest \<Rightarrow> split_once CHR 0x0A rest)"

definition open_entry ::
  "seal_env \<Rightarrow> entry_codec \<Rightarrow> secret_sealer \<Rightarrow> string \<Rightarrow> string \<Rightarrow> (seal_fault, string) result" where
  "open_entry E C s header envelope =
     (if ec_utf8 C envelope then open_with E s (log_aad header) envelope else Inl (damaged s))"

text \<open>\<open>None\<close> is a JSON decoding error.\<close>

definition decode_log_entry ::
  "seal_env \<Rightarrow> entry_codec \<Rightarrow> secret_sealer \<Rightarrow> string \<Rightarrow> log_entry option" where
  "decode_log_entry E C s bytes =
     (case split_sealed_entry bytes of
        None \<Rightarrow> ec_entry_from_slice C bytes
      | Some (header, envelope) \<Rightarrow>
          (case ec_id_from_slice C header of
             None \<Rightarrow> None
           | Some log_id \<Rightarrow>
               (case open_entry E C s header envelope of
                  Inr plain \<Rightarrow> ec_entry_from_slice C plain
                | Inl _ \<Rightarrow>
                    Some \<lparr>le_log_id = log_id, le_payload = Normal (proposed sealed_placeholder)\<rparr>)))"

definition entry_fault ::
  "seal_env \<Rightarrow> entry_codec \<Rightarrow> secret_sealer \<Rightarrow> string \<Rightarrow> seal_fault option" where
  "entry_fault E C s bytes =
     (case split_sealed_entry bytes of
        None \<Rightarrow> None
      | Some (header, envelope) \<Rightarrow>
          (case open_entry E C s header envelope of Inl f \<Rightarrow> Some f | Inr _ \<Rightarrow> None))"

section \<open>Envelopes open again\<close>

lemma strip_prefix_append [simp]: "strip_prefix p (p @ s) = Some s"
  by (simp add: strip_prefix_def)

lemma split_once_append: "sep \<notin> set a \<Longrightarrow> split_once sep (a @ sep # b) = Some (a, b)"
  by (induction a) auto

lemma hex_digit_bounds:
  assumes "n < 16"
  shows "hex_digit n \<notin> {CHR '':'', CHR ''+''}" and "of_char (hex_digit n) < (128::nat)"
  using less_16_cases [OF assms] by (auto simp: hex_digit_def)

lemma to_hex_digits: "c \<in> set (to_hex bs) \<Longrightarrow> \<exists>n < 16. c = hex_digit n"
  by (auto simp: to_hex_def hex_byte_def) (metis mod_less_divisor of_char_div_16 zero_less_numeral)+

lemma radix16_pairs_to_hex: "radix16_pairs (to_hex bs) = Some bs"
proof (induction bs)
  case (Cons b bs)
  have "radix16_pair (hex_digit (of_char b div 16)) (hex_digit (of_char b mod 16)) = Some b"
    using hex_digit_bounds(1) [of "of_char b div 16"] by (simp add: radix16_pair_def)
  with Cons show ?case by (simp add: to_hex_def hex_byte_def)
qed (simp add: to_hex_def)

lemma is_ascii_to_hex: "is_ascii (to_hex bs)"
  using to_hex_digits [of _ bs] hex_digit_bounds(2) by (fastforce simp: is_ascii_def)

lemma key_id_parse_hex:
  assumes "length i = 8"
  shows "key_id_parse (key_id_hex i) = Some i"
proof -
  show ?thesis
    using assms is_ascii_to_hex [of i]
    by (simp add: key_id_parse_def key_id_hex_def radix16_pairs_to_hex)
qed

lemma seal_ascii:
  assumes "seal E s nonce aad plain = Inr env" and "\<forall>x. is_ascii (se_b64_encode E x)"
  shows "is_ascii env"
proof -
  have "is_ascii envelope_prefix" by code_simp
  moreover have "is_ascii ('':'' @ se_b64_encode E x)" for x
    using assms(2) by (simp add: is_ascii_def)
  ultimately show ?thesis
    using assms(1) is_ascii_to_hex
    by (auto simp: seal_def is_ascii_def key_id_hex_def split: option.splits key_state.splits)
qed

text \<open>What the sealer relies on from the cipher and from base64.\<close>

definition cipher_ok :: "aead \<Rightarrow> bool" where
  "cipher_ok c \<longleftrightarrow> (\<forall>n a m ct. aead_encrypt c n a m = Some ct \<longrightarrow> aead_decrypt c n a ct = Some m)"

definition b64_ok :: "seal_env \<Rightarrow> bool" where
  "b64_ok E \<longleftrightarrow> (\<forall>x. se_b64_decode E (se_b64_encode E x) = Some x)"

lemma open_sealed_envelope:
  assumes "seal E s nonce aad plain = Inr env" and "ss_key s = Held c i"
    and "cipher_ok c" and "b64_ok E" and "length nonce = nonce_len" and "length i = 8"
  shows "open_with E s aad env = Inr plain"
proof -
  obtain body where body: "aead_encrypt c nonce aad plain = Some body"
    and env: "env = envelope_prefix @ key_id_hex i @ CHR '':'' # se_b64_encode E (nonce @ body)"
    using assms(1,2) by (auto simp: seal_def split: option.splits)
  have colon: "CHR '':'' \<notin> set (key_id_hex i)"
    using to_hex_digits [of "CHR '':''" i] hex_digit_bounds(1) by (fastforce simp: key_id_hex_def)
  have "aead_decrypt c nonce aad body = Some plain"
    using assms(3) body by (simp add: cipher_ok_def)
  then show ?thesis
    using assms(2,4-6)
    by (simp add: open_with_def env split_once_append [OF colon] key_id_parse_hex b64_ok_def)
qed

lemma seal_is_envelope: "seal E s nonce aad plain = Inr env \<Longrightarrow> is_envelope (JString env)"
  by (auto simp: seal_def is_envelope_def split: option.splits key_state.splits)

section \<open>Properties of secrets at rest\<close>

text \<open>
  What a store seals it can open again: the sealed form of a resource value is an
  envelope, never a plain object, and opening it under the same key and for the same
  resource gives the value back. The cipher decrypts what it encrypted, base64 decodes what
  it encoded, and the JSON text of the value parses back.
\<close>

theorem sealed_value_roundtrip:
  assumes "seal_value E s nonce key v = Inr sealed" and "ss_key s = Held c i"
    and "cipher_ok c" and "b64_ok E" and "from_str (se_text E) (to_string (se_text E) v) = Some v"
    and "length nonce = nonce_len" and "length i = 8"
  shows "is_envelope sealed \<and>
    (\<exists>env. sealed = JString env \<and> open_value E s key env = Inr v)"
proof -
  obtain env where env: "sealed = JString env"
      "seal E s nonce (resource_aad E key) (to_string (se_text E) v) = Inr env"
    using assms(1) by (auto simp: seal_value_def map_sum_def split: sum.splits)
  show ?thesis
    using env seal_is_envelope [OF env(2)] open_sealed_envelope [OF env(2) assms(2-4,6,7)] assms(5)
    by (auto simp: open_value_def)
qed

definition example_cipher :: aead where
  "example_cipher = \<lparr>aead_encrypt = (\<lambda>n a m. Some m), aead_decrypt = (\<lambda>n a ct. Some ct)\<rparr>"

definition example_seal_env :: seal_env where
  "example_seal_env =
     \<lparr>se_text = \<lparr>to_string = (\<lambda>v. ''{}''), from_str = (\<lambda>s. Some (JObject []))\<rparr>,
      se_key_text = name, se_b64_encode = to_hex, se_b64_decode = from_hex\<rparr>"

definition example_sealer :: secret_sealer where
  "example_sealer = \<lparr>ss_writes = Seal, ss_key = Held example_cipher ''12345678'', ss_pinned = None\<rparr>"

lemma example_seal_ok: "cipher_ok example_cipher" "b64_ok example_seal_env"
  by (simp_all add: cipher_ok_def b64_ok_def example_cipher_def example_seal_env_def)

theorem sealed_value_roundtrip_witness:
  "\<exists>sealed. seal_value example_seal_env example_sealer (replicate 24 CHR ''n'')
        (namespaced [] ''v1'' ''Secret'' ''ns'' ''s'') (JObject []) = Inr sealed \<and> is_envelope sealed"
proof -
  let ?r = "seal_value example_seal_env example_sealer (replicate 24 CHR ''n'')
        (namespaced [] ''v1'' ''Secret'' ''ns'' ''s'') (JObject [])"
  have "?r = Inr (projr ?r)" by code_simp
  moreover from sealed_value_roundtrip [OF this, of example_cipher "''12345678''"]
  have "is_envelope (projr ?r)"
    using example_seal_ok by (simp add: example_sealer_def example_seal_env_def nonce_len_def)
  ultimately show ?thesis by blast
qed

lemma decode_sealed_entry:
  assumes "seal E s nonce (log_aad (ec_id_to_vec C n)) plain = Inr env"
    and "CHR 0x0A \<notin> set (ec_id_to_vec C n)"
  shows "split_sealed_entry (sealed_entry_prefix @ ec_id_to_vec C n @ [CHR 0x0A] @ env) =
    Some (ec_id_to_vec C n, env)"
  using split_once_append [OF assms(2)] by (simp add: split_sealed_entry_def)

text \<open>
  C37. A log entry is read back as it was written, sealed or not, by a node that holds the
  key; a node that cannot open a sealed entry reads a placeholder under the same log id,
  and no node can write that placeholder to its log. Besides the cipher and base64, this
  relies on the JSON of the entry and of its log id parsing back, on neither the log id's
  JSON holding a line break nor the entry's beginning like a sealed record, and on base64
  text being ASCII.
\<close>

theorem log_entry_roundtrip:
  assumes "encode_log_entry E C s nonce entry = Inr bytes"
    and "ss_key s = Held c i" and "cipher_ok c" and "b64_ok E"
    and "length nonce = nonce_len" and "length i = 8"
    and "ec_entry_from_slice C (ec_entry_to_vec C entry) = Some entry"
    and "ec_id_from_slice C (ec_id_to_vec C (le_log_id entry)) = Some (le_log_id entry)"
    and "CHR 0x0A \<notin> set (ec_id_to_vec C (le_log_id entry))"
    and "strip_prefix sealed_entry_prefix (ec_entry_to_vec C entry) = None"
    and "\<forall>x. is_ascii x \<longrightarrow> ec_utf8 C x" and "\<forall>x. is_ascii (se_b64_encode E x)"
  shows "decode_log_entry E C s bytes = Some entry \<and> entry_fault E C s bytes = None \<and>
    (\<forall>s'. entry_fault E C s' bytes \<noteq> None \<longrightarrow>
       (\<exists>e. decode_log_entry E C s' bytes = Some e \<and> le_log_id e = le_log_id entry \<and>
          (\<forall>E C s nonce. encode_log_entry E C s nonce e = Inl (RefusedPlaceholder (le_log_id entry)))))"
proof -
  let ?id = "ec_id_to_vec C (le_log_id entry)"
  consider (plain) "bytes = ec_entry_to_vec C entry"
    | (sealed) env where "seal E s nonce (log_aad ?id) (ec_entry_to_vec C entry) = Inr env"
        "bytes = sealed_entry_prefix @ ?id @ [CHR 0x0A] @ env"
    using assms(1)
    by (auto simp: encode_log_entry_def Let_def split: entry_payload.splits if_splits sum.splits)
  then show ?thesis
  proof cases
    case plain
    then show ?thesis
      using assms(7,10) by (simp add: decode_log_entry_def entry_fault_def split_sealed_entry_def)
  next
    case sealed
    note split = decode_sealed_entry [OF sealed(1) assms(9), folded sealed(2)]
    have "ec_utf8 C env" using assms(11,12) seal_ascii [OF sealed(1)] by blast
    note opened = this open_sealed_envelope [OF sealed(1) assms(2-6)]
    have "decode_log_entry E C s bytes = Some entry \<and> entry_fault E C s bytes = None"
      using split opened assms(7,8)
      by (simp add: decode_log_entry_def entry_fault_def open_entry_def)
    moreover have "\<exists>e. decode_log_entry E C s' bytes = Some e \<and> le_log_id e = le_log_id entry \<and>
        (\<forall>E C s nonce. encode_log_entry E C s nonce e = Inl (RefusedPlaceholder (le_log_id entry)))"
      if "entry_fault E C s' bytes \<noteq> None" for s'
      using that split assms(8)
      by (auto simp: decode_log_entry_def entry_fault_def encode_log_entry_def proposed_def
          sealed_placeholder_def is_sealed_placeholder_def split: sum.splits)
    ultimately show ?thesis by blast
  qed
qed

definition example_entry :: log_entry where
  "example_entry =
     \<lparr>le_log_id = 7, le_payload = Normal (proposed
        (cmd_put (namespaced [] ''v1'' ''Secret'' ''ns'' ''s'') (JObject []) Operator))\<rparr>"

definition example_entry_codec :: entry_codec where
  "example_entry_codec =
     \<lparr>ec_entry_to_vec = (\<lambda>e. ''{}''), ec_entry_from_slice = (\<lambda>s. Some example_entry),
      ec_id_to_vec = (\<lambda>n. ''7''), ec_id_from_slice = (\<lambda>s. Some 7), ec_utf8 = is_ascii\<rparr>"

definition example_bytes :: string where
  "example_bytes =
     projr (encode_log_entry example_seal_env example_entry_codec example_sealer
       (replicate 24 CHR ''n'') example_entry)"

theorem log_entry_roundtrip_witness:
  "decode_log_entry example_seal_env example_entry_codec example_sealer example_bytes =
    Some example_entry"
proof -
  have enc: "encode_log_entry example_seal_env example_entry_codec example_sealer
       (replicate 24 CHR ''n'') example_entry = Inr example_bytes" by code_simp
  have held: "ss_key example_sealer = Held example_cipher ''12345678''"
    by (simp add: example_sealer_def)
  have len: "length (replicate 24 CHR ''n'') = nonce_len" "length ''12345678'' = 8"
    by (simp_all add: nonce_len_def)
  have codec: "ec_entry_from_slice example_entry_codec
        (ec_entry_to_vec example_entry_codec example_entry) = Some example_entry"
      "ec_id_from_slice example_entry_codec
        (ec_id_to_vec example_entry_codec (le_log_id example_entry)) = Some (le_log_id example_entry)"
      "CHR 0x0A \<notin> set (ec_id_to_vec example_entry_codec (le_log_id example_entry))"
      "strip_prefix sealed_entry_prefix (ec_entry_to_vec example_entry_codec example_entry) = None"
    by code_simp+
  have ascii: "\<forall>x. is_ascii x \<longrightarrow> ec_utf8 example_entry_codec x"
      "\<forall>x. is_ascii (se_b64_encode example_seal_env x)"
    by (simp_all add: example_entry_codec_def example_seal_env_def is_ascii_to_hex)
  from log_entry_roundtrip [OF enc held example_seal_ok len codec ascii] show ?thesis by blast
qed

end
