(* ===== verification/Catalog.thy ===== *)
theory Catalog
  imports AtRest
begin

text \<open>
  The resource catalog (\<open>engenho-store/src/state.rs\<close>): the deterministic state machine the
  Raft group replicates. One definition per handler (\<open>apply_put\<close>, \<open>apply_patch\<close>,
  \<open>apply_ssa_command\<close>, \<open>apply_delete\<close>, \<open>apply_txn\<close>) on the catalog record, and
  \<open>apply_under\<close>, which composes them and commits their changes to the history.

  Third-party code is the record \<open>externals\<close>: the JSON text functions and the operation
  decoder of \<open>serde\<close>, and the hash. The strategic-merge schema is the catalog's own field
  \<open>patch_env\<close>, as in the code. Where the code renders a refusal to a message, the outcome
  keeps the value the message is rendered from (\<open>rejection\<close>).
\<close>

record externals =
  ext_text :: json_text
  ext_decode_ops :: op_decoder
  ext_blake3 :: "string \<Rightarrow> string"

section \<open>Reading and stamping objects\<close>

definition spec_of :: "json \<Rightarrow> json option" where
  "spec_of v = jget v ''spec''"

definition has_finalizers :: "json \<Rightarrow> bool" where
  "has_finalizers v =
     (case Option.bind (member2 ''metadata'' ''finalizers'' v) as_array of
        Some a \<Rightarrow> a \<noteq> []
      | None \<Rightarrow> False)"

definition deletion_timestamp_of :: "json \<Rightarrow> string option" where
  "deletion_timestamp_of v =
     (case Option.bind (member2 ''metadata'' ''deletionTimestamp'' v) as_str of
        Some s \<Rightarrow> (if s = [] then None else Some s)
      | None \<Rightarrow> None)"

definition finalizers_released :: "json \<Rightarrow> bool" where
  "finalizers_released post \<longleftrightarrow> deletion_timestamp_of post \<noteq> None \<and> \<not> has_finalizers post"

text \<open>
  \<open>metadata_mut\<close> with an update of the metadata object: an absent metadata is created
  empty first, and a value without a metadata object to update is left alone.
\<close>

definition update_metadata :: "(json_map \<Rightarrow> json_map) \<Rightarrow> json \<Rightarrow> json" where
  "update_metadata f v =
     (case v of
        JObject m \<Rightarrow>
          (case map_of m ''metadata'' of
             None \<Rightarrow> JObject (bm_insert ''metadata'' (JObject (f [])) m)
           | Some (JObject mm) \<Rightarrow> JObject (bm_insert ''metadata'' (JObject (f mm)) m)
           | Some _ \<Rightarrow> v)
      | _ \<Rightarrow> v)"

definition uid_namespace :: string where
  "uid_namespace = ''engenho.pleme.io/resource-uid/v1''"

text \<open>\<open>u64::to_be_bytes\<close>, at width 8.\<close>

fun be_bytes :: "nat \<Rightarrow> nat \<Rightarrow> string" where
  "be_bytes 0 n = []"
| "be_bytes (Suc w) n = be_bytes w (n div 256) @ [char_of n]"

definition mint_uid :: "externals \<Rightarrow> string \<Rightarrow> revision \<Rightarrow> string" where
  "mint_uid E key_label create_rev =
     (let b = ext_blake3 E (uid_namespace @ [CHR 0x00] @ key_label @ [CHR 0x00] @ be_bytes 8 create_rev);
          u = take 16 b;
          u6 = u[6 := char_of (of_char (u ! 6) mod 16 + (128::nat))];
          u8 = u6[8 := char_of (of_char (u6 ! 8) mod 64 + (128::nat))]
      in concat (map (\<lambda>(i, byte). (if i \<in> set [4, 6, 8, 10] then ''-'' else []) @ hex_byte byte)
           (enumerate 0 u8)))"

definition uid_set :: "json \<Rightarrow> bool" where
  "uid_set uid \<longleftrightarrow> \<not> (is_null uid \<or> as_str uid = Some [])"

definition stamp_identity :: "externals \<Rightarrow> resource_key \<Rightarrow> revision \<Rightarrow> json option \<Rightarrow> json \<Rightarrow> json" where
  "stamp_identity E key create_rev prior_value v =
     update_metadata (\<lambda>meta_obj.
       (let prior_meta = Option.bind prior_value (\<lambda>p. jget p ''metadata'');
            prior_uid = (case Option.bind prior_meta (\<lambda>m. jget m ''uid'') of
                           Some u \<Rightarrow> (if uid_set u then Some u else None)
                         | None \<Rightarrow> None);
            with_uid = (case prior_uid of
                          Some u \<Rightarrow> bm_insert ''uid'' u meta_obj
                        | None \<Rightarrow>
                            (if (case map_of meta_obj ''uid'' of Some u \<Rightarrow> uid_set u | None \<Rightarrow> False)
                             then meta_obj
                             else bm_insert ''uid'' (JString (mint_uid E (label key) create_rev)) meta_obj))
        in case Option.bind prior_meta (\<lambda>m. jget m ''creationTimestamp'') of
             Some t \<Rightarrow> bm_insert ''creationTimestamp'' t with_uid
           | None \<Rightarrow> with_uid)) v"

definition stamp_resource_version :: "revision \<Rightarrow> json \<Rightarrow> json" where
  "stamp_resource_version r v =
     update_metadata (bm_insert ''resourceVersion'' (JString (show_nat r))) v"

definition stamp_revision :: "revision \<Rightarrow> int \<Rightarrow> json \<Rightarrow> json" where
  "stamp_revision r gen v =
     update_metadata (bm_insert ''generation'' (JNumber (number_of_i64 gen)))
       (stamp_resource_version r v)"

definition stamp_deletion_timestamp :: "string \<Rightarrow> json \<Rightarrow> json" where
  "stamp_deletion_timestamp ts v = update_metadata (bm_insert ''deletionTimestamp'' (JString ts)) v"

definition generation_of :: "json \<Rightarrow> int" where
  "generation_of v =
     (case Option.bind (member2 ''metadata'' ''generation'' v) as_i64 of Some g \<Rightarrow> g | None \<Rightarrow> 0)"

definition compute_generation_on_put :: "json option \<Rightarrow> json \<Rightarrow> int" where
  "compute_generation_on_put prior next =
     (case prior of
        None \<Rightarrow> 1
      | Some p \<Rightarrow>
          (let prior_gen = max (generation_of p) 1
           in if spec_of p = spec_of next then prior_gen else prior_gen + 1))"

section \<open>Whether a write changes anything\<close>

definition check_precondition :: "revision option \<Rightarrow> version_meta option \<Rightarrow> bool" where
  "check_precondition expected live =
     (case expected of
        None \<Rightarrow> True
      | Some n \<Rightarrow> (case live of Some m \<Rightarrow> mod_revision m = n | None \<Rightarrow> False))"

definition computed_metadata :: "string list" where
  "computed_metadata = [''resourceVersion'', ''generation'']"

definition managed_fields_time :: string where
  "managed_fields_time = ''time''"

definition objects_equal_except ::
  "json \<Rightarrow> json \<Rightarrow> string list \<Rightarrow> (string \<Rightarrow> json \<Rightarrow> json \<Rightarrow> bool) \<Rightarrow> bool" where
  "objects_equal_except prior candidate ignored field_eq =
     (case (prior, candidate) of
        (JObject before, JObject after) \<Rightarrow>
          (let kept = (\<lambda>(k, v). k \<notin> set ignored)
           in length (filter kept before) = length (filter kept after) \<and>
              list_all (\<lambda>(k, b). case map_of after k of Some a \<Rightarrow> field_eq k b a | None \<Rightarrow> False)
                (filter kept before))
      | _ \<Rightarrow> prior = candidate)"

definition managed_fields_unchanged :: "json \<Rightarrow> json \<Rightarrow> string option \<Rightarrow> bool" where
  "managed_fields_unchanged prior candidate manager =
     (case (manager, prior, candidate) of
        (Some mgr, JArray before, JArray after) \<Rightarrow>
          (let callers = (\<lambda>e. Option.bind (jget e ''manager'') as_str = Some mgr)
           in length before = length after \<and>
              list_all (\<lambda>(b, a).
                 if callers b \<and> callers a
                 then objects_equal_except b a [managed_fields_time] (\<lambda>_ b a. b = a)
                 else b = a) (zip before after))
      | _ \<Rightarrow> prior = candidate)"

definition unchanged :: "json \<Rightarrow> json \<Rightarrow> string option \<Rightarrow> bool" where
  "unchanged prior candidate manager =
     objects_equal_except prior candidate [] (\<lambda>f p c.
       if f = ''metadata''
       then objects_equal_except p c computed_metadata (\<lambda>f p c.
              if f = ''managedFields'' then managed_fields_unchanged p c manager else p = c)
       else p = c)"

datatype on_identical = OnCommit | OnSkip

fun on_identical_under :: "apply_semantics \<Rightarrow> on_identical" where
  "on_identical_under V0 = OnCommit"
| "on_identical_under V1 = OnSkip"

definition skips :: "on_identical \<Rightarrow> json option \<Rightarrow> json \<Rightarrow> string option \<Rightarrow> bool" where
  "skips oi prior candidate manager =
     (case oi of
        OnCommit \<Rightarrow> False
      | OnSkip \<Rightarrow>
          (case prior of
             Some p \<Rightarrow> unchanged p candidate manager \<and> \<not> finalizers_released candidate
           | None \<Rightarrow> False))"

section \<open>The catalog and its outcomes\<close>

record unreadable_entry =
  ur_sealed :: "json \<times> version_meta"
  ur_fault :: seal_fault

record resource_catalog =
  resources :: "(resource_key, json \<times> version_meta) btree_map"
  last_applied_term :: nat
  last_applied_index :: nat
  history :: watch_history
  unreadable :: "(resource_key, unreadable_entry) btree_map"
  patch_env :: patch_schema_env

datatype rejection =
    RejPatch patch_error
  | RejNoManager
  | RejUnreadable resource_key seal_fault
  | RejCauses json

record apply_outcome =
  out_op :: resource_op
  out_change :: "change option"
  out_rejection :: "rejection option"
  out_extra :: "change list"

definition no_change :: "resource_op \<Rightarrow> apply_outcome" where
  "no_change op = \<lparr>out_op = op, out_change = None, out_rejection = None, out_extra = []\<rparr>"

definition committed :: "resource_op \<Rightarrow> change \<Rightarrow> change list \<Rightarrow> apply_outcome" where
  "committed op first rest =
     \<lparr>out_op = op, out_change = Some first, out_rejection = None, out_extra = rest\<rparr>"

definition with_change :: "resource_op \<Rightarrow> change \<Rightarrow> apply_outcome" where
  "with_change op c = committed op c []"

definition patch_rejected :: "rejection \<Rightarrow> apply_outcome" where
  "patch_rejected e =
     \<lparr>out_op = PatchRejected, out_change = None, out_rejection = Some e, out_extra = []\<rparr>"

definition apply_conflict :: "json \<Rightarrow> apply_outcome" where
  "apply_conflict causes =
     \<lparr>out_op = ApplyConflict, out_change = None, out_rejection = Some (RejCauses causes), out_extra = []\<rparr>"

definition out_changes :: "apply_outcome \<Rightarrow> change list" where
  "out_changes o' = (case out_change o' of Some c \<Rightarrow> [c] | None \<Rightarrow> []) @ out_extra o'"

definition catalog_new :: "nat \<Rightarrow> patch_schema_env \<Rightarrow> resource_catalog" where
  "catalog_new history_capacity env =
     \<lparr>resources = [], last_applied_term = 0, last_applied_index = 0,
      history = wh_new (if history_capacity = 0 then 1 else history_capacity), unreadable = [],
      patch_env = env\<rparr>"

definition cat_revision :: "resource_catalog \<Rightarrow> revision" where
  "cat_revision cat = wh_head (history cat)"

section \<open>The handlers\<close>

definition put_entry ::
  "resource_key \<Rightarrow> json \<Rightarrow> version_meta \<Rightarrow> resource_catalog \<Rightarrow> resource_catalog" where
  "put_entry key v vm cat = cat\<lparr>resources := bm_insert key (v, vm) (resources cat)\<rparr>"

definition remove_entry :: "resource_key \<Rightarrow> resource_catalog \<Rightarrow> resource_catalog" where
  "remove_entry key cat = cat\<lparr>resources := bm_remove key (resources cat)\<rparr>"

definition finalizer_release_removal ::
  "resource_catalog \<Rightarrow> resource_key \<Rightarrow> json \<Rightarrow> json option \<Rightarrow> revision
    \<Rightarrow> (resource_catalog \<times> apply_outcome) option" where
  "finalizer_release_removal cat key post prior r =
     (if prior = None \<or> \<not> finalizers_released post then None
      else (let removed_meta = (case map_of (resources cat) key of
                                  Some (_, vm) \<Rightarrow> vm
                                | None \<Rightarrow> created_at r)
            in Some (remove_entry key cat,
                     with_change Deleted
                       \<lparr>ch_revision = r, ch_key = key, ch_kind = ChDelete, ch_value = post,
                        ch_prior = Some post, ch_meta = removed_meta\<rparr>)))"

definition version_meta_at :: "version_meta option \<Rightarrow> revision \<Rightarrow> version_meta" where
  "version_meta_at prior_meta r =
     (case prior_meta of Some vm \<Rightarrow> bumped_at vm r | None \<Rightarrow> created_at r)"

text \<open>The store-and-emit step every write ends with.\<close>

definition store_and_emit ::
  "resource_catalog \<Rightarrow> resource_key \<Rightarrow> json \<Rightarrow> json option \<Rightarrow> version_meta \<Rightarrow> resource_op \<Rightarrow> revision
    \<Rightarrow> resource_catalog \<times> apply_outcome" where
  "store_and_emit cat key v prior vm op r =
     (put_entry key v vm cat,
      with_change op
        \<lparr>ch_revision = r, ch_key = key, ch_kind = ChPut, ch_value = v, ch_prior = prior,
         ch_meta = vm\<rparr>)"

definition apply_put ::
  "externals \<Rightarrow> resource_catalog \<Rightarrow> resource_key \<Rightarrow> json \<Rightarrow> revision option \<Rightarrow> on_identical \<Rightarrow> revision
    \<Rightarrow> resource_catalog \<times> apply_outcome" where
  "apply_put E cat key v expected oi r =
     (let prior_entry = map_of (resources cat) key;
          prior_value = map_option fst prior_entry;
          prior_meta = map_option snd prior_entry
      in if \<not> check_precondition expected prior_meta then (cat, no_change Conflict)
         else
           (let vm = version_meta_at prior_meta r;
                new_value = stamp_identity E key (create_revision vm) prior_value v
            in if skips oi prior_value new_value None then (cat, no_change Unchanged)
               else
                 (let gen = compute_generation_on_put prior_value v;
                      stamped = stamp_revision r gen new_value
                  in case finalizer_release_removal cat key stamped prior_value r of
                       Some out \<Rightarrow> out
                     | None \<Rightarrow>
                         store_and_emit cat key stamped prior_value vm
                           (if prior_value \<noteq> None then Replaced else Created) r)))"

definition apply_ssa_command ::
  "externals \<Rightarrow> resource_catalog \<Rightarrow> resource_key \<Rightarrow> json \<Rightarrow> apply_meta \<Rightarrow> revision option
    \<Rightarrow> on_identical \<Rightarrow> revision \<Rightarrow> resource_catalog \<times> apply_outcome" where
  "apply_ssa_command E cat key body meta expected oi r =
     (let prior_entry = map_of (resources cat) key;
          prior_value = map_option fst prior_entry;
          prior_meta = map_option snd prior_entry
      in if \<not> check_precondition expected prior_meta then (cat, no_change Conflict)
         else
           (case apply_ssa (ext_text E) prior_value body (am_manager meta) (am_force meta)
                   (gvk_of_key key) (patch_env cat) (am_time meta) of
              Inl conflicts \<Rightarrow> (cat, apply_conflict (to_causes conflicts))
            | Inr ssa_out \<Rightarrow>
                (let vm = version_meta_at prior_meta r;
                     candidate = stamp_identity E key (create_revision vm) prior_value (merged ssa_out)
                 in if skips oi prior_value candidate (Some (am_manager meta))
                    then (cat, no_change Unchanged)
                    else
                      (let gen = compute_generation_on_put prior_value candidate;
                           stamped = stamp_revision r gen candidate
                       in case finalizer_release_removal cat key stamped prior_value r of
                            Some out \<Rightarrow> out
                          | None \<Rightarrow>
                              store_and_emit cat key stamped prior_value vm
                                (if prior_value \<noteq> None then Patched else Created) r))))"

definition apply_patch ::
  "externals \<Rightarrow> resource_catalog \<Rightarrow> resource_key \<Rightarrow> json \<Rightarrow> patch_type \<Rightarrow> apply_meta option
    \<Rightarrow> revision option \<Rightarrow> on_identical \<Rightarrow> revision \<Rightarrow> resource_catalog \<times> apply_outcome" where
  "apply_patch E cat key patch pt meta expected oi r =
     (if pt = PtApply
      then (case meta of
              None \<Rightarrow> (cat, patch_rejected RejNoManager)
            | Some am \<Rightarrow> apply_ssa_command E cat key patch am expected oi r)
      else
        (case map_of (resources cat) key of
           None \<Rightarrow> (cat, no_change (if expected \<noteq> None then Conflict else NoOp))
         | Some (existing, existing_meta) \<Rightarrow>
             (if \<not> check_precondition expected (Some existing_meta) then (cat, no_change Conflict)
              else
                (case patch_body_from_raw (ext_decode_ops E) pt patch of
                   Inl e \<Rightarrow> (cat, patch_rejected (RejPatch e))
                 | Inr body \<Rightarrow>
                     (case patch_apply (patch_env cat) (gvk_of_key key) pt existing body of
                        Inl e \<Rightarrow> (cat, patch_rejected (RejPatch e))
                      | Inr doc \<Rightarrow>
                          (if skips oi (Some existing) doc None then (cat, no_change Unchanged)
                           else
                             (let gen = compute_generation_on_put (Some existing) doc;
                                  stamped = stamp_revision r gen doc
                              in case finalizer_release_removal cat key stamped (Some existing) r of
                                   Some out \<Rightarrow> out
                                 | None \<Rightarrow>
                                     store_and_emit cat key stamped (Some existing)
                                       (bumped_at existing_meta r) Patched r)))))))"

definition apply_delete ::
  "resource_catalog \<Rightarrow> resource_key \<Rightarrow> revision option \<Rightarrow> string option \<Rightarrow> revision
    \<Rightarrow> resource_catalog \<times> apply_outcome" where
  "apply_delete cat key expected deletion_timestamp r =
     (if \<not> check_precondition expected (map_option snd (map_of (resources cat) key))
      then (cat, no_change Conflict)
      else
        (case map_of (resources cat) key of
           None \<Rightarrow> (cat, no_change NoOp)
         | Some (live, live_meta) \<Rightarrow>
             (if \<not> has_finalizers live
              then (remove_entry key cat,
                    with_change Deleted
                      \<lparr>ch_revision = r, ch_key = key, ch_kind = ChDelete, ch_value = live,
                       ch_prior = Some live, ch_meta = live_meta\<rparr>)
              else if deletion_timestamp_of live \<noteq> None then (cat, no_change NoOp)
              else
                (case deletion_timestamp of
                   None \<Rightarrow> (cat, no_change NoOp)
                 | Some ts \<Rightarrow>
                     store_and_emit cat key
                       (stamp_resource_version r (stamp_deletion_timestamp ts live)) (Some live)
                       (bumped_at live_meta r) DeletionPending r))))"

definition eval_compare :: "resource_catalog \<Rightarrow> txn_compare \<Rightarrow> bool" where
  "eval_compare cat cmp =
     (case cmp of
        ModRevisionEq key r \<Rightarrow>
          (case map_of (resources cat) key of Some (_, vm) \<Rightarrow> mod_revision vm = r | None \<Rightarrow> False)
      | NotExists key \<Rightarrow> map_of (resources cat) key = None)"

definition apply_txn_op ::
  "externals \<Rightarrow> resource_catalog \<Rightarrow> txn_op \<Rightarrow> revision \<Rightarrow> resource_catalog \<times> apply_outcome" where
  "apply_txn_op E cat op r =
     (case op of
        TxnPut key v \<Rightarrow> apply_put E cat key v None OnCommit r
      | TxnDelete key ts \<Rightarrow> apply_delete cat key None ts r)"

fun apply_txn_ops ::
  "externals \<Rightarrow> resource_catalog \<Rightarrow> txn_op list \<Rightarrow> revision \<Rightarrow> resource_catalog \<times> change list" where
  "apply_txn_ops E cat [] r = (cat, [])"
| "apply_txn_ops E cat (op # ops) r =
     (let (cat', out) = apply_txn_op E cat op r;
          (cat'', cs) = apply_txn_ops E cat' ops r
      in (cat'', (case out_change out of Some c \<Rightarrow> c # cs | None \<Rightarrow> cs)))"

definition apply_txn ::
  "externals \<Rightarrow> resource_catalog \<Rightarrow> txn_compare list \<Rightarrow> txn_op list \<Rightarrow> txn_op list \<Rightarrow> revision
    \<Rightarrow> resource_catalog \<times> apply_outcome" where
  "apply_txn E cat compares success failure r =
     (let branch = (if list_all (eval_compare cat) compares then success else failure);
          (cat', changes) = apply_txn_ops E cat branch r
      in case changes of
           [] \<Rightarrow> (cat', no_change NoOp)
         | first # rest \<Rightarrow> (cat', committed Replaced first rest))"

definition secret_fault :: "resource_catalog \<Rightarrow> resource_key \<Rightarrow> seal_fault option" where
  "secret_fault cat key = map_option ur_fault (map_of (unreadable cat) key)"

fun find_map :: "('a \<Rightarrow> 'b option) \<Rightarrow> 'a list \<Rightarrow> 'b option" where
  "find_map f [] = None"
| "find_map f (x # xs) = (case f x of Some y \<Rightarrow> Some y | None \<Rightarrow> find_map f xs)"

definition unreadable_touched_by ::
  "resource_catalog \<Rightarrow> resource_command \<Rightarrow> (resource_key \<times> seal_fault) option" where
  "unreadable_touched_by cat cmd =
     (if unreadable cat = [] then None
      else find_map (\<lambda>key. map_option (Pair key) (secret_fault cat key)) (command_keys cmd))"

definition dispatch ::
  "externals \<Rightarrow> resource_catalog \<Rightarrow> resource_command \<Rightarrow> on_identical \<Rightarrow> revision
    \<Rightarrow> resource_catalog \<times> apply_outcome" where
  "dispatch E cat cmd oi r =
     (case cmd of
        CmdPut key v expected _ \<Rightarrow> apply_put E cat key v expected oi r
      | CmdPatch key patch pt meta expected _ \<Rightarrow> apply_patch E cat key patch pt meta expected oi r
      | CmdDelete key expected _ ts \<Rightarrow> apply_delete cat key expected ts r
      | CmdTxn compares success failure _ \<Rightarrow> apply_txn E cat compares success failure r)"

definition apply_under ::
  "externals \<Rightarrow> resource_catalog \<Rightarrow> resource_command \<Rightarrow> apply_semantics \<Rightarrow> nat \<Rightarrow> nat
    \<Rightarrow> resource_catalog \<times> apply_outcome" where
  "apply_under E cat cmd sem term_no index =
     (let applied = (\<lambda>cat. cat\<lparr>last_applied_term := term_no, last_applied_index := index\<rparr>)
      in case unreadable_touched_by cat cmd of
           Some (key, fault) \<Rightarrow> (applied cat, patch_rejected (RejUnreadable key fault))
         | None \<Rightarrow>
             (let r = wh_next_revision (history cat);
                  (cat', out) = dispatch E cat cmd (on_identical_under sem) r;
                  cat'' = applied cat'
              in (case out_change out of
                    Some c \<Rightarrow> cat''\<lparr>history := wh_commit (history cat'') c (out_extra out)\<rparr>
                  | None \<Rightarrow> cat'',
                  out)))"

definition apply_logged ::
  "externals \<Rightarrow> resource_catalog \<Rightarrow> logged_command \<Rightarrow> nat \<Rightarrow> nat \<Rightarrow> resource_catalog \<times> apply_outcome" where
  "apply_logged E cat entry term_no index =
     apply_under E cat (lc_command entry) (lc_semantics entry) term_no index"

definition cat_compact :: "resource_catalog \<Rightarrow> revision \<Rightarrow> resource_catalog \<times> revision" where
  "cat_compact cat target =
     (let (h, floor_rev) = wh_compact (history cat) target in (cat\<lparr>history := h\<rparr>, floor_rev))"

definition cat_apply ::
  "externals \<Rightarrow> resource_catalog \<Rightarrow> resource_command \<Rightarrow> nat \<Rightarrow> nat \<Rightarrow> resource_catalog \<times> apply_outcome" where
  "cat_apply E cat cmd term_no index = apply_under E cat cmd current_semantics term_no index"

end
