(* ===== verification/Changes.thy ===== *)
theory Changes
  imports Catalog
begin

text \<open>
  What the handlers of the catalog promise, stated once: a handler either leaves the catalog
  alone and commits nothing, or commits changes that describe exactly what it did to the
  stored resources. The promise of a handler that touches one key is the locale
  \<open>single_write\<close>, interpreted on each handler of \<open>state.rs\<close>; \<open>dispatch\<close> and
  \<open>apply_under\<close> inherit it for every command.
\<close>

section \<open>Stamping\<close>

text \<open>The metadata members of a document, none when it has no metadata object.\<close>

definition metadata_members :: "json \<Rightarrow> json_map" where
  "metadata_members v = (case jget v ''metadata'' of Some (JObject mm) \<Rightarrow> mm | _ \<Rightarrow> [])"

lemma stampable_update_metadata [simp]: "stampable (update_metadata f v) = stampable v"
  by (cases v) (auto simp: stampable_def update_metadata_def split: option.splits json.splits)

lemma metadata_members_update:
  "stampable v \<Longrightarrow> metadata_members (update_metadata f v) = f (metadata_members v)"
  by (cases v) (auto simp: stampable_def update_metadata_def metadata_members_def split: option.splits json.splits)

lemma jget_update_metadata_other:
  "k \<noteq> ''metadata'' \<Longrightarrow> jget (update_metadata f v) k = jget v k"
  by (cases v) (auto simp: update_metadata_def split: option.splits json.splits)

lemma member2_metadata:
  "stampable v \<Longrightarrow> member2 ''metadata'' k v = map_of (metadata_members v) k"
  by (cases v) (auto simp: stampable_def metadata_members_def member2_def is_object_iff
      split: option.splits)

text \<open>A document that can carry it carries the revision as its \<open>resourceVersion\<close>.\<close>

definition stamped :: "revision \<Rightarrow> json \<Rightarrow> bool" where
  "stamped r v \<longleftrightarrow>
     (stampable v \<longrightarrow> member2 ''metadata'' ''resourceVersion'' v = Some (JString (show_nat r)))"

lemma stamped_stamp_resource_version: "stamped r (stamp_resource_version r v)"
  by (simp add: stamped_def stamp_resource_version_def member2_metadata metadata_members_update)

lemma stamped_stamp_revision: "stamped r (stamp_revision r g v)"
  by (simp add: stamped_def stamp_revision_def stamp_resource_version_def member2_metadata
      metadata_members_update)

section \<open>What a change says\<close>

type_synonym stored = "(resource_key, json \<times> version_meta) btree_map"

text \<open>The effect of a change on the stored resources, as a reader of the log replays it.\<close>

definition apply_change :: "change \<Rightarrow> stored \<Rightarrow> stored" where
  "apply_change c m =
     (case ch_kind c of
        ChPut \<Rightarrow> bm_insert (ch_key c) (ch_value c, ch_meta c) m
      | ChDelete \<Rightarrow> bm_remove (ch_key c) m)"

abbreviation replay :: "change list \<Rightarrow> stored \<Rightarrow> stored" where
  "replay cs m \<equiv> fold apply_change cs m"

text \<open>
  A change describes the write of revision \<open>r\<close> on the resources \<open>m\<close>: its key was stored
  with the metadata it continues, the object it stores carries the revision, and the
  pre-image it carries is the stored value. A removal is of an object without finalizers:
  the stored object, or the object a write released from its last finalizer, which then is
  also the pre-image the change carries.
\<close>

definition describes :: "stored \<Rightarrow> revision \<Rightarrow> change \<Rightarrow> bool" where
  "describes m r c \<longleftrightarrow>
     ch_revision c = r \<and>
     (case ch_kind c of
        ChPut \<Rightarrow>
          ch_prior c = map_option fst (map_of m (ch_key c)) \<and>
          ch_meta c = version_meta_at (map_option snd (map_of m (ch_key c))) r \<and>
          stamped r (ch_value c)
      | ChDelete \<Rightarrow>
          \<not> has_finalizers (ch_value c) \<and>
          (\<exists>v. map_of m (ch_key c) = Some (v, ch_meta c) \<and>
             (ch_value c = v \<and> ch_prior c = Some v \<or>
              finalizers_released (ch_value c) \<and> ch_prior c = Some (ch_value c))))"

fun describe_all :: "stored \<Rightarrow> revision \<Rightarrow> change list \<Rightarrow> bool" where
  "describe_all m r [] = True"
| "describe_all m r (c # cs) \<longleftrightarrow> describes m r c \<and> describe_all (apply_change c m) r cs"

lemma describes_revision: "describes m r c \<Longrightarrow> ch_revision c = r"
  by (simp add: describes_def)

lemma describe_all_revision: "describe_all m r cs \<Longrightarrow> c \<in> set cs \<Longrightarrow> ch_revision c = r"
  by (induction cs arbitrary: m) (auto dest: describes_revision)

lemma describe_all_append:
  "describe_all m r (cs @ ds) \<longleftrightarrow> describe_all m r cs \<and> describe_all (replay cs m) r ds"
  by (induction cs arbitrary: m) auto

definition changes_since ::
  "resource_catalog \<Rightarrow> revision \<Rightarrow> (compacted_too_old, change list) result" where
  "changes_since cat rv = wh_since (history cat) rv"

section \<open>The contract of a handler of one key\<close>

definition enact :: "change list \<Rightarrow> resource_catalog \<Rightarrow> resource_catalog" where
  "enact cs cat = cat\<lparr>resources := replay cs (resources cat)\<rparr>"

lemma enact_simps [simp]:
  "resources (enact cs cat) = replay cs (resources cat)"
  "history (enact cs cat) = history cat"
  "unreadable (enact cs cat) = unreadable cat"
  "patch_env (enact cs cat) = patch_env cat"
  "last_applied_term (enact cs cat) = last_applied_term cat"
  "last_applied_index (enact cs cat) = last_applied_index cat"
  "enact [] cat = cat"
  by (simp_all add: enact_def)

lemma enact_enact [simp]: "enact ds (enact cs cat) = enact (cs @ ds) cat"
  by (simp add: enact_def)

locale single_write =
  fixes key :: resource_key
    and handle :: "resource_catalog \<Rightarrow> revision \<Rightarrow> resource_catalog \<times> apply_outcome"
  assumes contract: "handle cat r = (cat', out) \<Longrightarrow>
      out_extra out = [] \<and>
      (case out_change out of
         None \<Rightarrow> cat' = cat
       | Some c \<Rightarrow> ch_key c = key \<and> describes (resources cat) r c \<and> cat' = enact [c] cat)"
begin

lemma change_keys: "handle cat r = (cat', out) \<Longrightarrow> c \<in> set (out_changes out) \<Longrightarrow> ch_key c = key"
  using contract [of cat r cat' out] by (auto simp: out_changes_def split: option.splits)

lemma changes: "handle cat r = (cat', out) \<Longrightarrow>
    describe_all (resources cat) r (out_changes out) \<and> cat' = enact (out_changes out) cat"
  using contract [of cat r cat' out] by (auto simp: out_changes_def split: option.splits)

end

lemma outcome_simps [simp]:
  "out_op (no_change op) = op" "out_change (no_change op) = None" "out_extra (no_change op) = []"
  "out_rejection (no_change op) = None"
  "out_op (with_change op c) = op" "out_change (with_change op c) = Some c"
  "out_extra (with_change op c) = []" "out_rejection (with_change op c) = None"
  "out_op (committed op c cs) = op" "out_change (committed op c cs) = Some c"
  "out_extra (committed op c cs) = cs" "out_rejection (committed op c cs) = None"
  "out_op (patch_rejected e) = PatchRejected" "out_change (patch_rejected e) = None"
  "out_extra (patch_rejected e) = []" "out_rejection (patch_rejected e) = Some e"
  "out_op (apply_conflict j) = ApplyConflict" "out_change (apply_conflict j) = None"
  "out_extra (apply_conflict j) = []" "out_rejection (apply_conflict j) = Some (RejCauses j)"
  by (simp_all add: no_change_def with_change_def committed_def patch_rejected_def apply_conflict_def)

lemma out_changes_simps [simp]:
  "out_changes (no_change op) = []" "out_changes (with_change op c) = [c]"
  "out_changes (committed op c cs) = c # cs" "out_changes (patch_rejected e) = []"
  "out_changes (apply_conflict j) = []"
  by (simp_all add: out_changes_def)

definition fulfils :: "resource_key \<Rightarrow> resource_catalog \<Rightarrow> revision \<Rightarrow> resource_catalog \<times> apply_outcome \<Rightarrow> bool" where
  "fulfils key cat r res \<longleftrightarrow>
     out_extra (snd res) = [] \<and>
     (case out_change (snd res) of
        None \<Rightarrow> fst res = cat
      | Some c \<Rightarrow> ch_key c = key \<and> describes (resources cat) r c \<and> fst res = enact [c] cat)"

lemma fulfils_no_change [simp]:
  "fulfils key cat r (cat, no_change op)" "fulfils key cat r (cat, patch_rejected e)"
  "fulfils key cat r (cat, apply_conflict j)"
  by (simp_all add: fulfils_def)

lemma fulfils_store:
  "prior = map_option fst (map_of (resources cat) key) \<Longrightarrow>
    vm = version_meta_at (map_option snd (map_of (resources cat) key)) r \<Longrightarrow> stamped r v \<Longrightarrow>
    fulfils key cat r (store_and_emit cat key v prior vm op r)"
  by (simp add: fulfils_def store_and_emit_def describes_def enact_def apply_change_def put_entry_def)

lemma fulfils_release:
  "finalizer_release_removal cat key post (map_option fst (map_of (resources cat) key)) r = Some res
    \<Longrightarrow> fulfils key cat r res"
  by (auto simp: finalizer_release_removal_def fulfils_def describes_def enact_def apply_change_def
      remove_entry_def finalizers_released_def Let_def split: if_splits option.splits)

lemma fulfils_remove:
  "map_of (resources cat) key = Some (v, vm) \<Longrightarrow> \<not> has_finalizers v \<Longrightarrow>
    fulfils key cat r (remove_entry key cat, with_change Deleted
      \<lparr>ch_revision = r, ch_key = key, ch_kind = ChDelete, ch_value = v, ch_prior = Some v,
       ch_meta = vm\<rparr>)"
  by (simp add: fulfils_def describes_def enact_def apply_change_def remove_entry_def)

text \<open>The same for a key known to be stored.\<close>

lemma fulfils_update:
  assumes "map_of (resources cat) key = Some (v, vm)"
  shows "stamped r w \<Longrightarrow> fulfils key cat r (store_and_emit cat key w (Some v) (bumped_at vm r) op r)"
    and "finalizer_release_removal cat key post (Some v) r = Some res \<Longrightarrow> fulfils key cat r res"
  using assms fulfils_store [of "Some v" cat key "bumped_at vm r" r w op] fulfils_release [of cat key post r res]
  by (simp_all add: version_meta_at_def)

lemma fulfils_put: "fulfils key cat r (apply_put E cat key v expected oi r)"
  by (auto simp: apply_put_def Let_def intro: fulfils_store fulfils_release stamped_stamp_revision split: option.split)

lemma fulfils_ssa: "fulfils key cat r (apply_ssa_command E cat key body meta expected oi r)"
  by (auto simp: apply_ssa_command_def Let_def intro: fulfils_store fulfils_release stamped_stamp_revision
      split: option.split sum.split)

lemma fulfils_patch: "fulfils key cat r (apply_patch E cat key patch pt meta expected oi r)"
proof (cases "pt = PtApply")
  case True
  then show ?thesis by (auto simp: apply_patch_def fulfils_ssa split: option.splits)
next
  case False
  show ?thesis
  proof (cases "map_of (resources cat) key")
    case None
    with False show ?thesis by (simp add: apply_patch_def)
  next
    case (Some e)
    obtain v vm where e: "map_of (resources cat) key = Some (v, vm)" using Some by (cases e) auto
    show ?thesis
      using False
      by (auto simp: apply_patch_def Let_def e intro: fulfils_update [OF e] stamped_stamp_revision
          split: option.split sum.split)
  qed
qed

lemma fulfils_delete: "fulfils key cat r (apply_delete cat key expected ts r)"
proof (cases "map_of (resources cat) key")
  case None
  then show ?thesis by (simp add: apply_delete_def)
next
  case (Some e)
  obtain v vm where e: "map_of (resources cat) key = Some (v, vm)" using Some by (cases e) auto
  show ?thesis
    by (auto simp: apply_delete_def e intro: fulfils_update(1) [OF e] fulfils_remove [OF e]
        stamped_stamp_resource_version
        split: option.split)
qed

lemma single_writeI:
  assumes "\<And>cat r. fulfils key cat r (h cat r)"
  shows "single_write key h"
proof
  fix cat r cat' out
  assume "h cat r = (cat', out)"
  with assms [of cat r] show "out_extra out = [] \<and> (case out_change out of None \<Rightarrow> cat' = cat
      | Some c \<Rightarrow> ch_key c = key \<and> describes (resources cat) r c \<and> cat' = enact [c] cat)"
    by (cases "out_change out") (simp_all add: fulfils_def)
qed

interpretation put: single_write key "\<lambda>cat r. apply_put E cat key v expected oi r"
  for E key v expected oi
  by (rule single_writeI) (rule fulfils_put)

interpretation ssa: single_write key "\<lambda>cat r. apply_ssa_command E cat key body meta expected oi r"
  for E key body meta expected oi
  by (rule single_writeI) (rule fulfils_ssa)

interpretation patch: single_write key "\<lambda>cat r. apply_patch E cat key p pt meta expected oi r"
  for E key p pt meta expected oi
  by (rule single_writeI) (rule fulfils_patch)

interpretation delete: single_write key "\<lambda>cat r. apply_delete cat key expected ts r"
  for key expected ts
  by (rule single_writeI) (rule fulfils_delete)

section \<open>Transactions and commands\<close>

lemma apply_txn_op_keys:
  "apply_txn_op E cat op r = (cat', out) \<Longrightarrow> c \<in> set (out_changes out) \<Longrightarrow> ch_key c = txn_op_key op"
  by (cases op) (auto simp: apply_txn_op_def dest: put.change_keys delete.change_keys)

lemma apply_txn_op_changes:
  assumes "apply_txn_op E cat op r = (cat', out)"
  shows "out_extra out = [] \<and> describe_all (resources cat) r (out_changes out) \<and>
    cat' = enact (out_changes out) cat"
  using assms put.changes put.contract delete.changes delete.contract
  by (cases op) (fastforce simp: apply_txn_op_def)+

lemma apply_txn_ops_changes:
  "apply_txn_ops E cat ops r = (cat', cs) \<Longrightarrow> describe_all (resources cat) r cs \<and> cat' = enact cs cat"
proof (induction ops arbitrary: cat cs)
  case (Cons op ops)
  obtain cat1 out where op: "apply_txn_op E cat op r = (cat1, out)" by fastforce
  obtain cs1 where ops: "apply_txn_ops E cat1 ops r = (cat', cs1)" and "cs = out_changes out @ cs1"
    using Cons.prems op apply_txn_op_changes [OF op]
    by (auto simp: Let_def out_changes_def split: prod.splits option.splits)
  then show ?case
    using apply_txn_op_changes [OF op] Cons.IH [OF ops] by (simp add: describe_all_append)
qed simp

lemma apply_txn_ops_keys:
  "apply_txn_ops E cat ops r = (cat', cs) \<Longrightarrow> ch_key ` set cs \<subseteq> txn_op_key ` set ops"
proof (induction ops arbitrary: cat cs)
  case (Cons op ops)
  obtain cat1 out where op: "apply_txn_op E cat op r = (cat1, out)" by fastforce
  obtain cs1 where ops: "apply_txn_ops E cat1 ops r = (cat', cs1)"
    and "set cs \<subseteq> set (out_changes out) \<union> set cs1"
    using Cons.prems op that
    by (cases "apply_txn_ops E cat1 ops r") (fastforce simp: Let_def out_changes_def split: option.splits)
  then show ?case
    using apply_txn_op_keys [OF op] Cons.IH [OF ops] by fastforce
qed simp

lemma apply_txn_changes:
  assumes "apply_txn E cat compares success failure r = (cat', out)"
  shows "describe_all (resources cat) r (out_changes out) \<and> cat' = enact (out_changes out) cat"
proof -
  let ?branch = "if list_all (eval_compare cat) compares then success else failure"
  obtain cs where ops: "apply_txn_ops E cat ?branch r = (cat', cs)" and "out_changes out = cs"
    using assms by (auto simp: apply_txn_def Let_def split: prod.splits list.splits)
  with apply_txn_ops_changes [OF ops] show ?thesis by simp
qed

lemma dispatch_changes:
  assumes "dispatch E cat cmd oi r = (cat', out)"
  shows "describe_all (resources cat) r (out_changes out) \<and> cat' = enact (out_changes out) cat"
  using assms
  by (cases cmd; simp add: dispatch_def)
    (erule put.changes patch.changes delete.changes apply_txn_changes)+

lemma dispatch_keys:
  assumes "dispatch E cat cmd oi r = (cat', out)"
  shows "ch_key ` set (out_changes out) \<subseteq> set (command_keys cmd)"
proof (cases cmd)
  case (CmdTxn compares success failure reason)
  let ?branch = "if list_all (eval_compare cat) compares then success else failure"
  obtain cs where ops: "apply_txn_ops E cat ?branch r = (cat', cs)" and "out_changes out = cs"
    using assms CmdTxn
    by (auto simp: dispatch_def apply_txn_def Let_def split: prod.splits list.splits)
  with apply_txn_ops_keys [OF ops] CmdTxn show ?thesis by (auto split: if_splits)
qed (use assms in \<open>auto simp: dispatch_def dest: put.change_keys patch.change_keys delete.change_keys\<close>)

lemma no_change_no_extra:
  assumes "dispatch E cat cmd oi r = (cat', out)" and "out_change out = None"
  shows "out_changes out = []"
  using assms
  by (cases cmd)
    (auto simp: dispatch_def out_changes_def apply_txn_def Let_def
      dest!: put.contract patch.contract delete.contract split: prod.splits list.splits)

text \<open>One applied entry: what it does to every field of the catalog.\<close>

lemma apply_under_changes:
  assumes "apply_under E cat cmd sem t i = (cat', out)"
  shows "describe_all (resources cat) (wh_next_revision (history cat)) (out_changes out)"
    and "cat' = (enact (out_changes out) cat)
        \<lparr>last_applied_term := t, last_applied_index := i,
         history := (case out_changes out of
                       [] \<Rightarrow> history cat
                     | c # cs \<Rightarrow> wh_commit (history cat) c cs)\<rparr>"
proof -
  let ?r = "wh_next_revision (history cat)"
  consider (refused) key fault where "unreadable_touched_by cat cmd = Some (key, fault)"
    | (applied) cat1 where "unreadable_touched_by cat cmd = None"
        "dispatch E cat cmd (on_identical_under sem) ?r = (cat1, out)"
    using assms by (cases "unreadable_touched_by cat cmd")
      (auto simp: apply_under_def Let_def split: prod.splits)
  then have "describe_all (resources cat) ?r (out_changes out) \<and>
    cat' = (enact (out_changes out) cat)
        \<lparr>last_applied_term := t, last_applied_index := i,
         history := (case out_changes out of
                       [] \<Rightarrow> history cat
                     | c # cs \<Rightarrow> wh_commit (history cat) c cs)\<rparr>"
  proof cases
    case refused
    with assms show ?thesis by (auto simp: apply_under_def Let_def)
  next
    case applied
    note d = dispatch_changes [OF applied(2)]
    show ?thesis
    proof (cases "out_change out")
      case None
      with applied assms d no_change_no_extra [OF applied(2) None] show ?thesis
        by (auto simp: apply_under_def Let_def)
    next
      case (Some c)
      then have "out_changes out = c # out_extra out" by (simp add: out_changes_def)
      with applied assms d Some show ?thesis by (auto simp: apply_under_def Let_def)
    qed
  qed
  then show "describe_all (resources cat) ?r (out_changes out)"
    and "cat' = (enact (out_changes out) cat)
        \<lparr>last_applied_term := t, last_applied_index := i,
         history := (case out_changes out of
                       [] \<Rightarrow> history cat
                     | c # cs \<Rightarrow> wh_commit (history cat) c cs)\<rparr>" by blast+
qed

end
