(* ===== verification/Image.thy ===== *)
theory Image
  imports Changes
begin

text \<open>
  The catalog on disk and in a snapshot (\<open>engenho-store/src/state.rs\<close>: the serialized form,
  \<open>to_rest_bytes\<close>, \<open>Deserialize\<close> and \<open>open_sealed\<close>). An image is the value the code hands to
  \<open>serde_json\<close>; its bytes are not modelled. Sealed kinds are encrypted in the image, and what
  a store cannot open again it keeps sealed, apart from the resources.

  A random nonce is drawn per sealed value; it is an argument, per key.
\<close>

section \<open>Writing an image\<close>

record catalog_image =
  img_resources :: "(resource_key \<times> json \<times> version_meta) list"
  img_last_applied_term :: nat
  img_last_applied_index :: nat
  img_current_revision :: revision
  img_compacted_revision :: revision

fun render_all ::
  "(resource_key \<Rightarrow> json \<Rightarrow> ('e, json) result) \<Rightarrow> stored \<Rightarrow> ('e, stored) result" where
  "render_all render [] = Inr []"
| "render_all render ((key, v, vm) # m) =
     (case render key v of
        Inl e \<Rightarrow> Inl e
      | Inr w \<Rightarrow> map_sum id (Cons (key, w, vm)) (render_all render m))"

definition cat_repr ::
  "(resource_key \<Rightarrow> json \<Rightarrow> ('e, json) result) \<Rightarrow> resource_catalog \<Rightarrow> ('e, catalog_image) result" where
  "cat_repr render cat =
     (case render_all render (resources cat) of
        Inl e \<Rightarrow> Inl e
      | Inr rs \<Rightarrow>
          Inr \<lparr>img_resources =
                 (if unreadable cat = [] then rs
                  else sort_key fst (rs @ map (\<lambda>(key, entry). (key, ur_sealed entry)) (unreadable cat))),
               img_last_applied_term = last_applied_term cat,
               img_last_applied_index = last_applied_index cat,
               img_current_revision = wh_head (history cat),
               img_compacted_revision = wh_floor (history cat)\<rparr>)"

definition to_rest_image ::
  "seal_env \<Rightarrow> secret_sealer \<Rightarrow> (resource_key \<Rightarrow> string) \<Rightarrow> resource_catalog
    \<Rightarrow> (seal_fault, catalog_image) result" where
  "to_rest_image E s nonce cat =
     cat_repr (\<lambda>key v.
       if seals s \<and> is_sealed_kind key then seal_value E s (nonce key) key v else Inr v) cat"

section \<open>Reading it back\<close>

definition load_entry ::
  "resource_key \<times> json \<times> version_meta \<Rightarrow> stored \<times> (resource_key, unreadable_entry) btree_map
    \<Rightarrow> stored \<times> (resource_key, unreadable_entry) btree_map" where
  "load_entry entry maps =
     (case (entry, maps) of
        ((key, v, vm), (rs, us)) \<Rightarrow>
          (if is_envelope v then (rs, bm_insert key \<lparr>ur_sealed = (v, vm), ur_fault = Unopened\<rparr> us)
           else (bm_insert key (v, vm) rs, us)))"

definition load_image :: "patch_schema_env \<Rightarrow> catalog_image \<Rightarrow> resource_catalog" where
  "load_image env img =
     (let (rs, us) = fold load_entry (img_resources img) ([], [])
      in \<lparr>resources = rs, last_applied_term = img_last_applied_term img,
          last_applied_index = img_last_applied_index img,
          history = wh_loaded_at (img_current_revision img) default_history_capacity,
          unreadable = us, patch_env = env\<rparr>)"

definition open_entry_of ::
  "seal_env \<Rightarrow> secret_sealer \<Rightarrow> resource_key \<times> unreadable_entry
    \<Rightarrow> stored \<times> (resource_key, unreadable_entry) btree_map
    \<Rightarrow> stored \<times> (resource_key, unreadable_entry) btree_map" where
  "open_entry_of E s ke maps =
     (case (ke, maps) of
        ((key, entry), (rs, us)) \<Rightarrow>
          (let envelope = (case as_str (fst (ur_sealed entry)) of Some t \<Rightarrow> t | None \<Rightarrow> [])
           in case open_value E s key envelope of
                Inr v \<Rightarrow> (bm_insert key (v, snd (ur_sealed entry)) rs, us)
              | Inl fault \<Rightarrow> (rs, bm_insert key (entry\<lparr>ur_fault := fault\<rparr>) us)))"

definition open_sealed :: "seal_env \<Rightarrow> secret_sealer \<Rightarrow> resource_catalog \<Rightarrow> resource_catalog" where
  "open_sealed E s cat =
     (let (rs, us) = fold (open_entry_of E s) (unreadable cat) (resources cat, [])
      in cat\<lparr>resources := rs, unreadable := us\<rparr>)"

definition holds_open_sealed_kind :: "resource_catalog \<Rightarrow> bool" where
  "holds_open_sealed_kind cat = list_ex (\<lambda>(key, _). is_sealed_kind key) (resources cat)"

definition has_unreadable :: "resource_catalog \<Rightarrow> bool" where
  "has_unreadable cat = (unreadable cat \<noteq> [])"

definition all_secret_faults :: "resource_catalog \<Rightarrow> (resource_key \<times> seal_fault) list" where
  "all_secret_faults cat = map (\<lambda>(key, entry). (key, ur_fault entry)) (unreadable cat)"

text \<open>The equality of catalogs: the converged state, without the local replay ring.\<close>

definition cat_eq :: "resource_catalog \<Rightarrow> resource_catalog \<Rightarrow> bool" where
  "cat_eq a b \<longleftrightarrow>
     resources a = resources b \<and> unreadable a = unreadable b \<and>
     last_applied_term a = last_applied_term b \<and> last_applied_index a = last_applied_index b \<and>
     cat_revision a = cat_revision b"

lemma mem_keys_iff: "k \<in> fst ` set m \<longleftrightarrow> map_of m k \<noteq> None"
  by (simp add: map_of_eq_None_iff)

lemma map_of_Some_fst: "map_of m k = Some v \<Longrightarrow> k \<in> fst ` set m"
  by (force dest: map_of_SomeD)

section \<open>The shape of a catalog\<close>

text \<open>
  Both maps are ordered, no key is in both, and what is unreadable is an envelope. Every
  catalog the store holds has this shape: loading establishes it and commands keep it.
\<close>

definition cat_shape :: "resource_catalog \<Rightarrow> bool" where
  "cat_shape cat \<longleftrightarrow>
     bm_ok (resources cat) \<and> bm_ok (unreadable cat) \<and>
     fst ` set (resources cat) \<inter> fst ` set (unreadable cat) = {} \<and>
     (\<forall>(key, entry) \<in> set (unreadable cat). is_envelope (fst (ur_sealed entry)))"

lemma sort_key_fst:
  assumes "distinct (map fst xs)"
  shows "bm_ok (sort_key fst xs)" and "map_of (sort_key fst xs) = map_of xs"
proof -
  have d: "distinct (map fst (sort_key fst xs))"
    using assms by (metis distinct_map distinct_sort set_sort)
  then show "map_of (sort_key fst xs) = map_of xs"
    using assms by (metis map_of_inject_set set_sort)
  show "bm_ok (sort_key fst xs)"
    using d by (simp add: bm_ok_def strict_sorted_iff)
qed

lemma render_all_map:
  "render_all render m = Inr rs \<Longrightarrow>
    map fst rs = map fst m \<and>
    (\<forall>k. map_of rs k = (case map_of m k of
       None \<Rightarrow> None
     | Some (v, vm) \<Rightarrow> (case render k v of Inr w \<Rightarrow> Some (w, vm) | Inl _ \<Rightarrow> None)))"
proof (induction render m arbitrary: rs rule: render_all.induct)
  case (2 render key v vm m)
  then obtain w rs' where "render key v = Inr w" "render_all render m = Inr rs'" "rs = (key, w, vm) # rs'"
    by (auto simp: map_sum_def split: sum.splits)
  with 2 show ?case by auto
qed simp

lemma render_all_total:
  "render_all render m = Inr rs \<Longrightarrow> (k, v, vm) \<in> set m \<Longrightarrow> \<exists>w. render k v = Inr w"
  by (induction render m arbitrary: rs rule: render_all.induct)
    (auto simp: map_sum_def split: sum.splits)

lemma load_entry_simps:
  "load_entry (k, v, vm) (rs, us) =
    (if is_envelope v then (rs, bm_insert k \<lparr>ur_sealed = (v, vm), ur_fault = Unopened\<rparr> us)
     else (bm_insert k (v, vm) rs, us))"
  by (simp add: load_entry_def)

lemma open_entry_of_simps:
  assumes "fst (ur_sealed e) = JString env"
  shows "open_value E s k env = Inl f \<Longrightarrow>
      open_entry_of E s (k, e) (rs, us) = (rs, bm_insert k (e\<lparr>ur_fault := f\<rparr>) us)"
    and "open_value E s k env = Inr v \<Longrightarrow>
      open_entry_of E s (k, e) (rs, us) = (bm_insert k (v, snd (ur_sealed e)) rs, us)"
  using assms by (simp_all add: open_entry_of_def)

lemma load_entries:
  assumes "distinct (map fst xs)" and "fold load_entry xs (rs, us) = (rs', us')"
    and "bm_ok rs" and "bm_ok us"
  shows "bm_ok rs' \<and> bm_ok us' \<and>
    (\<forall>k. map_of rs' k = (case map_of xs k of
       Some (v, vm) \<Rightarrow> (if is_envelope v then map_of rs k else Some (v, vm))
     | None \<Rightarrow> map_of rs k)) \<and>
    (\<forall>k. map_of us' k = (case map_of xs k of
       Some (v, vm) \<Rightarrow> (if is_envelope v then Some \<lparr>ur_sealed = (v, vm), ur_fault = Unopened\<rparr>
                       else map_of us k)
     | None \<Rightarrow> map_of us k))"
  using assms
proof (induction xs arbitrary: rs us)
  case (Cons x xs)
  obtain k v vm where x: "x = (k, v, vm)" by (cases x) auto
  then have k: "map_of xs k = None" using Cons.prems(1) by (simp add: map_of_eq_None_iff)
  have xs: "distinct (map fst xs)" using Cons.prems(1) by simp
  show ?case
  proof (cases "is_envelope v")
    case True
    with Cons.prems(2) have "fold load_entry xs
        (rs, bm_insert k \<lparr>ur_sealed = (v, vm), ur_fault = Unopened\<rparr> us) = (rs', us')"
      by (simp add: x load_entry_simps)
    from Cons.IH [OF xs this Cons.prems(3) bm_ok_insert [OF Cons.prems(4)]] True k show ?thesis
      by (auto simp: x split: option.split)
  next
    case False
    with Cons.prems(2) have "fold load_entry xs (bm_insert k (v, vm) rs, us) = (rs', us')"
      by (simp add: x load_entry_simps)
    from Cons.IH [OF xs this bm_ok_insert [OF Cons.prems(3)] Cons.prems(4)] False k show ?thesis
      by (auto simp: x split: option.split)
  qed
qed simp

lemma open_entries:
  assumes "distinct (map fst xs)" and "fold (open_entry_of E s) xs (rs, us) = (rs', us')"
    and "bm_ok rs" and "bm_ok us"
    and "\<forall>(k, e) \<in> set xs. \<exists>env. fst (ur_sealed e) = JString env"
  shows "bm_ok rs' \<and> bm_ok us' \<and>
    (\<forall>k. map_of rs' k = (case map_of xs k of
       Some e \<Rightarrow> (case open_value E s k (case fst (ur_sealed e) of JString env \<Rightarrow> env) of
                   Inr v \<Rightarrow> Some (v, snd (ur_sealed e)) | Inl _ \<Rightarrow> map_of rs k)
     | None \<Rightarrow> map_of rs k)) \<and>
    (\<forall>k. map_of us' k = (case map_of xs k of
       Some e \<Rightarrow> (case open_value E s k (case fst (ur_sealed e) of JString env \<Rightarrow> env) of
                   Inr _ \<Rightarrow> map_of us k | Inl f \<Rightarrow> Some (e\<lparr>ur_fault := f\<rparr>))
     | None \<Rightarrow> map_of us k))"
  using assms
proof (induction xs arbitrary: rs us)
  case (Cons x xs)
  obtain k e where x: "x = (k, e)" by (cases x) auto
  obtain env where env: "fst (ur_sealed e) = JString env" using Cons.prems(5) x by auto
  have k: "map_of xs k = None" using Cons.prems(1) x by (simp add: map_of_eq_None_iff)
  have xs: "\<forall>(k, e) \<in> set xs. \<exists>env. fst (ur_sealed e) = JString env" "distinct (map fst xs)"
    using Cons.prems(1,5) by auto
  show ?case
  proof (cases "open_value E s k env")
    case (Inl f)
    with Cons.prems(2) have "fold (open_entry_of E s) xs (rs, bm_insert k (e\<lparr>ur_fault := f\<rparr>) us) = (rs', us')"
      by (simp add: x open_entry_of_simps [OF env])
    from Cons.IH [OF xs(2) this Cons.prems(3) bm_ok_insert [OF Cons.prems(4)] xs(1)] Inl k show ?thesis
      by (auto simp: x env split: option.split sum.split)
  next
    case (Inr v)
    with Cons.prems(2) have "fold (open_entry_of E s) xs (bm_insert k (v, snd (ur_sealed e)) rs, us) = (rs', us')"
      by (simp add: x open_entry_of_simps [OF env])
    from Cons.IH [OF xs(2) this bm_ok_insert [OF Cons.prems(3)] Cons.prems(4) xs(1)] Inr k show ?thesis
      by (auto simp: x env split: option.split sum.split)
  qed
qed simp

lemma cat_repr_map:
  assumes "cat_shape cat" and "cat_repr render cat = Inr img"
  shows "bm_ok (img_resources img)"
    and "map_of (img_resources img) k =
      (case map_of (unreadable cat) k of
         Some e \<Rightarrow> Some (ur_sealed e)
       | None \<Rightarrow> (case map_of (resources cat) k of
                   Some (v, vm) \<Rightarrow> (case render k v of Inr w \<Rightarrow> Some (w, vm) | Inl _ \<Rightarrow> None)
                 | None \<Rightarrow> None))"
proof -
  let ?us = "map (\<lambda>(key, entry). (key, ur_sealed entry)) (unreadable cat)"
  obtain rs where rs: "render_all render (resources cat) = Inr rs"
    and img: "img_resources img = (if unreadable cat = [] then rs else sort_key fst (rs @ ?us))"
    using assms(2) by (auto simp: cat_repr_def split: sum.splits)
  note r = render_all_map [OF rs]
  have us: "map fst ?us = map fst (unreadable cat)"
      "map_of ?us k = map_option ur_sealed (map_of (unreadable cat) k)"
    by (auto simp: map_of_map)
  have "map fst (rs @ ?us) = map fst (resources cat) @ map fst (unreadable cat)"
    using r us(1) by (simp only: map_append)
  then have dist: "distinct (map fst (rs @ ?us))"
    using assms(1) by (simp only: distinct_append set_map) (simp add: cat_shape_def bm_ok_distinct)
  have ok: "bm_ok rs" using assms(1) r by (simp add: cat_shape_def bm_ok_def)
  show "bm_ok (img_resources img)"
    unfolding img using ok sort_key_fst(1) [OF dist] by simp
  have "map_of (img_resources img) k = map_of (rs @ ?us) k"
    unfolding img using sort_key_fst(2) [OF dist] by simp
  also have "\<dots> = (case map_of (unreadable cat) k of
      Some e \<Rightarrow> Some (ur_sealed e) | None \<Rightarrow> map_of rs k)"
  proof (cases "map_of (unreadable cat) k")
    case (Some e)
    then have "k \<in> fst ` set (unreadable cat)" by (rule map_of_Some_fst)
    then have "map_of (resources cat) k = None"
      using assms(1) by (auto simp: cat_shape_def map_of_eq_None_iff)
    then have "map_of rs k = None" using r by simp
    with Some show ?thesis by (auto simp: map_add_def us(2))
  qed (simp add: map_add_def us(2) split: option.split)
  finally show "map_of (img_resources img) k =
      (case map_of (unreadable cat) k of
         Some e \<Rightarrow> Some (ur_sealed e)
       | None \<Rightarrow> (case map_of (resources cat) k of
                   Some (v, vm) \<Rightarrow> (case render k v of Inr w \<Rightarrow> Some (w, vm) | Inl _ \<Rightarrow> None)
                 | None \<Rightarrow> None))"
    using r by (simp split: option.splits)
qed

section \<open>What an image keeps\<close>

definition sealer_ok :: "seal_env \<Rightarrow> secret_sealer \<Rightarrow> bool" where
  "sealer_ok E s \<longleftrightarrow> b64_ok E \<and> (\<forall>c i. ss_key s = Held c i \<longrightarrow> cipher_ok c \<and> length i = 8)"

definition text_ok :: "seal_env \<Rightarrow> json \<Rightarrow> bool" where
  "text_ok E v \<longleftrightarrow> from_str (se_text E) (to_string (se_text E) v) = Some v"

text \<open>Opening a sealed value again, for a sealer in any state.\<close>

lemma seal_value_opens:
  assumes "seal_value E s nonce key v = Inr sealed" and "sealer_ok E s" and "text_ok E v"
    and "length nonce = nonce_len"
  obtains env where "sealed = JString env" "is_envelope sealed" "open_value E s key env = Inr v"
proof -
  obtain env where env: "sealed = JString env"
      "seal E s nonce (resource_aad E key) (to_string (se_text E) v) = Inr env"
    using assms(1) by (auto simp: seal_value_def map_sum_def split: sum.splits)
  then obtain c i where held: "ss_key s = Held c i"
    by (auto simp: seal_def split: prod.splits key_state.splits option.splits)
  have "open_with E s (resource_aad E key) env = Inr (to_string (se_text E) v)"
    using open_sealed_envelope [OF env(2) held] assms(2,4) held by (simp add: sealer_ok_def)
  then have "open_value E s key env = Inr v"
    using assms(3) by (simp add: open_value_def text_ok_def)
  with env seal_is_envelope [OF env(2)] that show thesis by blast
qed

lemma load_image_map:
  assumes "bm_ok (img_resources img)"
  shows "bm_ok (resources (load_image env img))" and "bm_ok (unreadable (load_image env img))"
    and "map_of (resources (load_image env img)) k =
      (case map_of (img_resources img) k of
         Some (v, vm) \<Rightarrow> (if is_envelope v then None else Some (v, vm)) | None \<Rightarrow> None)"
    and "map_of (unreadable (load_image env img)) k =
      (case map_of (img_resources img) k of
         Some (v, vm) \<Rightarrow>
           (if is_envelope v then Some \<lparr>ur_sealed = (v, vm), ur_fault = Unopened\<rparr> else None)
       | None \<Rightarrow> None)"
proof -
  obtain rs us where f: "fold load_entry (img_resources img) ([], []) = (rs, us)" by fastforce
  note l = load_entries [OF bm_ok_distinct [OF assms] f bm_ok_Nil bm_ok_Nil, unfolded map_of.simps(1)]
  have r: "resources (load_image env img) = rs" "unreadable (load_image env img) = us"
    by (simp_all add: load_image_def f)
  show "bm_ok (resources (load_image env img))" and "bm_ok (unreadable (load_image env img))"
    using l r by simp_all
  show "map_of (resources (load_image env img)) k =
      (case map_of (img_resources img) k of
         Some (v, vm) \<Rightarrow> (if is_envelope v then None else Some (v, vm)) | None \<Rightarrow> None)"
    using l r by simp
  show "map_of (unreadable (load_image env img)) k =
      (case map_of (img_resources img) k of
         Some (v, vm) \<Rightarrow>
           (if is_envelope v then Some \<lparr>ur_sealed = (v, vm), ur_fault = Unopened\<rparr> else None)
       | None \<Rightarrow> None)"
    using l r by simp
qed

lemma is_envelope_JString: "is_envelope v \<Longrightarrow> \<exists>env. v = JString env"
  by (cases v) (auto simp: is_envelope_def)

definition envelope_text :: "unreadable_entry \<Rightarrow> string" where
  "envelope_text e = (case fst (ur_sealed e) of JString env \<Rightarrow> env)"

lemma open_sealed_map:
  assumes "bm_ok (resources cat)" and "bm_ok (unreadable cat)"
    and "\<forall>(k, e) \<in> set (unreadable cat). is_envelope (fst (ur_sealed e))"
  shows "bm_ok (resources (open_sealed E s cat))" and "bm_ok (unreadable (open_sealed E s cat))"
    and "map_of (resources (open_sealed E s cat)) k =
      (case map_of (unreadable cat) k of
         Some e \<Rightarrow> (case open_value E s k (envelope_text e) of
                     Inr v \<Rightarrow> Some (v, snd (ur_sealed e)) | Inl _ \<Rightarrow> map_of (resources cat) k)
       | None \<Rightarrow> map_of (resources cat) k)"
    and "map_of (unreadable (open_sealed E s cat)) k =
      (case map_of (unreadable cat) k of
         Some e \<Rightarrow> (case open_value E s k (envelope_text e) of
                     Inr _ \<Rightarrow> None | Inl f \<Rightarrow> Some (e\<lparr>ur_fault := f\<rparr>))
       | None \<Rightarrow> None)"
proof -
  obtain rs us where f: "fold (open_entry_of E s) (unreadable cat) (resources cat, []) = (rs, us)"
    by fastforce
  have "\<forall>(k, e) \<in> set (unreadable cat). \<exists>env. fst (ur_sealed e) = JString env"
    using assms(3) is_envelope_JString by blast
  note l = open_entries [OF bm_ok_distinct [OF assms(2)] f assms(1) bm_ok_Nil this,
      folded envelope_text_def, unfolded map_of.simps(1)]
  have r: "resources (open_sealed E s cat) = rs" "unreadable (open_sealed E s cat) = us"
    by (simp_all add: open_sealed_def f)
  show "bm_ok (resources (open_sealed E s cat))" and "bm_ok (unreadable (open_sealed E s cat))"
    using l r by simp_all
  show "map_of (resources (open_sealed E s cat)) k =
      (case map_of (unreadable cat) k of
         Some e \<Rightarrow> (case open_value E s k (envelope_text e) of
                     Inr v \<Rightarrow> Some (v, snd (ur_sealed e)) | Inl _ \<Rightarrow> map_of (resources cat) k)
       | None \<Rightarrow> map_of (resources cat) k)"
    using l r by simp
  show "map_of (unreadable (open_sealed E s cat)) k =
      (case map_of (unreadable cat) k of
         Some e \<Rightarrow> (case open_value E s k (envelope_text e) of
                     Inr _ \<Rightarrow> None | Inl f \<Rightarrow> Some (e\<lparr>ur_fault := f\<rparr>))
       | None \<Rightarrow> None)"
    using l r by simp
qed

lemma open_sealed_fields [simp]:
  "history (open_sealed E s cat) = history cat"
  "last_applied_term (open_sealed E s cat) = last_applied_term cat"
  "last_applied_index (open_sealed E s cat) = last_applied_index cat"
  "patch_env (open_sealed E s cat) = patch_env cat"
  by (simp_all add: open_sealed_def split: prod.split)

lemma load_image_fields [simp]:
  "history (load_image env img) = wh_loaded_at (img_current_revision img) default_history_capacity"
  "last_applied_term (load_image env img) = img_last_applied_term img"
  "last_applied_index (load_image env img) = img_last_applied_index img"
  "patch_env (load_image env img) = env"
  by (simp_all add: load_image_def split: prod.split)

lemma cat_shape_iff:
  "cat_shape cat \<longleftrightarrow>
     bm_ok (resources cat) \<and> bm_ok (unreadable cat) \<and>
     (\<forall>k. map_of (resources cat) k = None \<or> map_of (unreadable cat) k = None) \<and>
     (\<forall>k e. map_of (unreadable cat) k = Some e \<longrightarrow> is_envelope (fst (ur_sealed e)))"
proof -
  have "(\<forall>(k, e) \<in> set (unreadable cat). is_envelope (fst (ur_sealed e))) \<longleftrightarrow>
      (\<forall>k e. map_of (unreadable cat) k = Some e \<longrightarrow> is_envelope (fst (ur_sealed e)))"
    if "bm_ok (unreadable cat)"
    using bm_ok_distinct [OF that] by (fastforce dest: map_of_SomeD intro: map_of_is_SomeI)
  then show ?thesis
    unfolding cat_shape_def map_of_eq_None_iff by blast
qed

lemma cat_shape_load: "bm_ok (img_resources img) \<Longrightarrow> cat_shape (load_image env img)"
  unfolding cat_shape_iff by (auto simp: load_image_map split: option.splits if_splits)

lemma cat_shape_open_sealed:
  assumes "cat_shape cat"
  shows "cat_shape (open_sealed E s cat)"
proof -
  have e: "\<forall>(k, e) \<in> set (unreadable cat). is_envelope (fst (ur_sealed e))" "bm_ok (resources cat)"
      "bm_ok (unreadable cat)"
    using assms by (simp_all add: cat_shape_def)
  note m = open_sealed_map [OF e(2,3,1)]
  show ?thesis
    using assms unfolding cat_shape_iff by (auto simp: m split: option.splits sum.splits)
qed

text \<open>
  One key of the image of a catalog, loaded and opened by a store that holds the key it was
  sealed with.
\<close>

definition rest_value ::
  "seal_env \<Rightarrow> secret_sealer \<Rightarrow> (resource_key \<Rightarrow> string) \<Rightarrow> resource_key \<Rightarrow> json
    \<Rightarrow> (seal_fault, json) result" where
  "rest_value E s nonce key v =
     (if seals s \<and> is_sealed_kind key then seal_value E s (nonce key) key v else Inr v)"

lemma rest_value_reopens:
  assumes "rest_value E s nonce k v = Inr w" and "sealer_ok E s" and "text_ok E v"
    and "length (nonce k) = nonce_len" and "\<not> is_envelope v"
  shows "w = v \<and> \<not> is_envelope w \<or>
    is_envelope w \<and> open_value E s k (envelope_text \<lparr>ur_sealed = (w, vm), ur_fault = f\<rparr>) = Inr v"
proof (cases "seals s \<and> is_sealed_kind k")
  case True
  then have "seal_value E s (nonce k) k v = Inr w" using assms(1) by (simp add: rest_value_def)
  then obtain env where "w = JString env" "is_envelope w" "open_value E s k env = Inr v"
    using assms(2-4) by (rule seal_value_opens)
  then show ?thesis by (simp add: envelope_text_def)
next
  case False
  then show ?thesis using assms(1,5) by (auto simp: rest_value_def)
qed

lemma image_reopens:
  assumes shape: "cat_shape cat" and img: "to_rest_image E s nonce cat = Inr img"
    and ok: "sealer_ok E s" "\<forall>k. length (nonce k) = nonce_len"
    and plain: "\<forall>k v vm. map_of (resources cat) k = Some (v, vm) \<longrightarrow> text_ok E v \<and> \<not> is_envelope v"
    and shut: "\<forall>k e. map_of (unreadable cat) k = Some e \<longrightarrow>
      open_value E s k (envelope_text e) = Inl (ur_fault e)"
  shows "open_sealed E s (load_image (patch_env cat) img) =
    cat\<lparr>history := wh_loaded_at (wh_head (history cat)) default_history_capacity\<rparr>"
proof -
  let ?cat = "open_sealed E s (load_image (patch_env cat) img)"
  have repr: "cat_repr (rest_value E s nonce) cat = Inr img"
    using img by (simp add: to_rest_image_def rest_value_def [abs_def])
  then obtain rs where rs: "render_all (rest_value E s nonce) (resources cat) = Inr rs"
    by (auto simp: cat_repr_def split: sum.splits)
  note image = cat_repr_map [OF shape repr]
  have l: "cat_shape (load_image (patch_env cat) img)" using image(1) by (rule cat_shape_load)
  then have lo: "bm_ok (resources (load_image (patch_env cat) img))"
      "bm_ok (unreadable (load_image (patch_env cat) img))"
      "\<forall>(k, e) \<in> set (unreadable (load_image (patch_env cat) img)). is_envelope (fst (ur_sealed e))"
    by (simp_all add: cat_shape_def)
  note load = load_image_map(3,4) [OF image(1)]
  note opened = open_sealed_map [OF lo, of E s]
  have "map_of (resources ?cat) k = map_of (resources cat) k \<and>
      map_of (unreadable ?cat) k = map_of (unreadable cat) k" for k
  proof (cases "map_of (unreadable cat) k")
    case (Some e)
    then have e: "is_envelope (fst (ur_sealed e))" "map_of (resources cat) k = None"
        "open_value E s k (envelope_text e) = Inl (ur_fault e)"
      using shape shut by (auto simp: cat_shape_iff)
    have "envelope_text \<lparr>ur_sealed = ur_sealed e, ur_fault = f\<rparr> = envelope_text e" for f
      by (simp add: envelope_text_def)
    with Some e show ?thesis
      by (cases "ur_sealed e") (simp add: opened load image(2))
  next
    case None
    show ?thesis
    proof (cases "map_of (resources cat) k")
      case (Some p)
      obtain v vm where v: "map_of (resources cat) k = Some (v, vm)" using Some by (cases p) auto
      obtain w where w: "rest_value E s nonce k v = Inr w"
        using render_all_total [OF rs map_of_SomeD [OF v]] by blast
      show ?thesis
        using rest_value_reopens [OF w ok(1), of vm Unopened] v w None ok(2) plain
        by (auto simp: opened load image(2))
    qed (simp add: opened load image(2) None)
  qed
  then have maps: "map_of (resources ?cat) = map_of (resources cat)"
      "map_of (unreadable ?cat) = map_of (unreadable cat)" by blast+
  have "resources ?cat = resources cat"
    using opened(1) shape maps(1) by (intro bm_ok_ext) (simp_all add: cat_shape_def)
  moreover have "unreadable ?cat = unreadable cat"
    using opened(2) shape maps(2) by (intro bm_ok_ext) (simp_all add: cat_shape_def)
  moreover have "last_applied_term ?cat = last_applied_term cat"
      "last_applied_index ?cat = last_applied_index cat"
      "history ?cat = wh_loaded_at (wh_head (history cat)) default_history_capacity"
    using repr by (auto simp: cat_repr_def split: sum.splits)
  ultimately show ?thesis by (intro resource_catalog.equality) simp_all
qed

section \<open>Properties of the image\<close>

text \<open>
  C21. A restart keeps the catalog: the image a store writes, loaded and opened by a store
  with the same key, is equal to the catalog it was written from, resources, unreadable
  entries, applied position and revision alike. Only the replay ring is new: it starts
  empty at the revision of the image, with that revision as its floor. The cipher, base64
  and the JSON text are the library hypotheses; no stored object is itself an envelope, and
  what the store could not open it still cannot.
\<close>

theorem image_roundtrip:
  assumes "cat_shape cat" and "to_rest_image E s nonce cat = Inr img"
    and "sealer_ok E s" and "\<forall>k. length (nonce k) = nonce_len"
    and "\<forall>k v vm. map_of (resources cat) k = Some (v, vm) \<longrightarrow> text_ok E v \<and> \<not> is_envelope v"
    and "\<forall>k e. map_of (unreadable cat) k = Some e \<longrightarrow>
      open_value E s k (envelope_text e) = Inl (ur_fault e)"
  shows "cat_eq (open_sealed E s (load_image (patch_env cat) img)) cat \<and>
    history (open_sealed E s (load_image (patch_env cat) img)) =
      wh_loaded_at (cat_revision cat) default_history_capacity"
  using image_reopens [OF assms] by (simp add: cat_eq_def cat_revision_def wh_loaded_at_def)

definition example_secret :: resource_key where
  "example_secret = namespaced [] ''v1'' ''Secret'' ''ns'' ''s''"

definition example_config_map :: resource_key where
  "example_config_map = namespaced [] ''v1'' ''ConfigMap'' ''ns'' ''c''"

definition example_stored_catalog :: resource_catalog where
  "example_stored_catalog =
     (catalog_new 4 (\<lambda>_ _. LReplace))
     \<lparr>resources := [(example_config_map, JObject [], created_at 1),
                    (example_secret, JObject [], created_at 2)]\<rparr>"

definition example_rest_image :: "(seal_fault, catalog_image) result" where
  "example_rest_image =
     to_rest_image example_seal_env example_sealer (\<lambda>_. replicate 24 CHR ''n'') example_stored_catalog"

lemma example_image:
  "cat_shape example_stored_catalog"
  "to_rest_image example_seal_env example_sealer (\<lambda>_. replicate 24 CHR ''n'')
     example_stored_catalog = Inr (projr example_rest_image)"
  "seals example_sealer"
proof -
  have "bm_ok (resources example_stored_catalog)"
    unfolding bm_ok_def by code_simp
  then show "cat_shape example_stored_catalog"
    by (simp add: cat_shape_def example_stored_catalog_def catalog_new_def)
  have "isl example_rest_image = False" by code_simp
  then show "to_rest_image example_seal_env example_sealer (\<lambda>_. replicate 24 CHR ''n'')
     example_stored_catalog = Inr (projr example_rest_image)"
    unfolding example_rest_image_def by (cases "to_rest_image example_seal_env example_sealer
      (\<lambda>_. replicate 24 CHR ''n'') example_stored_catalog") simp_all
  show "seals example_sealer" by code_simp
qed

theorem image_roundtrip_witness:
  "cat_eq (open_sealed example_seal_env example_sealer
      (load_image (patch_env example_stored_catalog) (projr example_rest_image)))
    example_stored_catalog"
proof -
  have "sealer_ok example_seal_env example_sealer"
    using example_seal_ok by (simp add: sealer_ok_def example_sealer_def)
  moreover have "\<forall>k. length (replicate 24 CHR ''n'') = nonce_len"
    by (simp add: nonce_len_def)
  moreover have "\<forall>k v vm. map_of (resources example_stored_catalog) k = Some (v, vm) \<longrightarrow>
      text_ok example_seal_env v \<and> \<not> is_envelope v"
    by (simp add: example_stored_catalog_def text_ok_def example_seal_env_def is_envelope_def)
  moreover have "\<forall>k e. map_of (unreadable example_stored_catalog) k = Some e \<longrightarrow>
      open_value example_seal_env example_sealer k (envelope_text e) = Inl (ur_fault e)"
    by (simp add: example_stored_catalog_def catalog_new_def)
  ultimately show ?thesis
    using image_roundtrip [OF example_image(1,2)] by blast
qed

text \<open>
  C22. The image of a sealing store holds no secret in the open: every entry of a sealed kind
  is an envelope. It lists each key of the catalog once, readable or not, in ascending
  order, so equal catalogs have images that differ in ciphertext only.
\<close>

theorem image_hides_secrets:
  assumes "cat_shape cat" and "seals s" and "to_rest_image E s nonce cat = Inr img"
  shows "sorted_wrt (<) (map fst (img_resources img)) \<and>
    fst ` set (img_resources img) = fst ` set (resources cat) \<union> fst ` set (unreadable cat) \<and>
    list_all (\<lambda>(key, v, _). is_sealed_kind key \<longrightarrow> is_envelope v) (img_resources img)"
proof -
  have repr: "cat_repr (rest_value E s nonce) cat = Inr img"
    using assms(3) by (simp add: to_rest_image_def rest_value_def [abs_def])
  then obtain rs where rs: "render_all (rest_value E s nonce) (resources cat) = Inr rs"
    by (auto simp: cat_repr_def split: sum.splits)
  note image = cat_repr_map [OF assms(1) repr]
  have keys: "k \<in> fst ` set (img_resources img) \<longleftrightarrow>
      k \<in> fst ` set (resources cat) \<union> fst ` set (unreadable cat)" for k
    using render_all_total [OF rs map_of_SomeD, of k]
    by (auto simp: mem_keys_iff image(2) split: option.splits sum.splits)
  have sealed: "is_envelope v" if "(k, v, vm) \<in> set (img_resources img)" "is_sealed_kind k" for k v vm
  proof -
    have get: "map_of (img_resources img) k = Some (v, vm)"
      using that bm_get_mem [OF image(1)] by simp
    show ?thesis
    proof (cases "map_of (unreadable cat) k")
      case (Some e)
      with get have "v = fst (ur_sealed e)" by (simp add: image(2))
      with Some assms(1) show ?thesis by (simp add: cat_shape_iff)
    next
      case None
      with get obtain u where "rest_value E s nonce k u = Inr v"
        by (auto simp: image(2) split: option.splits sum.splits)
      with that(2) assms(2) show ?thesis
        by (auto simp: rest_value_def seal_value_def map_sum_def dest: seal_is_envelope split: sum.splits)
    qed
  qed
  show ?thesis
    using image(1) set_eqI [OF keys] sealed by (auto simp only: bm_ok_def list_all_iff)
qed

theorem image_hides_secrets_witness:
  "list_all (\<lambda>(key, v, _). is_sealed_kind key \<longrightarrow> is_envelope v) (img_resources (projr example_rest_image))"
  using image_hides_secrets [OF example_image(1,3,2)] by blast

end
