(* ===== verification/Runs.thy ===== *)
theory Runs
  imports Image
begin

text \<open>
  The life of a replica: the Raft entries it applies, the compactions it is asked for and
  the restarts it goes through, as a step relation on catalogs that also records the
  entries applied and the changes committed. The properties of the catalog as a replicated
  state machine are proved here.
\<close>

section \<open>Steps of a replica\<close>

type_synonym applied_entry = "logged_command \<times> nat \<times> nat"

inductive cat_step ::
  "externals \<Rightarrow> resource_catalog \<Rightarrow> applied_entry list \<Rightarrow> change list \<Rightarrow> resource_catalog \<Rightarrow> bool"
  for E where
  step_apply: "apply_logged E cat entry t i = (cat', out) \<Longrightarrow>
    cat_step E cat [(entry, t, i)] (out_changes out) cat'"
| step_compact: "cat_step E cat [] [] (fst (cat_compact cat target))"
| step_restart: "to_rest_image SE s nonce cat = Inr img \<Longrightarrow> sealer_ok SE s \<Longrightarrow>
    \<forall>k. length (nonce k) = nonce_len \<Longrightarrow>
    \<forall>k v vm. map_of (resources cat) k = Some (v, vm) \<longrightarrow> text_ok SE v \<and> \<not> is_envelope v \<Longrightarrow>
    \<forall>k e. map_of (unreadable cat) k = Some e \<longrightarrow>
      open_value SE s k (envelope_text e) = Inl (ur_fault e) \<Longrightarrow>
    cat_step E cat [] [] (open_sealed SE s (load_image (patch_env cat) img))"

inductive cat_steps ::
  "externals \<Rightarrow> resource_catalog \<Rightarrow> applied_entry list \<Rightarrow> change list \<Rightarrow> resource_catalog \<Rightarrow> bool"
  for E where
  steps_refl: "cat_steps E cat [] [] cat"
| steps_snoc: "cat_steps E cat es log cat1 \<Longrightarrow> cat_step E cat1 es' cs cat2 \<Longrightarrow>
    cat_steps E cat (es @ es') (log @ cs) cat2"

inductive_cases cat_stepE: "cat_step E cat es cs cat'"

lemma steps_trans:
  assumes "cat_steps E a es log b" and "cat_steps E b es' log' c"
  shows "cat_steps E a (es @ es') (log @ log') c"
  using assms(2,1)
proof (induction rule: cat_steps.induct)
  case (steps_snoc cat es' log' cat1 es'' cs cat2)
  then show ?case using cat_steps.steps_snoc [of E a "es @ es'" "log @ log'"] by simp
qed simp

section \<open>What one step does\<close>

text \<open>Every step enacts its changes; apart from the ring nothing else moves but the applied position.\<close>

lemma step_shape:
  assumes "cat_step E cat es cs cat'" and "cat_shape cat"
  shows "describe_all (resources cat) (cat_revision cat + 1) cs \<and>
    resources cat' = replay cs (resources cat) \<and> unreadable cat' = unreadable cat \<and>
    patch_env cat' = patch_env cat \<and>
    cat_revision cat' = cat_revision cat + (if cs = [] then 0 else 1)"
  using assms(1)
proof cases
  case (step_apply entry t i out)
  then show ?thesis
    using apply_under_changes [of E cat "lc_command entry" "lc_semantics entry" t i cat' out]
    by (auto simp: apply_logged_def cat_revision_def wh_next_revision_def next_rev_def split: list.splits)
next
  case (step_compact target)
  then show ?thesis
    by (auto simp: cat_compact_def cat_revision_def Let_def prod_eq_iff split: prod.splits)
next
  case (step_restart SE s nonce img)
  with image_reopens [OF assms(2), of SE s nonce img] show ?thesis
    by (simp add: cat_revision_def wh_loaded_at_def)
qed

lemma step_ring:
  assumes "cat_step E cat es cs cat'" and "cat_shape cat" and "backs log (history cat)"
  shows "backs (log @ cs) (history cat')"
  using assms(1)
proof cases
  case (step_apply entry t i out)
  note u = apply_under_changes [OF step_apply(3) [unfolded apply_logged_def]]
  have "\<forall>c \<in> set cs. ch_revision c = wh_next_revision (history cat)"
    using describe_all_revision [OF u(1)] step_apply(2) by simp
  then show ?thesis
    using assms(3) by (cases "out_changes out") (auto simp: u(2) step_apply(2) intro!: backs_commit)
next
  case (step_compact target)
  then show ?thesis
    using backs_compact [OF assms(3), of target] by (simp add: cat_compact_def Let_def split: prod.splits)
next
  case (step_restart SE s nonce img)
  have "backs log (wh_loaded_at (wh_head (history cat)) default_history_capacity)"
    using assms(3) by (intro backs_loaded_at) (simp_all add: backs_def)
  with step_restart image_reopens [OF assms(2), of SE s nonce img] show ?thesis by simp
qed

section \<open>The invariant\<close>

text \<open>The version metadata of a stored object, at a catalog of revision \<open>head\<close>.\<close>

definition meta_ok :: "revision \<Rightarrow> json \<times> version_meta \<Rightarrow> bool" where
  "meta_ok head entry \<longleftrightarrow>
     (case entry of
        (v, vm) \<Rightarrow>
          1 \<le> create_revision vm \<and> create_revision vm \<le> mod_revision vm \<and> mod_revision vm \<le> head \<and>
          1 \<le> key_version vm \<and> stamped (mod_revision vm) v)"

definition resources_ok :: "revision \<Rightarrow> stored \<Rightarrow> bool" where
  "resources_ok head m \<longleftrightarrow> bm_ok m \<and> (\<forall>k entry. map_of m k = Some entry \<longrightarrow> meta_ok head entry)"

lemma meta_ok_mono: "meta_ok h e \<Longrightarrow> h \<le> h' \<Longrightarrow> meta_ok h' e"
  by (auto simp: meta_ok_def)

lemma resources_ok_change:
  assumes "describes m r c" and "resources_ok r m" and "1 \<le> r"
  shows "resources_ok r (apply_change c m)"
proof (cases "ch_kind c")
  case ChPut
  have "meta_ok r (ch_value c, ch_meta c)"
  proof (cases "map_of m (ch_key c)")
    case None
    with assms ChPut show ?thesis
      by (simp add: describes_def version_meta_at_def meta_ok_def created_at_def)
  next
    case (Some e)
    then have "meta_ok r e" using assms(2) by (cases e) (simp add: resources_ok_def)
    with Some assms ChPut show ?thesis
      by (cases e) (simp add: describes_def version_meta_at_def meta_ok_def bumped_at_def)
  qed
  with assms(2) ChPut show ?thesis
    by (auto simp: resources_ok_def apply_change_def)
next
  case ChDelete
  with assms(2) show ?thesis by (auto simp: resources_ok_def apply_change_def)
qed

lemma resources_ok_changes:
  "describe_all m r cs \<Longrightarrow> resources_ok r m \<Longrightarrow> 1 \<le> r \<Longrightarrow> resources_ok r (replay cs m)"
proof (induction cs arbitrary: m)
  case (Cons c cs)
  then show ?case using resources_ok_change [of m r c] by simp
qed simp

lemma step_resources_ok:
  assumes "cat_step E cat es cs cat'" and "cat_shape cat"
    and "resources_ok (cat_revision cat) (resources cat)"
  shows "resources_ok (cat_revision cat') (resources cat')"
proof -
  note st = step_shape [OF assms(1,2)]
  have "resources_ok (cat_revision cat + 1) (resources cat)"
    using assms(3) meta_ok_mono [OF _ le_add1] unfolding resources_ok_def by blast
  with st resources_ok_changes [of "resources cat" "cat_revision cat + 1" cs] assms(3) show ?thesis
    by auto
qed

lemma step_cat_shape:
  assumes "cat_step E cat es cs cat'" and "cat_shape cat" and "unreadable cat = []"
    and "resources_ok (cat_revision cat) (resources cat)"
  shows "cat_shape cat' \<and> unreadable cat' = []"
  using step_shape [OF assms(1,2)] step_resources_ok [OF assms(1,2,4)] assms(3)
  by (simp add: cat_shape_def resources_ok_def)

text \<open>What holds of a replica that started empty.\<close>

definition cat_inv :: "change list \<Rightarrow> resource_catalog \<Rightarrow> bool" where
  "cat_inv log cat \<longleftrightarrow>
     cat_shape cat \<and> unreadable cat = [] \<and> resources_ok (cat_revision cat) (resources cat) \<and>
     backs log (history cat) \<and> resources cat = replay log [] \<and>
     ch_revision ` set log = {1..cat_revision cat}"

lemma cat_inv_new: "cat_inv [] (catalog_new cap env)"
  by (simp add: cat_inv_def catalog_new_def cat_shape_def resources_ok_def cat_revision_def backs_new)
    (simp add: wh_new_def)

lemma cat_inv_step:
  assumes "cat_step E cat es cs cat'" and "cat_inv log cat"
  shows "cat_inv (log @ cs) cat'"
proof -
  have inv: "cat_shape cat" "unreadable cat = []" "resources_ok (cat_revision cat) (resources cat)"
      "backs log (history cat)" "resources cat = replay log []"
      "ch_revision ` set log = {1..cat_revision cat}"
    using assms(2) unfolding cat_inv_def by blast+
  note st = step_shape [OF assms(1) inv(1)]
  have "cs \<noteq> [] \<Longrightarrow> ch_revision ` set cs = {cat_revision cat + 1}"
    using st describe_all_revision [of "resources cat" "cat_revision cat + 1" cs] by (cases cs) auto
  then have "ch_revision ` set (log @ cs) = {1..cat_revision cat'}"
    using st inv(6) by (cases "cs = []") (auto simp: image_Un)
  then show ?thesis
    using step_cat_shape [OF assms(1) inv(1-3)] step_resources_ok [OF assms(1) inv(1,3)]
      step_ring [OF assms(1) inv(1,4)] st inv(5)
    by (simp add: cat_inv_def)
qed

lemma cat_inv_steps:
  assumes "cat_steps E cat es cs cat'" and "cat_inv log cat"
  shows "cat_inv (log @ cs) cat'"
  using assms
proof (induction rule: cat_steps.induct)
  case (steps_snoc cat es log1 cat1 es' cs cat2)
  then show ?case using cat_inv_step [of E cat1 es' cs cat2 "log @ log1"] by simp
qed simp

lemma steps_resources:
  assumes "cat_steps E cat es cs cat'" and "cat_inv log cat"
  shows "resources cat' = replay cs (resources cat) \<and> cat_revision cat \<le> cat_revision cat' \<and>
    (\<forall>c \<in> set cs. cat_revision cat < ch_revision c) \<and>
    cat_revision cat' \<le> cat_revision cat + length es"
  using assms
proof (induction rule: cat_steps.induct)
  case (steps_snoc cat es log1 cat1 es' cs cat2)
  note inv = cat_inv_steps [OF steps_snoc(1,4)]
  have sh: "cat_shape cat1" using inv by (simp add: cat_inv_def)
  note st = step_shape [OF steps_snoc(2) sh]
  have "\<forall>c \<in> set cs. ch_revision c = cat_revision cat1 + 1"
    using st describe_all_revision by blast
  moreover have "cs \<noteq> [] \<Longrightarrow> 1 \<le> length es'"
    using steps_snoc(2) by cases simp_all
  ultimately show ?case
    using st steps_snoc(3) [OF steps_snoc(4)] by (auto; fastforce)
qed simp

section \<open>Compare-and-swap\<close>

text \<open>The key and the expected revision of a command on one key.\<close>

fun cas_of :: "resource_command \<Rightarrow> (resource_key \<times> revision option) option" where
  "cas_of (CmdPut key _ expected _) = Some (key, expected)"
| "cas_of (CmdPatch key _ _ _ expected _) = Some (key, expected)"
| "cas_of (CmdDelete key expected _ _) = Some (key, expected)"
| "cas_of (CmdTxn _ _ _ _) = None"

lemma dispatch_stale:
  assumes "cas_of cmd = Some (key, Some n)"
    and "\<forall>v vm. map_of (resources cat) key = Some (v, vm) \<longrightarrow> mod_revision vm \<noteq> n"
    and "\<forall>k p pt e rs. cmd = CmdPatch k p pt None e rs \<longrightarrow> pt \<noteq> PtApply"
  shows "dispatch E cat cmd oi r = (cat, no_change Conflict)"
proof -
  have "\<not> check_precondition (Some n) (map_option snd (map_of (resources cat) key))"
    using assms(2) by (cases "map_of (resources cat) key") (auto simp: check_precondition_def)
  then show ?thesis
    using assms(1,3)
    by (cases cmd) (auto simp: dispatch_def apply_put_def apply_delete_def apply_patch_def
        apply_ssa_command_def split: option.splits)
qed

lemma dispatch_commits_fresh:
  assumes "cas_of cmd = Some (key, Some n)" and "dispatch E cat cmd oi r = (cat', out)"
    and "out_changes out \<noteq> []"
  obtains v vm where "map_of (resources cat) key = Some (v, vm)" "mod_revision vm = n"
proof (cases "\<forall>v vm. map_of (resources cat) key = Some (v, vm) \<longrightarrow> mod_revision vm \<noteq> n")
  case True
  then have "\<not> check_precondition (Some n) (map_option snd (map_of (resources cat) key))"
    by (cases "map_of (resources cat) key") (auto simp: check_precondition_def)
  then have "out_changes out = []"
    using assms(1,2)
    by (cases cmd) (auto simp: dispatch_def apply_put_def apply_delete_def apply_patch_def
        apply_ssa_command_def split: option.splits if_splits)
  with assms(3) show thesis by simp
qed (use that in blast)

text \<open>From some revision on, no version of a key is older than a bound.\<close>

definition newer :: "resource_key \<Rightarrow> revision \<Rightarrow> stored \<Rightarrow> bool" where
  "newer key n m \<longleftrightarrow> (\<forall>v vm. map_of m key = Some (v, vm) \<longrightarrow> n < mod_revision vm)"

lemma newer_replay:
  "describe_all m r cs \<Longrightarrow> n < r \<Longrightarrow> newer key n m \<Longrightarrow> newer key n (replay cs m)"
proof (induction cs arbitrary: m)
  case (Cons c cs)
  then have "newer key n (apply_change c m)"
    by (auto simp: newer_def apply_change_def describes_def version_meta_at_def created_at_def
        bumped_at_def split: change_kind.splits option.splits)
  with Cons show ?case by simp
qed simp

lemma newer_after_write:
  assumes "describe_all m r cs" and "n < r" and "key \<in> ch_key ` set cs"
  shows "newer key n (replay cs m)"
proof -
  from assms(3) obtain c pre post where cs: "cs = pre @ c # post" "ch_key c = key"
    by (auto simp: in_set_conv_decomp)
  have "describes (replay pre m) r c" "describe_all (apply_change c (replay pre m)) r post"
    using assms(1) by (simp_all add: cs describe_all_append)
  moreover from this(1) have "newer key n (apply_change c (replay pre m))"
    using assms(2) cs(2)
    by (auto simp: newer_def apply_change_def describes_def version_meta_at_def created_at_def
        bumped_at_def split: change_kind.splits option.splits)
  ultimately show ?thesis using newer_replay assms(2) by (simp add: cs)
qed

lemma newer_steps:
  assumes "cat_steps E cat es cs cat'" and "cat_inv log cat" and "n < cat_revision cat"
    and "newer key n (resources cat)"
  shows "newer key n (resources cat')"
  using assms
proof (induction rule: cat_steps.induct)
  case (steps_snoc cat es log1 cat1 es' cs cat2)
  have sh: "cat_shape cat1" using cat_inv_steps [OF steps_snoc(1,4)] by (simp add: cat_inv_def)
  have "n < cat_revision cat1 + 1"
    using steps_resources [OF steps_snoc(1,4)] steps_snoc(5) by simp
  with steps_snoc step_shape [OF steps_snoc(2) sh] show ?case
    by (auto intro: newer_replay)
qed

lemma apply_logged_dispatch:
  assumes "unreadable cat = []" and "apply_logged E cat entry t i = (cat', out)"
  shows "\<exists>cat1. dispatch E cat (lc_command entry) (on_identical_under (lc_semantics entry))
      (cat_revision cat + 1) = (cat1, out)"
  using assms
  by (auto simp: apply_logged_def apply_under_def unreadable_touched_by_def Let_def cat_revision_def
      wh_next_revision_def next_rev_def split: prod.splits)

section \<open>Replicas\<close>

text \<open>What a handler answers does not depend on the replay ring.\<close>

abbreviation with_ring :: "watch_history \<Rightarrow> resource_catalog \<Rightarrow> resource_catalog" where
  "with_ring h cat \<equiv> cat\<lparr>history := h\<rparr>"

lemma put_ring: "apply_put E (with_ring h cat) key v expected oi r =
    map_prod (with_ring h) id (apply_put E cat key v expected oi r)"
  by (simp add: apply_put_def store_and_emit_def finalizer_release_removal_def put_entry_def
      remove_entry_def Let_def split: option.split)

lemma delete_ring: "apply_delete (with_ring h cat) key expected ts r =
    map_prod (with_ring h) id (apply_delete cat key expected ts r)"
  by (simp add: apply_delete_def store_and_emit_def put_entry_def remove_entry_def split: option.split)

lemma ssa_ring: "apply_ssa_command E (with_ring h cat) key body meta expected oi r =
    map_prod (with_ring h) id (apply_ssa_command E cat key body meta expected oi r)"
  by (simp add: apply_ssa_command_def store_and_emit_def finalizer_release_removal_def put_entry_def
      remove_entry_def Let_def split: option.split sum.split)

lemma patch_ring: "apply_patch E (with_ring h cat) key p pt meta expected oi r =
    map_prod (with_ring h) id (apply_patch E cat key p pt meta expected oi r)"
  by (simp add: apply_patch_def ssa_ring store_and_emit_def finalizer_release_removal_def put_entry_def
      remove_entry_def Let_def split: option.split sum.split)

lemma txn_ops_ring: "apply_txn_ops E (with_ring h cat) ops r =
    map_prod (with_ring h) id (apply_txn_ops E cat ops r)"
proof (induction ops arbitrary: cat)
  case (Cons op ops)
  have "apply_txn_op E (with_ring h cat) op r = map_prod (with_ring h) id (apply_txn_op E cat op r)"
    by (cases op) (simp_all add: apply_txn_op_def put_ring delete_ring)
  then show ?case
    using Cons.IH by (simp add: Let_def split: prod.split)
qed simp

lemma dispatch_ring: "dispatch E (with_ring h cat) cmd oi r =
    map_prod (with_ring h) id (dispatch E cat cmd oi r)"
proof (cases cmd)
  case (CmdTxn compares success failure reason)
  have "eval_compare (with_ring h cat) = eval_compare cat"
    by (auto simp: eval_compare_def fun_eq_iff split: txn_compare.split)
  with CmdTxn show ?thesis
    by (simp add: dispatch_def apply_txn_def txn_ops_ring Let_def split: prod.split list.split)
qed (simp_all add: dispatch_def put_ring patch_ring delete_ring)

lemma apply_logged_eq:
  assumes "cat_eq a b" and "patch_env a = patch_env b"
    and "apply_logged E a entry t i = (a', out)" and "apply_logged E b entry t i = (b', out')"
  shows "out = out' \<and> cat_eq a' b' \<and> patch_env a' = patch_env b'"
proof -
  have a: "a = with_ring (history a) b"
    using assms(1,2) by (intro resource_catalog.equality) (simp_all add: cat_eq_def)
  have r: "wh_next_revision (history a) = wh_next_revision (history b)"
    using assms(1) by (simp add: cat_eq_def cat_revision_def wh_next_revision_def)
  have touched: "unreadable_touched_by a = unreadable_touched_by b"
    using assms(1) by (auto simp: unreadable_touched_by_def secret_fault_def cat_eq_def fun_eq_iff)
  have disp: "dispatch E a cmd oi n = map_prod (with_ring (history a)) id (dispatch E b cmd oi n)"
    for cmd oi n by (subst a) (rule dispatch_ring)
  have "out = out'"
    using assms(3,4)
    by (auto simp: apply_logged_def apply_under_def Let_def touched r disp split: option.splits prod.splits)
  moreover have "cat_eq a' b' \<and> patch_env a' = patch_env b'"
    using assms(1,2) \<open>out = out'\<close> apply_under_changes(2) [OF assms(3) [unfolded apply_logged_def]]
      apply_under_changes(2) [OF assms(4) [unfolded apply_logged_def]]
    by (auto simp: cat_eq_def cat_revision_def split: list.splits)
  ultimately show ?thesis by blast
qed

text \<open>What a log of entries does to a catalog that is never compacted and never restarts.\<close>

fun apply_all ::
  "externals \<Rightarrow> resource_catalog \<Rightarrow> applied_entry list \<Rightarrow> resource_catalog \<times> change list" where
  "apply_all E cat [] = (cat, [])"
| "apply_all E cat ((entry, t, i) # es) =
     (let (cat', out) = apply_logged E cat entry t i;
          (cat'', cs) = apply_all E cat' es
      in (cat'', out_changes out @ cs))"

lemma apply_all_snoc:
  "apply_all E cat (es @ [(entry, t, i)]) =
    (let (cat', cs) = apply_all E cat es;
         (cat'', out) = apply_logged E cat' entry t i
     in (cat'', cs @ out_changes out))"
  by (induction E cat es rule: apply_all.induct) (auto simp: Let_def split: prod.splits)

lemma steps_apply_all:
  assumes "cat_steps E cat es log cat'" and "cat_inv pre cat"
  shows "cat_eq cat' (fst (apply_all E cat es)) \<and> patch_env cat' = patch_env (fst (apply_all E cat es)) \<and>
    log = snd (apply_all E cat es)"
  using assms
proof (induction rule: cat_steps.induct)
  case (steps_refl cat)
  then show ?case by (simp add: cat_eq_def)
next
  case (steps_snoc cat es log cat1 es' cs cat2)
  have sh: "cat_shape cat1" using cat_inv_steps [OF steps_snoc(1,4)] by (simp add: cat_inv_def)
  note IH = steps_snoc(3) [OF steps_snoc(4)]
  obtain b log1 where b: "apply_all E cat es = (b, log1)" by fastforce
  show ?case
    using steps_snoc(2)
  proof cases
    case (step_apply entry t i out)
    obtain b' out' where b': "apply_logged E b entry t i = (b', out')" by fastforce
    from apply_logged_eq [OF _ _ step_apply(3) b'] IH b step_apply show ?thesis
      by (simp add: apply_all_snoc b')
  next
    case (step_compact target)
    then show ?thesis
      using IH by (auto simp: cat_compact_def cat_eq_def cat_revision_def Let_def prod_eq_iff
          split: prod.splits)
  next
    case (step_restart SE s nonce img)
    with image_reopens [OF sh, of SE s nonce img] IH show ?thesis
      by (simp add: cat_eq_def cat_revision_def wh_loaded_at_def)
  qed
qed

lemma apply_all_eq:
  assumes "cat_eq a b" and "patch_env a = patch_env b"
  shows "cat_eq (fst (apply_all E a es)) (fst (apply_all E b es)) \<and>
    snd (apply_all E a es) = snd (apply_all E b es)"
  using assms
proof (induction es arbitrary: a b)
  case (Cons e es)
  obtain entry t i where e: "e = (entry, t, i)" by (cases e) auto
  obtain a' oa where a': "apply_logged E a entry t i = (a', oa)" by fastforce
  obtain b' ob where b': "apply_logged E b entry t i = (b', ob)" by fastforce
  note eq = apply_logged_eq [OF Cons.prems a' b']
  with Cons.IH [of a' b'] show ?case by (auto simp: e a' b' Let_def split: prod.splits)
qed simp

section \<open>A small run\<close>

definition example_ext :: externals where
  "example_ext =
     \<lparr>ext_text = \<lparr>to_string = (\<lambda>v. ''{}''), from_str = (\<lambda>s. None)\<rparr>,
      ext_decode_ops = (\<lambda>v. Inl ''no''), ext_blake3 = (\<lambda>s. replicate 32 CHR ''b'')\<rparr>"

definition example_put :: "string \<Rightarrow> revision option \<Rightarrow> logged_command" where
  "example_put d expected =
     proposed (CmdPut example_config_map
       (JObject [(''data'', JString d), (''metadata'', JObject [(''uid'', JString ''u'')])])
       expected Operator)"

definition example_cat :: "nat \<Rightarrow> resource_catalog" where
  "example_cat n =
     (let cat0 = catalog_new 4 (\<lambda>_ _. LReplace);
          cat1 = fst (apply_logged example_ext cat0 (example_put ''one'' None) 1 1);
          cat2 = fst (apply_logged example_ext cat1 (example_put ''two'' (Some 1)) 1 2)
      in if n = 0 then cat0 else if n = 1 then cat1 else cat2)"

definition example_out :: apply_outcome where
  "example_out = snd (apply_logged example_ext (example_cat 1) (example_put ''two'' (Some 1)) 1 2)"

lemma example_steps:
  "\<exists>es log. cat_steps example_ext (catalog_new 4 (\<lambda>_ _. LReplace)) es log (example_cat 1)"
  "apply_logged example_ext (example_cat 1) (example_put ''two'' (Some 1)) 1 2 =
    (example_cat 2, example_out)"
  "cat_steps example_ext (example_cat 1) [(example_put ''two'' (Some 1), 1, 2)]
    (out_changes example_out) (example_cat 2)"
proof -
  let ?c = "catalog_new 4 (\<lambda>_ _. LReplace)"
  let ?r = "apply_logged example_ext ?c (example_put ''one'' None) 1 1"
  have "apply_logged example_ext ?c (example_put ''one'' None) 1 1 = (example_cat 1, snd ?r)"
    by (simp add: example_cat_def Let_def)
  from steps_snoc [OF steps_refl step_apply [OF this]]
  show "\<exists>es log. cat_steps example_ext ?c es log (example_cat 1)" by auto
  show two: "apply_logged example_ext (example_cat 1) (example_put ''two'' (Some 1)) 1 2 =
      (example_cat 2, example_out)"
    by (simp add: example_cat_def example_out_def Let_def)
  from steps_snoc [OF steps_refl step_apply [OF two]]
  show "cat_steps example_ext (example_cat 1) [(example_put ''two'' (Some 1), 1, 2)]
    (out_changes example_out) (example_cat 2)" by simp
qed

lemma example_committed: "out_changes example_out \<noteq> []"
  by code_simp

section \<open>Properties of the replicated catalog\<close>

text \<open>
  C1. List, then watch, loses nothing: a client that read the whole store at some moment and
  then asks for the changes since the revision it read, at any later moment and whatever
  the store went through in between, either gets exactly the changes committed in between,
  and applying them to what it read gives the later store, or is refused because the
  revision it read is below the compaction floor.
\<close>

theorem list_then_watch:
  assumes "cat_steps E (catalog_new cap env) es log cat" and "cat_steps E cat es' later cat'"
  shows "case changes_since cat' (cat_revision cat) of
      Inr cs \<Rightarrow> cs = later \<and> replay cs (resources cat) = resources cat'
    | Inl e \<Rightarrow> e = CompactedTooOld (cat_revision cat) (wh_floor (history cat')) \<and>
        cat_revision cat < wh_floor (history cat')"
proof -
  have inv: "cat_inv log cat" using cat_inv_steps [OF assms(1) cat_inv_new] by simp
  have inv': "cat_inv (log @ later) cat'" using cat_inv_steps [OF assms(2) inv] .
  have "ch_revision ` set log = {1..cat_revision cat}" using inv by (simp add: cat_inv_def)
  then have old: "\<forall>c \<in> set log. ch_revision c \<le> cat_revision cat"
    by (metis atLeastAtMost_iff image_eqI)
  note st = steps_resources [OF assms(2) inv]
  have "backs (log @ later) (history cat')" using inv' by (simp add: cat_inv_def)
  from wh.resume_log [OF this old] st show ?thesis
    by (simp add: changes_since_def)
qed

theorem list_then_watch_witness:
  "\<exists>cs. changes_since (example_cat 2) (cat_revision (example_cat 1)) = Inr cs \<and>
    replay cs (resources (example_cat 1)) = resources (example_cat 2)"
proof -
  have "\<not> isl (changes_since (example_cat 2) (cat_revision (example_cat 1)))" by code_simp
  moreover obtain es log where
    "cat_steps example_ext (catalog_new 4 (\<lambda>_ _. LReplace)) es log (example_cat 1)"
    using example_steps(1) by blast
  note list_then_watch [OF this example_steps(3)]
  ultimately show ?thesis by (auto split: sum.splits)
qed

text \<open>
  C4. The invariant of the catalog: whatever entries a replica that started empty has applied
  (and however it was compacted and restarted), its resources are the replay of every
  change ever committed; they are in key order; each object was created at a positive
  revision, last written at or after that and at most at the current revision, and carries
  the revision of its last write as its \<open>resourceVersion\<close>. Every revision up to the current
  one committed something, and there are at most as many revisions as entries, so a
  revision fits its 64 bits as long as the entries can be numbered in 64 bits.
\<close>

theorem catalog_invariant:
  assumes "cat_steps E (catalog_new cap env) es log cat"
  shows "resources cat = replay log [] \<and> resources_ok (cat_revision cat) (resources cat) \<and>
    ch_revision ` set log = {1..cat_revision cat} \<and> cat_revision cat \<le> length es"
  using cat_inv_steps [OF assms cat_inv_new] steps_resources [OF assms cat_inv_new]
  by (simp add: cat_inv_def) (simp add: cat_revision_def catalog_new_def wh_new_def)

theorem catalog_invariant_witness:
  "resources_ok (cat_revision (example_cat 1)) (resources (example_cat 1))"
proof -
  obtain es log where
    "cat_steps example_ext (catalog_new 4 (\<lambda>_ _. LReplace)) es log (example_cat 1)"
    using example_steps(1) by blast
  from catalog_invariant [OF this] show ?thesis by blast
qed

text \<open>
  C3. Replicas converge: two replicas that started empty and applied the same entries hold
  equal catalogs (resources, version metadata, applied position and revision) and committed
  the same changes in the same order, however differently they were compacted and
  restarted and whatever their ring capacities are.
\<close>

theorem replicas_converge:
  assumes "cat_steps E (catalog_new cap env) es log cat"
    and "cat_steps E (catalog_new cap' env) es log' cat'"
  shows "cat_eq cat cat' \<and> log = log'"
proof -
  let ?a = "catalog_new cap env" and ?b = "catalog_new cap' env"
  have "cat_eq ?a ?b" "patch_env ?a = patch_env ?b"
    by (simp_all add: cat_eq_def catalog_new_def cat_revision_def wh_new_def)
  then have "cat_eq (fst (apply_all E ?a es)) (fst (apply_all E ?b es)) \<and>
      snd (apply_all E ?a es) = snd (apply_all E ?b es)"
    by (rule apply_all_eq)
  then show ?thesis
    using steps_apply_all [OF assms(1) cat_inv_new] steps_apply_all [OF assms(2) cat_inv_new]
    by (auto simp: cat_eq_def)
qed

theorem replicas_converge_witness:
  "cat_eq (example_cat 1)
    (fst (cat_compact (fst (apply_logged example_ext (catalog_new 1 (\<lambda>_ _. LReplace))
       (example_put ''one'' None) 1 1)) 1))"
proof -
  let ?e = "example_put ''one'' None" and ?new = "\<lambda>cap. catalog_new cap (\<lambda>_ _. LReplace)"
  have run: "cat_steps example_ext (?new cap) ([] @ [(?e, 1, 1)])
      ([] @ out_changes (snd (apply_logged example_ext (?new cap) ?e 1 1)))
      (fst (apply_logged example_ext (?new cap) ?e 1 1))" for cap
    by (rule steps_snoc [OF steps_refl step_apply]) simp
  have "example_cat 1 = fst (apply_logged example_ext (?new 4) ?e 1 1)"
    by (simp add: example_cat_def Let_def)
  with replicas_converge [OF run [of 4, unfolded append_Nil]
      steps_snoc [OF run [of 1, unfolded append_Nil] step_compact [of _ _ 1], unfolded append_Nil2]]
  show ?thesis by simp
qed

text \<open>
  C5. One applied entry, on any catalog: the command's changes are exactly what happened to
  the resources, on keys the command names and nowhere else. When nothing changed, only the
  applied position moves; when something did, the revision advances by exactly one, and every
  change of the command carries that revision.
\<close>

theorem apply_commits_exactly:
  shows "let (cat', out) = apply_logged E cat entry t i; cs = out_changes out
    in (if cs = [] then cat' = cat\<lparr>last_applied_term := t, last_applied_index := i\<rparr>
        else cat_revision cat' = cat_revision cat + 1) \<and>
       list_all (\<lambda>c. ch_revision c = cat_revision cat + 1 \<and>
         ch_key c \<in> set (command_keys (lc_command entry))) cs \<and>
       resources cat' = replay cs (resources cat) \<and>
       last_applied_term cat' = t \<and> last_applied_index cat' = i"
proof -
  obtain cat' out where a: "apply_logged E cat entry t i = (cat', out)" by fastforce
  note u = apply_under_changes [OF a [unfolded apply_logged_def]]
  have "ch_key ` set (out_changes out) \<subseteq> set (command_keys (lc_command entry))"
    using a dispatch_keys
    by (auto simp: apply_logged_def apply_under_def Let_def split: option.splits prod.splits; blast)
  then show ?thesis
    using describe_all_revision [OF u(1)] u(2) a
    by (auto simp: list_all_iff cat_revision_def wh_next_revision_def next_rev_def split: list.splits)
qed

text \<open>
  C2. No lost update: of two writes that name the same key and expect the same revision of it
  (two clients that read the same version of the object), at most one commits. Once the
  first has committed, the second answers \<open>Conflict\<close> and leaves the resources alone, whatever
  was applied in between, even if the object was deleted and created again. An apply patch
  without its field manager is refused before the revision is looked at.
\<close>

theorem no_lost_update:
  assumes "cat_steps E (catalog_new cap env) es log cat"
    and "cas_of (lc_command first) = Some (key, Some n)"
    and "apply_logged E cat first t i = (cat1, out1)" and "out_changes out1 \<noteq> []"
    and "cat_steps E cat1 es' later cat2"
    and "cas_of (lc_command second) = Some (key, Some n)"
    and "\<forall>k p pt e rs. lc_command second = CmdPatch k p pt None e rs \<longrightarrow> pt \<noteq> PtApply"
    and "apply_logged E cat2 second t' i' = (cat3, out2)"
  shows "out_op out2 = Conflict \<and> out_changes out2 = [] \<and> resources cat3 = resources cat2"
proof -
  have inv: "cat_inv log cat" using cat_inv_steps [OF assms(1) cat_inv_new] by simp
  have step: "cat_step E cat [(first, t, i)] (out_changes out1) cat1"
    using assms(3) by (rule step_apply)
  note inv1 = cat_inv_step [OF step inv]
  have empty: "unreadable cat = []" "unreadable cat2 = []" "cat_shape cat"
    using inv cat_inv_steps [OF assms(5) inv1] by (simp_all add: cat_inv_def)
  obtain d where d: "dispatch E cat (lc_command first) (on_identical_under (lc_semantics first))
      (cat_revision cat + 1) = (d, out1)"
    using apply_logged_dispatch [OF empty(1) assms(3)] by blast
  obtain v vm where "map_of (resources cat) key = Some (v, vm)" "mod_revision vm = n"
    using dispatch_commits_fresh [OF assms(2) d assms(4)] .
  then have n: "n \<le> cat_revision cat"
    using inv by (auto simp: cat_inv_def resources_ok_def meta_ok_def)
  note sh = step_shape [OF step empty(3)]
  have "set (command_keys (lc_command first)) = {key}"
    using assms(2) by (cases "lc_command first") auto
  then have "key \<in> ch_key ` set (out_changes out1)"
    using dispatch_keys [OF d] assms(4) by (cases "out_changes out1") auto
  then have "newer key n (resources cat1)"
    using newer_after_write [of "resources cat" "cat_revision cat + 1" "out_changes out1" n key] sh n
    by simp
  then have "newer key n (resources cat2)"
    using newer_steps [OF assms(5) inv1] sh n assms(4) by simp
  then have "\<forall>v vm. map_of (resources cat2) key = Some (v, vm) \<longrightarrow> mod_revision vm \<noteq> n"
    by (auto simp: newer_def)
  note stale = dispatch_stale [OF assms(6) this assms(7)]
  obtain d2 where "dispatch E cat2 (lc_command second) (on_identical_under (lc_semantics second))
      (cat_revision cat2 + 1) = (d2, out2)"
    using apply_logged_dispatch [OF empty(2) assms(8)] by blast
  then have "out2 = no_change Conflict" using stale by simp
  moreover have "resources cat3 = replay (out_changes out2) (resources cat2)"
    using apply_under_changes(2) [OF assms(8) [unfolded apply_logged_def]] by simp
  ultimately show ?thesis by simp
qed

theorem no_lost_update_witness:
  "out_op (snd (apply_logged example_ext (example_cat 2) (example_put ''three'' (Some 1)) 1 3)) = Conflict"
proof -
  obtain es log where
    "cat_steps example_ext (catalog_new 4 (\<lambda>_ _. LReplace)) es log (example_cat 1)"
    using example_steps(1) by blast
  moreover have cas: "cas_of (lc_command (example_put d (Some 1))) = Some (example_config_map, Some 1)" for d
    by (simp add: example_put_def proposed_def)
  moreover have "\<forall>k p pt e rs. lc_command (example_put ''three'' (Some 1)) = CmdPatch k p pt None e rs \<longrightarrow>
      pt \<noteq> PtApply"
    by (simp add: example_put_def proposed_def)
  moreover obtain cat3 out where
    a: "apply_logged example_ext (example_cat 2) (example_put ''three'' (Some 1)) 1 3 = (cat3, out)"
    by fastforce
  ultimately have "out_op out = Conflict"
    using no_lost_update [OF _ cas example_steps(2) example_committed steps_refl cas] by blast
  with a show ?thesis by simp
qed

end
