(* ===== verification/Reads.thy ===== *)
theory Reads
  imports Runs
begin

text \<open>
  Reading the catalog (\<open>engenho-store/src/read.rs\<close>, \<open>pagination.rs\<close> and the read side of
  \<open>state.rs\<close>): how fresh a read must be, the pages of a list, continue tokens, and reads of the
  past, which rewind the live map through the pre-images of the retained changes.

  A range query of the map may panic, so the operations built on one return an option; the
  properties show they never do.
\<close>

section \<open>How fresh a read must be\<close>

datatype read_consistency = Latest | NotOlderThan revision | Exact revision

datatype read_point = Head | Past revision

datatype read_refused =
    TooLarge revision revision
  | Expired revision revision
  | NotLinearizable "nat option"
  | SecretUnreadable seal_fault

definition required :: "read_consistency \<Rightarrow> revision option" where
  "required rc = (case rc of Latest \<Rightarrow> None | NotOlderThan rv \<Rightarrow> Some rv | Exact rv \<Rightarrow> Some rv)"

definition judge :: "read_consistency \<Rightarrow> revision \<Rightarrow> revision \<Rightarrow> (read_refused, read_point) result" where
  "judge rc head floor_rev =
     (case rc of
        Latest \<Rightarrow> Inr Head
      | NotOlderThan rv \<Rightarrow> (if rv > head then Inl (TooLarge rv head) else Inr Head)
      | Exact rv \<Rightarrow>
          (if rv > head then Inl (TooLarge rv head)
           else if rv < floor_rev then Inl (Expired rv floor_rev)
           else if rv < head then Inr (Past rv)
           else Inr Head))"

definition expired_of :: "compacted_too_old \<Rightarrow> read_refused" where
  "expired_of e = Expired (requested e) (compacted e)"

section \<open>Pages\<close>

record list_page_rec =
  lp_items :: "(resource_key \<times> json) list"
  lp_next :: "resource_key option"
  lp_remaining :: nat

record page_at_revision =
  par_items :: "(resource_key \<times> json) list"
  par_revision :: revision
  par_next :: "resource_key option"
  par_remaining :: nat

definition cloned_at :: "list_page_rec \<Rightarrow> revision \<Rightarrow> page_at_revision" where
  "cloned_at p r =
     \<lparr>par_items = lp_items p, par_revision = r, par_next = lp_next p, par_remaining = lp_remaining p\<rparr>"

text \<open>The number of remaining items fits the \<open>u64\<close> it is converted to, as every length does.\<close>

definition page_of :: "(resource_key \<times> json) list \<Rightarrow> nat \<Rightarrow> list_page_rec" where
  "page_of run limit =
     (if limit = 0 then \<lparr>lp_items = run, lp_next = None, lp_remaining = 0\<rparr>
      else (let items = take limit run;
                remaining = length (drop limit run);
                next = (if remaining > 0
                        then (case items of [] \<Rightarrow> None | _ \<Rightarrow> Some (fst (last items)))
                        else None)
            in \<lparr>lp_items = items, lp_next = next, lp_remaining = remaining\<rparr>))"

definition item_of :: "resource_key \<times> json \<times> version_meta \<Rightarrow> resource_key \<times> json" where
  "item_of e = (case e of (k, v, _) \<Rightarrow> (k, v))"

definition cat_page ::
  "resource_catalog \<Rightarrow> list_scope \<Rightarrow> resource_key option \<Rightarrow> nat \<Rightarrow> list_page_rec option" where
  "cat_page cat sc after limit =
     map_option (\<lambda>run. page_of (map item_of run) limit) (scope_range sc (resources cat) after)"

definition list_at_revision ::
  "resource_catalog \<Rightarrow> list_scope \<Rightarrow> ((resource_key \<times> json) list \<times> revision) option" where
  "list_at_revision cat sc =
     map_option (\<lambda>run. (map item_of run, cat_revision cat)) (scope_range sc (resources cat) None)"

definition list_page_at_revision ::
  "resource_catalog \<Rightarrow> list_scope \<Rightarrow> resource_key option \<Rightarrow> nat \<Rightarrow> page_at_revision option" where
  "list_page_at_revision cat sc after limit =
     map_option (\<lambda>p. cloned_at p (cat_revision cat)) (cat_page cat sc after limit)"

definition cat_get :: "resource_catalog \<Rightarrow> resource_key \<Rightarrow> json option" where
  "cat_get cat key = map_option fst (map_of (resources cat) key)"

definition get_with_meta :: "resource_catalog \<Rightarrow> resource_key \<Rightarrow> (json \<times> version_meta) option" where
  "get_with_meta cat key = map_of (resources cat) key"

section \<open>Rewinding\<close>

datatype as_of = Live json version_meta | Undone json change

fun as_of_value :: "as_of \<Rightarrow> json" where
  "as_of_value (Live v _) = v"
| "as_of_value (Undone v _) = v"

definition undo ::
  "(resource_key \<Rightarrow> bool) \<Rightarrow> change \<Rightarrow> (resource_key, as_of) btree_map \<Rightarrow> (resource_key, as_of) btree_map" where
  "undo selects c state =
     (if \<not> selects (ch_key c) then state
      else case ch_prior c of
             Some v \<Rightarrow> bm_insert (ch_key c) (Undone v c) state
           | None \<Rightarrow> bm_remove (ch_key c) state)"

definition rewind ::
  "stored \<Rightarrow> change list \<Rightarrow> (resource_key \<Rightarrow> bool) \<Rightarrow> (resource_key, as_of) btree_map" where
  "rewind present later selects =
     fold (undo selects) (rev later) (map (\<lambda>(k, v, vm). (k, Live v vm)) present)"

datatype meta_fidelity = ExactMeta | ModRevisionFloor

record historical_entry =
  he_value :: json
  he_meta :: version_meta
  he_fidelity :: meta_fidelity

definition historical :: "revision \<Rightarrow> as_of \<Rightarrow> historical_entry" where
  "historical floor_rev a =
     (case a of
        Live v vm \<Rightarrow> \<lparr>he_value = v, he_meta = vm, he_fidelity = ExactMeta\<rparr>
      | Undone v by_change \<Rightarrow>
          \<lparr>he_value = v,
           he_meta = \<lparr>create_revision = create_revision (ch_meta by_change), mod_revision = floor_rev,
                      key_version = 1\<rparr>,
           he_fidelity = ModRevisionFloor\<rparr>)"

definition correct_meta ::
  "change \<Rightarrow> (resource_key, historical_entry) btree_map \<Rightarrow> (resource_key, historical_entry) btree_map" where
  "correct_meta c state =
     (case map_of state (ch_key c) of
        Some e \<Rightarrow> bm_insert (ch_key c) (e\<lparr>he_meta := ch_meta c, he_fidelity := ExactMeta\<rparr>) state
      | None \<Rightarrow> state)"

definition state_at ::
  "resource_catalog \<Rightarrow> revision \<Rightarrow> (compacted_too_old, (resource_key, historical_entry) btree_map) result" where
  "state_at cat r =
     (case wh_split (history cat) r of
        Inl e \<Rightarrow> Inl e
      | Inr (through, after) \<Rightarrow>
          Inr (fold correct_meta through
                 (map (\<lambda>(k, a). (k, historical (wh_floor (history cat)) a))
                    (rewind (resources cat) after (\<lambda>_. True)))))"

definition get_at ::
  "resource_catalog \<Rightarrow> resource_key \<Rightarrow> revision \<Rightarrow> (compacted_too_old, historical_entry option) result" where
  "get_at cat key r = map_sum id (\<lambda>state. map_of state key) (state_at cat r)"

section \<open>Reads under a consistency\<close>

definition read_page ::
  "resource_catalog \<Rightarrow> list_scope \<Rightarrow> resource_key option \<Rightarrow> nat \<Rightarrow> read_consistency
    \<Rightarrow> (read_refused, page_at_revision) result option" where
  "read_page cat sc after limit rc =
     Option.bind (scope_range sc (unreadable cat) None) (\<lambda>shut.
       case shut of
         (_, entry) # _ \<Rightarrow> Some (Inl (SecretUnreadable (ur_fault entry)))
       | [] \<Rightarrow>
           (case judge rc (wh_head (history cat)) (wh_floor (history cat)) of
              Inl e \<Rightarrow> Some (Inl e)
            | Inr Head \<Rightarrow> map_option Inr (list_page_at_revision cat sc after limit)
            | Inr (Past r) \<Rightarrow>
                Option.bind (scope_range sc (resources cat) None) (\<lambda>present.
                  case wh_since (history cat) r of
                    Inl e \<Rightarrow> Some (Inl (expired_of e))
                  | Inr later \<Rightarrow>
                      (let past = rewind present later (scope_contains sc);
                           from = (case after of None \<Rightarrow> Unbounded | Some k \<Rightarrow> Excluded k)
                       in map_option (\<lambda>run.
                            Inr (cloned_at (page_of (map (\<lambda>(k, a). (k, as_of_value a)) run) limit) r))
                            (bm_range from Unbounded past)))))"

definition read_one ::
  "resource_catalog \<Rightarrow> resource_key \<Rightarrow> read_consistency \<Rightarrow> (read_refused, json option) result" where
  "read_one cat key rc =
     (case secret_fault cat key of
        Some fault \<Rightarrow> Inl (SecretUnreadable fault)
      | None \<Rightarrow>
          (case judge rc (wh_head (history cat)) (wh_floor (history cat)) of
             Inl e \<Rightarrow> Inl e
           | Inr Head \<Rightarrow> Inr (cat_get cat key)
           | Inr (Past r) \<Rightarrow>
               (case wh_since (history cat) r of
                  Inl e \<Rightarrow> Inl (expired_of e)
                | Inr later \<Rightarrow>
                    Inr (map_option as_of_value (map_of
                      (rewind (case map_of (resources cat) key of None \<Rightarrow> [] | Some e \<Rightarrow> [(key, e)])
                         later (\<lambda>changed. changed = key)) key)))))"

section \<open>Continue tokens\<close>

record continue_token =
  ct_snapshot_rev :: revision
  ct_last_key :: resource_key

text \<open>The JSON codec of a token (\<open>serde_json\<close>) and the hash (\<open>blake3\<close>).\<close>

record token_codec =
  tc_to_vec :: "continue_token \<Rightarrow> string"
  tc_from_slice :: "string \<Rightarrow> continue_token option"
  tc_blake3 :: "string \<Rightarrow> string"

definition continue_token_version :: char where
  "continue_token_version = CHR 0x01"

definition digest_prefix_len :: nat where
  "digest_prefix_len = 8"

datatype continue_invalid = ContinueInvalid (reason_of: string)

definition ct_encode :: "token_codec \<Rightarrow> continue_token \<Rightarrow> string" where
  "ct_encode C t =
     (let json = tc_to_vec C t
      in to_hex (continue_token_version # take digest_prefix_len (tc_blake3 C json) @ json))"

definition ct_decode :: "token_codec \<Rightarrow> string \<Rightarrow> (continue_invalid, continue_token) result" where
  "ct_decode C s =
     (case from_hex s of
        None \<Rightarrow> Inl (ContinueInvalid ''bad_hex'')
      | Some raw \<Rightarrow>
          (if length raw < 1 + digest_prefix_len then Inl (ContinueInvalid ''too_short'')
           else if raw ! 0 \<noteq> continue_token_version then Inl (ContinueInvalid ''bad_version'')
           else
             (let digest_prefix = take digest_prefix_len (drop 1 raw);
                  json = drop (1 + digest_prefix_len) raw
              in if take digest_prefix_len (tc_blake3 C json) \<noteq> digest_prefix
                 then Inl (ContinueInvalid ''digest_mismatch'')
                 else case tc_from_slice C json of
                        None \<Rightarrow> Inl (ContinueInvalid ''bad_json'')
                      | Some t \<Rightarrow> Inr t)))"

section \<open>What rewinding recovers\<close>

text \<open>
  A sequence of changes whose pre-images, on the keys of a set, are what was stored, and which
  keep the creation revision of an object for as long as it is stored.
\<close>

fun honest :: "(resource_key \<Rightarrow> bool) \<Rightarrow> stored \<Rightarrow> change list \<Rightarrow> bool" where
  "honest P m [] = True"
| "honest P m (c # cs) \<longleftrightarrow>
     (P (ch_key c) \<longrightarrow>
        ch_prior c = map_option fst (map_of m (ch_key c)) \<and>
        (\<forall>v vm. map_of m (ch_key c) = Some (v, vm) \<longrightarrow>
          create_revision (ch_meta c) = create_revision vm)) \<and>
     honest P (apply_change c m) cs"

definition is_release :: "change \<Rightarrow> bool" where
  "is_release c \<longleftrightarrow> ch_kind c = ChDelete \<and> finalizers_released (ch_value c)"

text \<open>No object of a set of keys was removed by a write that took its last finalizer away.\<close>

definition unreleased :: "(resource_key \<Rightarrow> bool) \<Rightarrow> change list \<Rightarrow> bool" where
  "unreleased P cs \<longleftrightarrow> (\<forall>c \<in> set cs. P (ch_key c) \<longrightarrow> \<not> is_release c)"

lemma honest_append: "honest P m (cs @ ds) \<longleftrightarrow> honest P m cs \<and> honest P (replay cs m) ds"
  by (induction cs arbitrary: m) auto

lemma describe_all_honest:
  "describe_all m r cs \<Longrightarrow> unreleased P cs \<Longrightarrow> honest P m cs"
proof (induction cs arbitrary: m)
  case (Cons c cs)
  then have "ch_prior c = map_option fst (map_of m (ch_key c))" if "P (ch_key c)"
    using that by (auto simp: describes_def unreleased_def is_release_def split: change_kind.splits)
  moreover have "create_revision (ch_meta c) = create_revision vm"
    if "map_of m (ch_key c) = Some (v, vm)" for v vm
    using Cons.prems(1) that
    by (auto simp: describes_def version_meta_at_def bumped_at_def split: change_kind.splits)
  ultimately show ?case using Cons by (simp add: unreleased_def)
qed simp

lemma steps_honest:
  assumes "cat_steps E cat es cs cat'" and "cat_inv log cat" and "unreleased P cs"
  shows "honest P (resources cat) cs"
  using assms
proof (induction rule: cat_steps.induct)
  case (steps_snoc cat es log1 cat1 es' cs cat2)
  have sh: "cat_shape cat1" using cat_inv_steps [OF steps_snoc(1,4)] by (simp add: cat_inv_def)
  have ur: "unreleased P log1" "unreleased P cs" using steps_snoc(5) by (auto simp: unreleased_def)
  have "honest P (resources cat1) cs"
    using step_shape [OF steps_snoc(2) sh] describe_all_honest [OF _ ur(2)] by auto
  with steps_snoc(3) [OF steps_snoc(4) ur(1)] steps_resources [OF steps_snoc(1,4)]
  show ?case by (simp add: honest_append)
qed simp

lemma rewind_Cons: "rewind present (c # cs) sel = undo sel c (rewind present cs sel)"
  by (simp add: rewind_def)

lemma bm_ok_rewind: "bm_ok present \<Longrightarrow> bm_ok (rewind present cs sel)"
proof (induction cs)
  case Nil
  then show ?case by (simp add: rewind_def bm_ok_def comp_def case_prod_beta')
next
  case (Cons c cs)
  then show ?case by (simp add: rewind_Cons undo_def split: option.split)
qed

lemma map_of_present:
  "map_of (map (\<lambda>(k, v, vm). (k, Live v vm)) present) k = map_option (\<lambda>(v, vm). Live v vm) (map_of present k)"
  by (induction present) auto

text \<open>Undoing the changes of a selection leaves its keys with the values they had before.\<close>

lemma rewind_value:
  assumes "honest P m cs" and "sel k \<Longrightarrow> P k" and "sel k \<Longrightarrow> map_of present k = map_of (replay cs m) k"
    and "\<not> sel k \<Longrightarrow> map_of present k = None"
  shows "map_option as_of_value (map_of (rewind present cs sel) k) =
    (if sel k then map_option fst (map_of m k) else None)"
  using assms
proof (induction cs arbitrary: m)
  case Nil
  then show ?case
    by (cases "sel k"; cases "map_of m k") (auto simp: rewind_def map_of_present)
next
  case (Cons c cs)
  note IH = Cons.IH [of "apply_change c m"]
  show ?case
  proof (cases "ch_key c = k \<and> sel k")
    case True
    then show ?thesis
      using Cons.prems(1,2) by (auto simp: rewind_Cons undo_def split: option.splits)
  next
    case False
    have "map_of (undo sel c st) k = map_of st k" for st
      using False by (auto simp: undo_def split: option.split)
    moreover have "sel k \<Longrightarrow> map_of (apply_change c m) k = map_of m k"
      using False by (auto simp: apply_change_def split: change_kind.split)
    ultimately show ?thesis
      using IH Cons.prems by (simp add: rewind_Cons)
  qed
qed

text \<open>A map with its values read, in order.\<close>

lemma bm_ok_map_values: "bm_ok m \<Longrightarrow> bm_ok (map (\<lambda>(k, a). (k, f a)) m)"
  by (simp add: bm_ok_def comp_def case_prod_beta')

lemma map_of_map_values: "map_of (map (\<lambda>(k, a). (k, f a)) m) k = map_option f (map_of m k)"
  by (induction m) auto

lemma map_of_filter_key:
  "map_of (filter (\<lambda>(k, _). P k) m) k = (if P k then map_of m k else None)"
  by (induction m) auto

lemma filter_map_values:
  "filter (\<lambda>(k, _). P k) (map (\<lambda>(k, a). (k, f a)) m) = map (\<lambda>(k, a). (k, f a)) (filter (\<lambda>(k, _). P k) m)"
  by (induction m) auto

lemma filter_map_items:
  "filter (\<lambda>(k, _). P k) (map item_of m) = map item_of (filter (\<lambda>(k, _). P k) m)"
  by (induction m) (auto simp: item_of_def)

lemma filter_filter_keys:
  "filter (\<lambda>(k, _). P k) (filter (\<lambda>(k, _). Q k) m) = filter (\<lambda>(k, _). Q k \<and> P k) m"
  by (induction m) auto

lemma rewind_items:
  assumes "honest sel m cs" and "bm_ok m" and "bm_ok (replay cs m)"
  shows "map (\<lambda>(k, a). (k, as_of_value a))
      (rewind (filter (\<lambda>(k, _). sel k) (replay cs m)) cs sel) =
    map item_of (filter (\<lambda>(k, _). sel k) m)"
proof (rule bm_ok_ext)
  let ?past = "rewind (filter (\<lambda>(k, _). sel k) (replay cs m)) cs sel"
  have item: "item_of = (\<lambda>(k, e). (k, fst e))" by (auto simp: item_of_def fun_eq_iff)
  show "bm_ok (map (\<lambda>(k, a). (k, as_of_value a)) ?past)"
    using assms(3) by (intro bm_ok_map_values bm_ok_rewind) auto
  show "bm_ok (map item_of (filter (\<lambda>(k, _). sel k) m))"
    unfolding item using assms(2) by (intro bm_ok_map_values) auto
  show "map_of (map (\<lambda>(k, a). (k, as_of_value a)) ?past) = map_of (map item_of (filter (\<lambda>(k, _). sel k) m))"
  proof
    fix k
    have "map_option as_of_value (map_of ?past k) = (if sel k then map_option fst (map_of m k) else None)"
      by (rule rewind_value [OF assms(1)]) (simp_all add: map_of_filter_key)
    then show "map_of (map (\<lambda>(k, a). (k, as_of_value a)) ?past) k =
        map_of (map item_of (filter (\<lambda>(k, _). sel k) m)) k"
      unfolding item by (simp add: map_of_map_values map_of_filter_key)
  qed
qed

section \<open>What the retained changes say of a key\<close>

abbreviation changes_of :: "resource_key \<Rightarrow> change list \<Rightarrow> change list" where
  "changes_of k cs \<equiv> filter (\<lambda>c. ch_key c = k) cs"

definition put_of :: "change \<Rightarrow> (json \<times> version_meta) option" where
  "put_of c = (case ch_kind c of ChPut \<Rightarrow> Some (ch_value c, ch_meta c) | ChDelete \<Rightarrow> None)"

lemma map_of_apply_change:
  "map_of (apply_change c m) k = (if ch_key c = k then put_of c else map_of m k)"
  by (auto simp: apply_change_def put_of_def split: change_kind.split)

lemma map_of_replay:
  "map_of (replay cs m) k =
    (if changes_of k cs = [] then map_of m k else put_of (last (changes_of k cs)))"
  by (induction cs arbitrary: m) (auto simp: map_of_apply_change)

lemma map_of_rewind:
  "sel k \<Longrightarrow> map_of (rewind present cs sel) k =
    (case changes_of k cs of
       [] \<Rightarrow> map_option (\<lambda>(v, vm). Live v vm) (map_of present k)
     | c # _ \<Rightarrow> map_option (\<lambda>v. Undone v c) (ch_prior c))"
proof (induction cs)
  case Nil
  then show ?case by (simp add: rewind_def map_of_present)
next
  case (Cons c cs)
  then show ?case
    by (auto simp: rewind_Cons undo_def split: option.splits)
qed

lemma map_of_correct_meta:
  "map_of (fold correct_meta cs st) k =
    map_option (\<lambda>e. if changes_of k cs = [] then e
      else e\<lparr>he_meta := ch_meta (last (changes_of k cs)), he_fidelity := ExactMeta\<rparr>) (map_of st k)"
proof (induction cs arbitrary: st)
  case (Cons c cs)
  have "map_of (correct_meta c st) k =
      (if ch_key c = k then map_option (\<lambda>e. e\<lparr>he_meta := ch_meta c, he_fidelity := ExactMeta\<rparr>) (map_of st k)
       else map_of st k)"
    by (auto simp: correct_meta_def split: option.split)
  with Cons show ?case
    by (cases "map_of st k") (auto split: if_splits)
qed (simp add: option.map_ident)

lemma honest_first:
  "honest (\<lambda>k'. k' = k) m cs \<Longrightarrow> changes_of k cs = d # ds \<Longrightarrow> map_of m k = Some (v, vm) \<Longrightarrow>
    create_revision (ch_meta d) = create_revision vm"
  by (induction cs arbitrary: m) (auto simp: map_of_apply_change split: if_splits)

lemma last_filter: "xs \<noteq> [] \<Longrightarrow> P (last xs) \<Longrightarrow> last (filter P xs) = last xs"
  by (cases xs rule: rev_cases) auto

lemma sorted_last: "sorted (map f xs) \<Longrightarrow> x \<in> set xs \<Longrightarrow> f x \<le> f (last xs)"
  by (cases xs rule: rev_cases) (auto simp: sorted_append)

text \<open>A stored object is the last change of its key, and was last written at that change.\<close>

lemma steps_put_revision:
  assumes "cat_steps E cat es cs cat'" and "cat_inv log cat"
    and "\<forall>c \<in> set log. ch_kind c = ChPut \<longrightarrow> mod_revision (ch_meta c) = ch_revision c"
  shows "\<forall>c \<in> set (log @ cs). ch_kind c = ChPut \<longrightarrow> mod_revision (ch_meta c) = ch_revision c"
  using assms
proof (induction rule: cat_steps.induct)
  case (steps_snoc cat es log1 cat1 es' cs cat2)
  have sh: "cat_shape cat1" using cat_inv_steps [OF steps_snoc(1,4)] by (simp add: cat_inv_def)
  have "\<forall>c \<in> set cs. ch_kind c = ChPut \<longrightarrow> mod_revision (ch_meta c) = ch_revision c"
    if "describe_all m r cs" for m r cs
    using that
    by (induction cs arbitrary: m)
      (auto simp: describes_def version_meta_at_def created_at_def bumped_at_def split: option.splits)
  then show ?case
    using step_shape [OF steps_snoc(2) sh] steps_snoc(3) [OF steps_snoc(4,5)] by auto
qed simp

lemma stored_last_change:
  assumes "cat_steps E (catalog_new cap env) es log cat"
    and "map_of (resources cat) k = Some (v, vm)"
  obtains c where "changes_of k log \<noteq> []" "c = last (changes_of k log)" "ch_meta c = vm"
    "ch_revision c = mod_revision vm"
proof -
  have "resources cat = replay log []"
    using cat_inv_steps [OF assms(1) cat_inv_new] by (simp add: cat_inv_def)
  then have ne: "changes_of k log \<noteq> []" and put: "put_of (last (changes_of k log)) = Some (v, vm)"
    using assms(2) by (auto simp: map_of_replay split: if_splits)
  have "last (changes_of k log) \<in> set log" using last_in_set [OF ne] by auto
  with steps_put_revision [OF assms(1) cat_inv_new] put that ne show thesis
    by (auto simp: put_of_def split: change_kind.splits)
qed

text \<open>Cutting a page from a run and resuming after its last key.\<close>

lemma resume_after_take:
  assumes "bm_ok xs" and "0 < n" and "n < length xs"
  shows "filter (\<lambda>(k, _). fst (last (take n xs)) < k) xs = drop n xs"
proof -
  have srt: "sorted_wrt (<) (map fst (take n xs @ drop n xs))" using assms(1) by (simp add: bm_ok_def)
  have tk: "sorted_wrt (<) (map fst (take n xs))"
    using assms(1) unfolding take_map [symmetric] bm_ok_def by (rule sorted_wrt_take)
  have ne: "take n xs \<noteq> []" using assms(2,3) by auto
  have "k \<le> fst (last (take n xs))" if "(k, v) \<in> set (take n xs)" for k v
    using tk that sorted_last [of fst "take n xs" "(k, v)"] by (simp add: strict_sorted_imp_sorted)
  moreover have "fst (last (take n xs)) < k" if "(k, v) \<in> set (drop n xs)" for k v
    using srt that last_in_set [OF ne] unfolding map_append sorted_wrt_append by force
  ultimately have "filter (\<lambda>(k, _). fst (last (take n xs)) < k) (take n xs) = []"
      "filter (\<lambda>(k, _). fst (last (take n xs)) < k) (drop n xs) = drop n xs"
    by (fastforce simp: filter_empty_conv filter_id_conv not_less)+
  then show ?thesis by (metis append_Nil append_take_drop_id filter_append)
qed

definition scope_items ::
  "resource_catalog \<Rightarrow> list_scope \<Rightarrow> resource_key option \<Rightarrow> (resource_key \<times> json) list" where
  "scope_items cat sc after =
     filter (\<lambda>(k, _). scope_contains sc k \<and> (case after of None \<Rightarrow> True | Some c \<Rightarrow> c < k))
       (map item_of (resources cat))"

lemma list_page_items:
  "list_page_at_revision cat sc after limit =
    Some (cloned_at (page_of (scope_items cat sc after) limit) (cat_revision cat))"
  by (simp add: list_page_at_revision_def cat_page_def scope_range_filter scope_items_def filter_map_items)

lemma bm_ok_scope_items:
  assumes "bm_ok (resources cat)"
  shows "bm_ok (scope_items cat sc after)"
proof -
  have "bm_ok (map item_of (resources cat))"
    using assms by (simp add: bm_ok_def comp_def item_of_def case_prod_beta')
  then show ?thesis unfolding scope_items_def by (rule bm_ok_filter)
qed

lemma scope_items_resume:
  assumes "(k, v) \<in> set (scope_items cat sc after)"
  shows "scope_items cat sc (Some k) = filter (\<lambda>(x, _). k < x) (scope_items cat sc after)"
  using assms unfolding scope_items_def filter_filter_keys
  by (cases after) (auto intro!: filter_cong)

lemma page_resume:
  assumes "bm_ok (resources cat)" and "0 < limit" and "limit < length (scope_items cat sc after)"
  shows "scope_items cat sc (Some (fst (last (take limit (scope_items cat sc after))))) =
    drop limit (scope_items cat sc after)"
proof -
  let ?items = "scope_items cat sc after"
  have "take limit ?items \<noteq> []" using assms(2,3) by auto
  then have "last (take limit ?items) \<in> set ?items" by (meson in_set_takeD last_in_set)
  then show ?thesis
    using scope_items_resume [of "fst (last (take limit ?items))" "snd (last (take limit ?items))"]
      resume_after_take [OF bm_ok_scope_items [OF assms(1)] assms(2,3)] by simp
qed

text \<open>A client that follows the cursor from page to page, for at most \<open>n\<close> pages.\<close>

fun follow_pages ::
  "nat \<Rightarrow> resource_catalog \<Rightarrow> list_scope \<Rightarrow> resource_key option \<Rightarrow> nat \<Rightarrow> (resource_key \<times> json) list option" where
  "follow_pages 0 cat sc after limit = None"
| "follow_pages (Suc n) cat sc after limit =
     (case list_page_at_revision cat sc after limit of
        None \<Rightarrow> None
      | Some p \<Rightarrow>
          (case par_next p of
             None \<Rightarrow> Some (par_items p)
           | Some k \<Rightarrow> map_option (append (par_items p)) (follow_pages n cat sc (Some k) limit)))"

lemma follow_pages_items:
  assumes "bm_ok (resources cat)" and "length (scope_items cat sc after) < n"
  shows "follow_pages n cat sc after limit = Some (scope_items cat sc after)"
  using assms(2)
proof (induction n arbitrary: after)
  case (Suc n)
  let ?items = "scope_items cat sc after"
  show ?case
  proof (cases "0 < limit \<and> limit < length ?items")
    case True
    then have "take limit ?items \<noteq> []" by auto
    then have nxt: "par_next (cloned_at (page_of ?items limit) (cat_revision cat)) =
        Some (fst (last (take limit ?items)))"
      using True by (auto simp: cloned_at_def page_of_def Let_def split: list.split)
    have "follow_pages n cat sc (Some (fst (last (take limit ?items)))) limit = Some (drop limit ?items)"
    proof -
      have "length ?items - limit < n" using Suc.prems True by linarith
      with Suc.IH [of "Some (fst (last (take limit ?items)))"] page_resume [OF assms(1), of limit sc after] True
      show ?thesis by simp
    qed
    with True nxt show ?thesis
      by (simp add: list_page_items) (simp add: cloned_at_def page_of_def Let_def)
  next
    case False
    then have "par_next (cloned_at (page_of ?items limit) (cat_revision cat)) = None"
        "par_items (cloned_at (page_of ?items limit) (cat_revision cat)) = ?items"
      by (auto simp: cloned_at_def page_of_def Let_def)
    then show ?thesis by (simp add: list_page_items)
  qed
qed simp

section \<open>Properties of reads\<close>

lemma past_page:
  assumes "honest (scope_contains sc) (resources cat) later" and "resources cat' = replay later (resources cat)"
    and "bm_ok (resources cat)" and "bm_ok (resources cat')" and "unreadable cat' = []"
    and "judge (Exact r) (wh_head (history cat')) (wh_floor (history cat')) = Inr (Past r)"
    and "wh_since (history cat') r = Inr later" and "cat_revision cat = r"
  shows "read_page cat' sc after limit (Exact r) = map_option Inr (list_page_at_revision cat sc after limit)"
proof -
  let ?past = "rewind (filter (\<lambda>(k, _). scope_contains sc k) (resources cat')) later (scope_contains sc)"
  let ?from = "case after of None \<Rightarrow> Unbounded | Some k \<Rightarrow> Excluded k"
  let ?P = "\<lambda>k. case after of None \<Rightarrow> True | Some cursor \<Rightarrow> cursor < k"
  have items: "map (\<lambda>(k, a). (k, as_of_value a)) ?past =
      map item_of (filter (\<lambda>(k, _). scope_contains sc k) (resources cat))"
    using rewind_items [OF assms(1,3)] assms(2,4) by simp
  have run: "map (\<lambda>(k, a). (k, as_of_value a)) (filter (\<lambda>(k, _). ?P k) ?past) =
      map item_of (filter (\<lambda>(k, _). scope_contains sc k \<and> ?P k) (resources cat))"
    unfolding filter_map_values [symmetric] items filter_map_items filter_filter_keys ..
  have "bm_range ?from Unbounded ?past = Some (filter (\<lambda>(k, _). ?P k) ?past)"
    by (cases after) (simp_all add: bm_range_def)
  with assms(5-8) run show ?thesis
    by (simp add: read_page_def scope_range_filter list_page_at_revision_def cat_page_def Let_def)
qed

lemma past_one:
  assumes "honest (\<lambda>k. k = key) (resources cat) later" and "resources cat' = replay later (resources cat)"
    and "unreadable cat' = []"
    and "judge (Exact r) (wh_head (history cat')) (wh_floor (history cat')) = Inr (Past r)"
    and "wh_since (history cat') r = Inr later"
  shows "read_one cat' key (Exact r) = Inr (cat_get cat key)"
proof -
  let ?present = "case map_of (resources cat') key of None \<Rightarrow> [] | Some e \<Rightarrow> [(key, e)]"
  have "map_option as_of_value (map_of (rewind ?present later (\<lambda>k. k = key)) key) = cat_get cat key"
    unfolding cat_get_def
    by (subst rewind_value [OF assms(1)]) (auto simp: assms(2) [symmetric] split: option.split)
  with assms(3-5) show ?thesis by (simp add: read_one_def secret_fault_def)
qed

text \<open>The window of changes between two moments of a replica.\<close>

lemma steps_window:
  assumes "cat_steps E (catalog_new cap env) es log cat" and "cat_steps E cat es' later cat'"
    and "wh_floor (history cat') \<le> cat_revision cat"
  shows "wh_since (history cat') (cat_revision cat) = Inr later"
    and "cat_revision cat = cat_revision cat' \<Longrightarrow> later = []"
proof -
  have inv: "cat_inv log cat" using cat_inv_steps [OF assms(1) cat_inv_new] by simp
  have inv': "cat_inv (log @ later) cat'" using cat_inv_steps [OF assms(2) inv] .
  have old: "\<forall>c \<in> set log. ch_revision c \<le> cat_revision cat"
    using inv by (metis atLeastAtMost_iff cat_inv_def image_eqI)
  have all: "\<forall>c \<in> set later. ch_revision c \<le> cat_revision cat'"
    using inv' by (metis Un_iff atLeastAtMost_iff cat_inv_def image_eqI set_append)
  note st = steps_resources [OF assms(2) inv]
  have "backs (log @ later) (history cat')" using inv' by (simp add: cat_inv_def)
  from wh.resume_log [OF this old] st assms(3) show "wh_since (history cat') (cat_revision cat) = Inr later"
    by simp
  show "later = []" if "cat_revision cat = cat_revision cat'"
    using st all that by (cases later) auto
qed

text \<open>
  C12. Reads of the past are exact: asking a replica for a page, or for one object, exactly at
  the revision it had at an earlier moment gives the page, or the object, of that moment,
  whatever was written, compacted or restarted since, or is refused as expired when that
  revision is below the compaction floor. So a page series read at the revision of its
  first page is one snapshot. The page is claimed for a scope, and the object for a key, in
  which nothing was removed since then by a write that took a last finalizer away: the history
  records the object such a write carried as the one that was stored, and a read of the past
  gives that one.
\<close>

theorem snapshot_reads:
  assumes "cat_steps E (catalog_new cap env) es log cat" and "cat_steps E cat es' later cat'"
  shows "list_page_at_revision cat sc after limit \<noteq> None \<and>
    (unreleased (scope_contains sc) later \<longrightarrow>
      read_page cat' sc after limit (Exact (cat_revision cat)) =
        (if cat_revision cat < wh_floor (history cat')
         then Some (Inl (Expired (cat_revision cat) (wh_floor (history cat'))))
         else map_option Inr (list_page_at_revision cat sc after limit))) \<and>
    (unreleased (\<lambda>k. k = key) later \<longrightarrow>
      read_one cat' key (Exact (cat_revision cat)) =
        (if cat_revision cat < wh_floor (history cat')
         then Inl (Expired (cat_revision cat) (wh_floor (history cat')))
         else Inr (cat_get cat key)))"
proof -
  have inv: "cat_inv log cat" using cat_inv_steps [OF assms(1) cat_inv_new] by simp
  have inv': "cat_inv (log @ later) cat'" using cat_inv_steps [OF assms(2) inv] .
  note st = steps_resources [OF assms(2) inv] and hon = steps_honest [OF assms(2) inv]
  have ok: "bm_ok (resources cat)" "bm_ok (resources cat')" "unreadable cat' = []"
      "cat_revision cat \<le> cat_revision cat'" "resources cat' = replay later (resources cat)"
    using inv inv' st unfolding cat_inv_def cat_shape_def by blast+
  have total: "list_page_at_revision cat sc after limit \<noteq> None"
    by (simp add: list_page_at_revision_def cat_page_def scope_range_filter)
  consider (old) "cat_revision cat < wh_floor (history cat')"
    | (head) "wh_floor (history cat') \<le> cat_revision cat" "cat_revision cat = cat_revision cat'"
    | (past) "wh_floor (history cat') \<le> cat_revision cat" "cat_revision cat < cat_revision cat'"
    using ok(4) by linarith
  then show ?thesis
  proof cases
    case old
    with ok(3,4) total show ?thesis
      by (simp add: read_page_def read_one_def judge_def scope_range_filter secret_fault_def cat_revision_def)
  next
    case head
    then have "resources cat' = resources cat" using steps_window(2) [OF assms(1,2)] ok(5) by simp
    with head ok(3) total show ?thesis
      by (simp add: read_page_def read_one_def judge_def scope_range_filter secret_fault_def
          list_page_at_revision_def cat_page_def cat_get_def cat_revision_def)
  next
    case past
    have "judge (Exact (cat_revision cat)) (wh_head (history cat')) (wh_floor (history cat')) =
        Inr (Past (cat_revision cat))"
      using past by (simp add: judge_def cat_revision_def)
    with past_page [OF hon ok(5,1,2,3) _ steps_window(1) [OF assms(1,2) past(1)] refl]
      past_one [OF hon ok(5,3) _ steps_window(1) [OF assms(1,2) past(1)]] past(1) total
    show ?thesis by simp
  qed
qed

lemma steps_split:
  assumes "cat_steps E (catalog_new cap env) es log cat" and "cat_steps E cat es' later cat'"
  shows "wh_split (history cat') (cat_revision cat) =
    (if cat_revision cat < wh_floor (history cat')
     then Inl (CompactedTooOld (cat_revision cat) (wh_floor (history cat')))
     else Inr (filter (\<lambda>c. wh_floor (history cat') < ch_revision c) log, later))"
proof -
  let ?f = "wh_floor (history cat')" and ?r = "cat_revision cat"
  have inv: "cat_inv log cat" using cat_inv_steps [OF assms(1) cat_inv_new] by simp
  have b: "backs (log @ later) (history cat')"
    using cat_inv_steps [OF assms(2) inv] by (simp add: cat_inv_def)
  have old: "\<forall>c \<in> set log. ch_revision c \<le> ?r"
    using inv by (metis atLeastAtMost_iff cat_inv_def image_eqI)
  have new: "\<forall>c \<in> set later. ?r < ch_revision c" using steps_resources [OF assms(2) inv] by simp
  have "filter (\<lambda>c. ?f < ch_revision c \<and> ch_revision c \<le> ?r) log = filter (\<lambda>c. ?f < ch_revision c) log"
    using old by (auto intro!: filter_cong)
  moreover have "filter (\<lambda>c. ?f < ch_revision c \<and> ch_revision c \<le> ?r) later = []"
    using new by (auto simp: filter_empty_conv)
  moreover have "filter (\<lambda>c. ?r < ch_revision c) log = []" "filter (\<lambda>c. ?r < ch_revision c) later = later"
    using old new by (auto simp: filter_empty_conv filter_id_conv)
  ultimately show ?thesis using wh_split_backs [OF b, of ?r] by simp
qed

text \<open>The metadata a retained change above the floor gives to a key, if there is one.\<close>

lemma last_retained:
  assumes "cat_steps E (catalog_new cap env) es log cat" and "map_of (resources cat) k = Some (v, vm)"
    and "retained = changes_of k (filter (\<lambda>c. f < ch_revision c) log)"
  shows "if retained = [] then mod_revision vm \<le> f else ch_meta (last retained) = vm"
proof -
  obtain c where c: "changes_of k log \<noteq> []" "c = last (changes_of k log)" "ch_meta c = vm"
      "ch_revision c = mod_revision vm"
    using stored_last_change [OF assms(1,2)] .
  have "backs log (history cat)" using cat_inv_steps [OF assms(1) cat_inv_new] by (simp add: cat_inv_def)
  then have srt: "sorted (map ch_revision (changes_of k log))"
    by (simp add: backs_def sorted_map_filter)
  have ret: "retained = filter (\<lambda>c. f < ch_revision c) (changes_of k log)"
    using assms(3) by (simp add: conj_commute)
  show ?thesis
  proof (cases "retained = []")
    case True
    then show ?thesis
      using last_in_set [OF c(1)] c(2,4) by (auto simp: ret filter_empty_conv)
  next
    case False
    then obtain x where "x \<in> set (changes_of k log)" "f < ch_revision x"
      by (auto simp: ret filter_empty_conv)
    then have "f < ch_revision c" using sorted_last [OF srt] c(2) by (metis order_less_le_trans)
    then have "last retained = c" unfolding ret using last_filter [OF c(1)] c(2) by simp
    with False c(3) show ?thesis by simp
  qed
qed

text \<open>
  C23. Historical metadata is exact or says that it is not: reconstructing the whole store as
  of an earlier moment gives an object of that moment, with its value and its creation revision,
  and none where there was none. Metadata marked exact is the metadata it had; otherwise the
  reported revision of its last write is an upper bound of the true one. This holds of every
  object that was not since then removed by a write taking its last finalizer away.
\<close>

theorem historical_state:
  assumes "cat_steps E (catalog_new cap env) es log cat" and "cat_steps E cat es' later cat'"
    and "unreleased (\<lambda>k'. k' = k) later"
    and "state_at cat' (cat_revision cat) = Inr state"
  shows "case map_of (resources cat) k of
      None \<Rightarrow> map_of state k = None
    | Some (v, vm) \<Rightarrow> (\<exists>e. map_of state k = Some e \<and> he_value e = v \<and>
        create_revision (he_meta e) = create_revision vm \<and>
        (if he_fidelity e = ExactMeta then he_meta e = vm
         else mod_revision vm \<le> mod_revision (he_meta e)))"
proof -
  let ?f = "wh_floor (history cat')"
  let ?kept = "changes_of k (filter (\<lambda>c. ?f < ch_revision c) log)"
  let ?past = "rewind (resources cat') later (\<lambda>_. True)"
  have inv: "cat_inv log cat" using cat_inv_steps [OF assms(1) cat_inv_new] by simp
  note st = steps_resources [OF assms(2) inv] and hon = steps_honest [OF assms(2) inv assms(3)]
  have state: "map_of state k = map_option (\<lambda>e. if ?kept = [] then e
      else e\<lparr>he_meta := ch_meta (last ?kept), he_fidelity := ExactMeta\<rparr>)
        (map_option (historical ?f) (map_of ?past k))"
    using assms(4) unfolding state_at_def steps_split [OF assms(1,2)]
    by (auto simp: map_of_correct_meta map_of_map_values split: if_splits)
  have past: "map_option as_of_value (map_of ?past k) = map_option fst (map_of (resources cat) k)"
    using rewind_value [OF hon, of "\<lambda>_. True" k "resources cat'"] st by simp
  show ?thesis
  proof (cases "map_of (resources cat) k")
    case None
    with past state show ?thesis by simp
  next
    case (Some e)
    then obtain v vm where e: "map_of (resources cat) k = Some (v, vm)" by (cases e) auto
    obtain a where a: "map_of ?past k = Some a" "as_of_value a = v" using past e by auto
    note kept = last_retained [OF assms(1) e refl, of ?f]
    show ?thesis
    proof (cases a)
      case (Live v' vm')
      then have "changes_of k later = [] \<and> map_of (resources cat') k = Some (v', vm')"
        using a(1) by (auto simp: map_of_rewind split: list.splits)
      then have "vm' = vm" using st e by (auto simp: map_of_replay)
      with Live kept state a e show ?thesis by (auto simp: historical_def split: if_splits)
    next
      case (Undone v' d)
      then obtain ds where "changes_of k later = d # ds"
        using a(1) by (auto simp: map_of_rewind split: list.splits)
      then have "create_revision (ch_meta d) = create_revision vm"
        using honest_first [OF hon _ e] by blast
      with Undone kept state a e show ?thesis by (auto simp: historical_def split: if_splits)
    qed
  qed
qed

text \<open>
  C25. Following the cursor reads the whole list once: a client that asks for pages of any
  size and passes each page's cursor to the next request, on a quiescent store, gets in
  at most one request per item and one more exactly the items of the scope after where it
  started, in key order, without gap or repetition.
\<close>

theorem pages_cover_the_list:
  assumes "cat_steps E (catalog_new cap env) es log cat"
    and "list_page_at_revision cat sc after 0 = Some whole"
    and "length (par_items whole) < n"
  shows "follow_pages n cat sc after limit = Some (par_items whole) \<and>
    sorted_wrt (<) (map fst (par_items whole))"
proof -
  have ok: "bm_ok (resources cat)"
    using cat_inv_steps [OF assms(1) cat_inv_new] unfolding cat_inv_def cat_shape_def by blast
  have "par_items whole = scope_items cat sc after"
    using assms(2) by (auto simp: list_page_items cloned_at_def page_of_def)
  then show ?thesis
    using follow_pages_items [OF ok] bm_ok_scope_items [OF ok] assms(3) by (simp add: bm_ok_def)
qed

text \<open>
  A continue token comes back as it was issued, and nothing else is accepted for one:
  decoding gives the token that was encoded, and any text that decodes at all is the
  version tag, the digest of the body it carries, and that body.
\<close>

theorem continue_token_roundtrip:
  assumes "tc_from_slice C (tc_to_vec C t) = Some t" and "\<forall>x. length (tc_blake3 C x) = 32"
  shows "ct_decode C (ct_encode C t) = Inr t \<and>
    (\<forall>s t'. ct_decode C s = Inr t' \<longrightarrow>
      (\<exists>json. from_hex s =
          Some (continue_token_version # take digest_prefix_len (tc_blake3 C json) @ json) \<and>
        tc_from_slice C json = Some t'))"
proof -
  have "ct_decode C (ct_encode C t) = Inr t"
    using assms by (simp add: ct_decode_def ct_encode_def Let_def digest_prefix_len_def)
  moreover have "\<exists>json. from_hex s =
        Some (continue_token_version # take digest_prefix_len (tc_blake3 C json) @ json) \<and>
      tc_from_slice C json = Some t'" if dec: "ct_decode C s = Inr t'" for s t'
  proof -
    obtain raw where raw: "from_hex s = Some raw" "1 + digest_prefix_len \<le> length raw"
        "raw ! 0 = continue_token_version"
        "take digest_prefix_len (tc_blake3 C (drop (1 + digest_prefix_len) raw)) =
          take digest_prefix_len (drop 1 raw)"
        "tc_from_slice C (drop (1 + digest_prefix_len) raw) = Some t'"
      using dec by (auto simp: ct_decode_def Let_def split: option.splits if_splits)
    have "raw = raw ! 0 # drop 1 raw" using raw(2) by (cases raw) simp_all
    also have "drop 1 raw = take digest_prefix_len (drop 1 raw) @ drop (1 + digest_prefix_len) raw"
      by (metis append_take_drop_id drop_drop add.commute)
    finally show ?thesis using raw by metis
  qed
  ultimately show ?thesis by blast
qed

definition example_token :: continue_token where
  "example_token = \<lparr>ct_snapshot_rev = 1, ct_last_key = example_config_map\<rparr>"

definition example_token_codec :: token_codec where
  "example_token_codec =
     \<lparr>tc_to_vec = (\<lambda>t. ''{}''), tc_from_slice = (\<lambda>s. Some example_token),
      tc_blake3 = (\<lambda>s. replicate 32 CHR ''b'')\<rparr>"

theorem continue_token_roundtrip_witness:
  "ct_decode example_token_codec (ct_encode example_token_codec example_token) = Inr example_token"
  using continue_token_roundtrip [of example_token_codec example_token]
  by (simp add: example_token_codec_def)

theorem pages_cover_the_list_witness:
  "follow_pages 9 (example_cat 1) (scope_new [] ''v1'' ''ConfigMap'' None) None 1 \<noteq> None"
proof -
  let ?sc = "scope_new [] ''v1'' ''ConfigMap'' None"
  obtain es log where
    run: "cat_steps example_ext (catalog_new 4 (\<lambda>_ _. LReplace)) es log (example_cat 1)"
    using example_steps(1) by blast
  have "list_page_at_revision (example_cat 1) ?sc None 0 \<noteq> None"
      "length (par_items (the (list_page_at_revision (example_cat 1) ?sc None 0))) < 9"
    by code_simp+
  with pages_cover_the_list [OF run, of ?sc None _ 9 1] show ?thesis by auto
qed

theorem snapshot_reads_witness:
  "read_one (example_cat 2) example_config_map (Exact (cat_revision (example_cat 1))) =
    Inr (cat_get (example_cat 1) example_config_map)"
proof -
  obtain es log where
    run: "cat_steps example_ext (catalog_new 4 (\<lambda>_ _. LReplace)) es log (example_cat 1)"
    using example_steps(1) by blast
  have ev: "list_all (\<lambda>c. \<not> is_release c) (out_changes example_out)"
      "\<not> cat_revision (example_cat 1) < wh_floor (history (example_cat 2))"
    by code_simp+
  then have "unreleased (\<lambda>k. k = example_config_map) (out_changes example_out)"
    by (simp add: list_all_iff unreleased_def)
  with ev(2) snapshot_reads [OF run example_steps(3)] show ?thesis by simp
qed

theorem historical_state_witness:
  "\<exists>state e. state_at (example_cat 2) (cat_revision (example_cat 1)) = Inr state \<and>
    map_of state example_config_map = Some e \<and>
    Some (he_value e) = cat_get (example_cat 1) example_config_map"
proof -
  obtain es log where
    run: "cat_steps example_ext (catalog_new 4 (\<lambda>_ _. LReplace)) es log (example_cat 1)"
    using example_steps(1) by blast
  have ev: "list_all (\<lambda>c. \<not> is_release c) (out_changes example_out)"
      "\<not> isl (state_at (example_cat 2) (cat_revision (example_cat 1)))"
      "map_of (resources (example_cat 1)) example_config_map \<noteq> None"
    by code_simp+
  then obtain state where s: "state_at (example_cat 2) (cat_revision (example_cat 1)) = Inr state"
    by (cases "state_at (example_cat 2) (cat_revision (example_cat 1))") auto
  from historical_state [OF run example_steps(3) _ s, of example_config_map] ev(1,3) s show ?thesis
    by (auto simp: list_all_iff unreleased_def cat_get_def split: option.splits)
qed

definition example_terminating :: "string \<Rightarrow> json list \<Rightarrow> logged_command" where
  "example_terminating d fins =
     proposed (cmd_put example_config_map
       (JObject [(''data'', JString d),
                 (''metadata'', JObject [(''deletionTimestamp'', JString ''t''),
                                         (''finalizers'', JArray fins),
                                         (''uid'', JString ''u'')])]) Controller)"

definition example_released :: "resource_catalog \<times> resource_catalog" where
  "example_released =
     (let cat1 = fst (apply_logged example_ext (catalog_new 4 (\<lambda>_ _. LReplace))
                        (example_terminating ''old'' [JString ''f'']) 1 1)
      in (cat1, fst (apply_logged example_ext cat1 (example_terminating ''new'' []) 1 2)))"

text \<open>
  The release of a last finalizer rewrites the past: the change that removes an object
  when a write takes its last finalizer away records the written object as the pre-image, so a
  read at the revision before the removal gives the object as the write left it, not as it
  was stored at that revision.
\<close>

theorem release_rewrites_the_past:
  "let (before, after) = example_released
   in map_option (\<lambda>v. jget v ''data'') (cat_get before example_config_map) = Some (Some (JString ''old'')) \<and>
      map_sum id (map_option (\<lambda>v. jget v ''data''))
        (read_one after example_config_map (Exact (cat_revision before))) =
      Inr (Some (Some (JString ''new'')))"
  by code_simp

end
