(* ===== verification/Watch.thy ===== *)
theory Watch
  imports Reads
begin

text \<open>
  Watch events (\<open>engenho-store/src/watch.rs\<close>): which event a watch with a selector receives
  for a committed change. The selector is an arbitrary predicate on objects.
\<close>

section \<open>Events\<close>

datatype watch_event_kind = WkAdded | WkModified | WkDeleted | WkBookmark

record watch_event =
  we_kind :: watch_event_kind
  we_object :: json
  we_key :: resource_key
  we_resource_version :: revision

datatype change_shape = ShCreated | ShUpdated | ShDeleted

definition shape_of :: "change \<Rightarrow> change_shape" where
  "shape_of c =
     (case (ch_kind c, ch_prior c) of
        (ChDelete, _) \<Rightarrow> ShDeleted
      | (ChPut, None) \<Rightarrow> ShCreated
      | (ChPut, Some _) \<Rightarrow> ShUpdated)"

fun unfiltered :: "change_shape \<Rightarrow> watch_event_kind" where
  "unfiltered ShCreated = WkAdded"
| "unfiltered ShUpdated = WkModified"
| "unfiltered ShDeleted = WkDeleted"

datatype projection = PAdded | PModified | PDeleted

definition projection_of :: "change_shape \<Rightarrow> bool \<Rightarrow> bool \<Rightarrow> projection option" where
  "projection_of shape passes_before passes_after =
     (let before = passes_before \<and> shape \<noteq> ShCreated;
          after = passes_after \<and> shape \<noteq> ShDeleted
      in case (before, after) of
           (False, True) \<Rightarrow> Some PAdded
         | (True, True) \<Rightarrow> Some PModified
         | (True, False) \<Rightarrow> Some PDeleted
         | (False, False) \<Rightarrow> None)"

fun event_kind :: "projection \<Rightarrow> watch_event_kind" where
  "event_kind PAdded = WkAdded"
| "event_kind PModified = WkModified"
| "event_kind PDeleted = WkDeleted"

definition project :: "change \<Rightarrow> (json \<Rightarrow> bool) \<Rightarrow> watch_event option" where
  "project c passes =
     (let shape = shape_of c;
          passes_before = (case ch_prior c of Some v \<Rightarrow> passes v | None \<Rightarrow> False);
          passes_after = shape \<noteq> ShDeleted \<and> passes (ch_value c)
      in case projection_of shape passes_before passes_after of
           None \<Rightarrow> None
         | Some proj \<Rightarrow>
             (let event = (\<lambda>object. \<lparr>we_kind = event_kind proj, we_object = object, we_key = ch_key c,
                                    we_resource_version = ch_revision c\<rparr>)
              in case proj of
                   PDeleted \<Rightarrow>
                     map_option (\<lambda>prior. event (stamp_resource_version (ch_revision c) prior)) (ch_prior c)
                 | _ \<Rightarrow> Some (event (ch_value c))))"

section \<open>A client's view\<close>

text \<open>What a watch with a selector shows of the store, and what an event does to a client's copy.\<close>

definition view :: "(json \<Rightarrow> bool) \<Rightarrow> stored \<Rightarrow> resource_key \<rightharpoonup> json" where
  "view passes m k =
     (case map_of m k of Some (v, _) \<Rightarrow> (if passes v then Some v else None) | None \<Rightarrow> None)"

definition client_apply :: "watch_event \<Rightarrow> (resource_key \<rightharpoonup> json) \<Rightarrow> resource_key \<rightharpoonup> json" where
  "client_apply ev copy =
     (case we_kind ev of
        WkAdded \<Rightarrow> copy(we_key ev \<mapsto> we_object ev)
      | WkModified \<Rightarrow> copy(we_key ev \<mapsto> we_object ev)
      | WkDeleted \<Rightarrow> copy(we_key ev := None)
      | WkBookmark \<Rightarrow> copy)"

text \<open>An event a client expects: a new object, or news of one it holds.\<close>

definition expected_event :: "(resource_key \<rightharpoonup> json) \<Rightarrow> watch_event \<Rightarrow> bool" where
  "expected_event copy ev \<longleftrightarrow>
     (case we_kind ev of
        WkAdded \<Rightarrow> copy (we_key ev) = None
      | WkModified \<Rightarrow> copy (we_key ev) \<noteq> None
      | WkDeleted \<Rightarrow> copy (we_key ev) \<noteq> None
      | WkBookmark \<Rightarrow> True)"

fun follows :: "(resource_key \<rightharpoonup> json) \<Rightarrow> watch_event list \<Rightarrow> bool" where
  "follows copy [] = True"
| "follows copy (ev # evs) \<longleftrightarrow> expected_event copy ev \<and> follows (client_apply ev copy) evs"

abbreviation watched :: "(json \<Rightarrow> bool) \<Rightarrow> change list \<Rightarrow> watch_event list" where
  "watched passes cs \<equiv> List.map_filter (\<lambda>c. project c passes) cs"

lemma view_change:
  "view passes (apply_change c m) =
    (view passes m)(ch_key c := (case put_of c of Some (v, _) \<Rightarrow> (if passes v then Some v else None)
                                 | None \<Rightarrow> None))"
  by (auto simp: view_def map_of_apply_change fun_eq_iff split: option.splits)

text \<open>
  A removal as the selector sees it: the object the change records as removed passes exactly when
  the stored one did. Only the release of a last finalizer by a write that also changes what the
  selector looks at can fail this.
\<close>

fun removed_alike :: "(json \<Rightarrow> bool) \<Rightarrow> stored \<Rightarrow> change list \<Rightarrow> bool" where
  "removed_alike passes m [] = True"
| "removed_alike passes m (c # cs) \<longleftrightarrow>
     (ch_kind c = ChDelete \<longrightarrow> map_option (passes \<circ> fst) (map_of m (ch_key c)) = Some (passes (ch_value c))) \<and>
     removed_alike passes (apply_change c m) cs"

definition tells :: "(json \<Rightarrow> bool) \<Rightarrow> stored \<Rightarrow> change \<Rightarrow> bool" where
  "tells passes m c \<longleftrightarrow>
     (case ch_kind c of
        ChPut \<Rightarrow> ch_prior c = map_option fst (map_of m (ch_key c))
      | ChDelete \<Rightarrow> (\<exists>v vm p. map_of m (ch_key c) = Some (v, vm) \<and> ch_prior c = Some p \<and> passes p = passes v))"

lemma project_view:
  assumes "tells passes m c"
  shows "case project c passes of
      None \<Rightarrow> view passes (apply_change c m) = view passes m
    | Some ev \<Rightarrow> client_apply ev (view passes m) = view passes (apply_change c m) \<and>
        expected_event (view passes m) ev"
proof (cases "map_of m (ch_key c)")
  case None
  then have "view passes m (ch_key c) = None" by (simp add: view_def)
  with None assms show ?thesis
    by (cases "ch_kind c"; cases "passes (ch_value c)")
      (auto simp: project_def shape_of_def projection_of_def Let_def view_change put_of_def client_apply_def
        expected_event_def tells_def)
next
  case (Some e)
  obtain v vm where e: "map_of m (ch_key c) = Some (v, vm)" using Some by (cases e) auto
  then have "view passes m (ch_key c) = (if passes v then Some v else None)" by (simp add: view_def)
  with e assms(1) show ?thesis
    by (cases "ch_kind c"; cases "passes v"; cases "passes (ch_value c)")
      (auto simp: project_def shape_of_def projection_of_def Let_def view_change put_of_def client_apply_def
        expected_event_def tells_def fun_upd_idem_iff)
qed

fun tells_all :: "(json \<Rightarrow> bool) \<Rightarrow> stored \<Rightarrow> change list \<Rightarrow> bool" where
  "tells_all passes m [] = True"
| "tells_all passes m (c # cs) \<longleftrightarrow> tells passes m c \<and> tells_all passes (apply_change c m) cs"

lemma watched_view:
  "tells_all passes m cs \<Longrightarrow>
    fold client_apply (watched passes cs) (view passes m) = view passes (replay cs m) \<and>
    follows (view passes m) (watched passes cs)"
proof (induction cs arbitrary: m)
  case (Cons c cs)
  then have "case project c passes of
      None \<Rightarrow> view passes (apply_change c m) = view passes m
    | Some ev \<Rightarrow> client_apply ev (view passes m) = view passes (apply_change c m) \<and>
        expected_event (view passes m) ev"
    by (intro project_view) simp
  moreover have "tells_all passes (apply_change c m) cs" using Cons.prems by simp
  note Cons.IH [OF this]
  ultimately show ?case
    by (cases "project c passes") auto
qed simp

lemma tells_all_append: "tells_all passes m (cs @ ds) \<longleftrightarrow> tells_all passes m cs \<and> tells_all passes (replay cs m) ds"
  by (induction cs arbitrary: m) auto

lemma removed_alike_append:
  "removed_alike passes m (cs @ ds) \<longleftrightarrow> removed_alike passes m cs \<and> removed_alike passes (replay cs m) ds"
  by (induction cs arbitrary: m) auto

lemma describe_all_tells: "describe_all m r cs \<Longrightarrow> removed_alike passes m cs \<Longrightarrow> tells_all passes m cs"
  by (induction cs arbitrary: m) (auto simp: describes_def tells_def split: change_kind.splits)

lemma steps_tell:
  assumes "cat_steps E cat es cs cat'" and "cat_inv log cat" and "removed_alike passes (resources cat) cs"
  shows "tells_all passes (resources cat) cs"
  using assms
proof (induction rule: cat_steps.induct)
  case (steps_snoc cat es log1 cat1 es' cs cat2)
  have sh: "cat_shape cat1" using cat_inv_steps [OF steps_snoc(1,4)] by (simp add: cat_inv_def)
  note at1 = steps_resources [OF steps_snoc(1,4)]
  have "removed_alike passes (resources cat) log1" "removed_alike passes (resources cat1) cs"
    using steps_snoc(5) at1 by (simp_all add: removed_alike_append)
  then show ?case
    using step_shape [OF steps_snoc(2) sh] describe_all_tells steps_snoc(3) [OF steps_snoc(4)] at1
    by (auto simp: tells_all_append)
qed simp

text \<open>A watch that selects every object, and one without releases, meet the condition.\<close>

lemma describe_all_alike:
  "describe_all m r cs \<Longrightarrow> (\<forall>v. passes v) \<or> unreleased (\<lambda>_. True) cs \<Longrightarrow> removed_alike passes m cs"
  by (induction cs arbitrary: m) (auto simp: describes_def unreleased_def is_release_def split: change_kind.splits)

lemma steps_alike:
  assumes "cat_steps E cat es cs cat'" and "cat_inv log cat"
    and "(\<forall>v. passes v) \<or> unreleased (\<lambda>_. True) cs"
  shows "removed_alike passes (resources cat) cs"
  using assms
proof (induction rule: cat_steps.induct)
  case (steps_snoc cat es log1 cat1 es' cs cat2)
  have sh: "cat_shape cat1" using cat_inv_steps [OF steps_snoc(1,4)] by (simp add: cat_inv_def)
  have "(\<forall>v. passes v) \<or> unreleased (\<lambda>_. True) log1" "(\<forall>v. passes v) \<or> unreleased (\<lambda>_. True) cs"
    using steps_snoc(5) by (auto simp: unreleased_def)
  then show ?case
    using step_shape [OF steps_snoc(2) sh] describe_all_alike steps_snoc(3) [OF steps_snoc(4)]
      steps_resources [OF steps_snoc(1,4)]
    by (auto simp: removed_alike_append)
qed simp

section \<open>Properties of watches\<close>

text \<open>
  C13. A filtered watch keeps a client exact: a client that listed the objects its selector
  passes and applies, in order, the events its watch sends for the changes since, holds
  exactly the objects of the later store that pass, each event being one it expects (an
  object is added only if it is not held, and modified or deleted only if it is).
  Objects that start or stop matching by being written are covered. The hypothesis is that the
  selector judges every removed object as the change records it just as it judged the stored
  one. It holds for a watch of all objects, and whenever no object was removed by a write that
  took its last finalizer away; such a write can carry an object the selector judges otherwise
  than the stored one, and then the client is not told of the removal, or is told of one it
  does not expect.
\<close>

theorem filtered_watch_exact:
  assumes "cat_steps E (catalog_new cap env) es log cat" and "cat_steps E cat es' later cat'"
    and "removed_alike passes (resources cat) later \<or> (\<forall>v. passes v) \<or> unreleased (\<lambda>_. True) later"
  shows "fold client_apply (watched passes later) (view passes (resources cat)) =
      view passes (resources cat') \<and>
    follows (view passes (resources cat)) (watched passes later)"
proof -
  have inv: "cat_inv log cat" using cat_inv_steps [OF assms(1) cat_inv_new] by simp
  have "removed_alike passes (resources cat) later"
    using assms(3) steps_alike [OF assms(2) inv] by blast
  from watched_view [OF steps_tell [OF assms(2) inv this]] steps_resources [OF assms(2) inv] show ?thesis
    by simp
qed

theorem filtered_watch_exact_witness:
  "fold client_apply (watched (\<lambda>v. jget v ''data'' = Some (JString ''two'')) (out_changes example_out))
      (view (\<lambda>v. jget v ''data'' = Some (JString ''two'')) (resources (example_cat 1))) =
    view (\<lambda>v. jget v ''data'' = Some (JString ''two'')) (resources (example_cat 2))"
proof -
  obtain es log where
    run: "cat_steps example_ext (catalog_new 4 (\<lambda>_ _. LReplace)) es log (example_cat 1)"
    using example_steps(1) by blast
  have "removed_alike (\<lambda>v. jget v ''data'' = Some (JString ''two'')) (resources (example_cat 1))
      (out_changes example_out)"
    by code_simp
  with filtered_watch_exact [OF run example_steps(3)] show ?thesis by blast
qed

text \<open>
  The release of a last finalizer can hide a deletion: because the change carries the
  written object as its pre-image, a watch whose selector passed the stored object but not
  the written one sends no event, and its client keeps an object that is gone.
\<close>

theorem release_hides_deletion:
  "let (before, after) = example_released; passes = (\<lambda>v. jget v ''data'' = Some (JString ''old''))
   in view passes (resources before) example_config_map \<noteq> None \<and>
      view passes (resources after) example_config_map = None \<and>
      map_sum id (watched passes) (changes_since after (cat_revision before)) = Inr []"
  by code_simp

end
