(* ===== verification/Quantity.thy ===== *)
theory Quantity
  imports Prelude "HOL-Library.Signed_Division"
begin

text \<open>
  Resource quantities (\<open>engenho-types/src/primitives/quantity.rs\<close>): the parser and printer
  of \<open>100m\<close>, \<open>1Gi\<close>, \<open>2.5\<close>. A parsed quantity is a signed 128-bit count of
  thousandths with the suffix it was written with. Arithmetic is kept at its width:
  \<open>saturating_mul\<close> and its like clamp (\<open>sat_i128\<close>), a plain operator wraps as it does in the
  release profile (\<open>wrap_i128\<close>), division truncates (\<open>sdiv\<close>, \<open>smod\<close>).
\<close>

section \<open>Signed 128-bit integers\<close>

definition i128_min :: int where
  "i128_min = - (2 ^ 127)"

definition i128_max :: int where
  "i128_max = 2 ^ 127 - 1"

definition sat_i128 :: "int \<Rightarrow> int" where
  "sat_i128 x = max i128_min (min i128_max x)"

definition wrap_i128 :: "int \<Rightarrow> int" where
  "wrap_i128 x = (x + 2 ^ 127) mod 2 ^ 128 - 2 ^ 127"

definition i128_ok :: "int \<Rightarrow> bool" where
  "i128_ok x \<longleftrightarrow> i128_min \<le> x \<and> x \<le> i128_max"

lemma sat_i128_id [simp]: "i128_ok x \<Longrightarrow> sat_i128 x = x"
  by (simp add: sat_i128_def i128_ok_def)

lemma wrap_i128_id [simp]: "i128_ok x \<Longrightarrow> wrap_i128 x = x"
  by (simp add: wrap_i128_def i128_ok_def i128_min_def i128_max_def)

lemma i128_ok_sat [simp]: "i128_ok (sat_i128 x)"
  by (simp add: sat_i128_def i128_ok_def i128_min_def i128_max_def)

lemma i128_ok_wrap [simp]: "i128_ok (wrap_i128 x)"
proof -
  have "0 \<le> (x + 2 ^ 127) mod 2 ^ 128" "(x + 2 ^ 127) mod 2 ^ 128 < (2 ^ 128 :: int)" by simp_all
  then show ?thesis by (simp add: wrap_i128_def i128_ok_def i128_min_def i128_max_def)
qed

lemma i128_ok_0 [simp]: "i128_ok 0"
  by (simp add: i128_ok_def i128_min_def i128_max_def)

text \<open>A saturated product below the maximum is the product, for a positive factor.\<close>

lemma sat_i128_below_max: "0 \<le> x \<Longrightarrow> sat_i128 x < i128_max \<Longrightarrow> sat_i128 x = x"
  by (auto simp: sat_i128_def i128_min_def i128_max_def min_def max_def split: if_splits)

lemma sat_i128_nonneg: "0 \<le> sat_i128 x \<longleftrightarrow> 0 \<le> x"
  by (auto simp: sat_i128_def i128_min_def i128_max_def min_def max_def)

text \<open>\<open>str::parse::<i128>\<close>, and the rendering of a signed integer.\<close>

definition parse_i128 :: "string \<Rightarrow> int option" where
  "parse_i128 s =
     (let (neg, ds) = (case s of
                         [] \<Rightarrow> (False, [])
                       | c # cs \<Rightarrow> if c = CHR ''-'' then (True, cs)
                                 else if c = CHR ''+'' then (False, cs) else (False, s))
      in if ds = [] then None
         else case parse_digits 0 ds of
                None \<Rightarrow> None
              | Some n \<Rightarrow>
                  (let i = (if neg then - int n else int n)
                   in if i128_ok i then Some i else None))"

definition show_int :: "int \<Rightarrow> string" where
  "show_int i = (if i < 0 then CHR ''-'' # show_nat (nat (- i)) else show_nat (nat i))"

section \<open>Strings\<close>

text \<open>The characters of the Unicode property \<open>White_Space\<close>, in UTF-8.\<close>

definition white_space :: "string list" where
  "white_space =
     [[CHR 0x09], [CHR 0x0A], [CHR 0x0B], [CHR 0x0C], [CHR 0x0D], [CHR 0x20],
      [CHR 0xC2, CHR 0x85], [CHR 0xC2, CHR 0xA0], [CHR 0xE1, CHR 0x9A, CHR 0x80],
      [CHR 0xE2, CHR 0x80, CHR 0x80], [CHR 0xE2, CHR 0x80, CHR 0x81],
      [CHR 0xE2, CHR 0x80, CHR 0x82], [CHR 0xE2, CHR 0x80, CHR 0x83],
      [CHR 0xE2, CHR 0x80, CHR 0x84], [CHR 0xE2, CHR 0x80, CHR 0x85],
      [CHR 0xE2, CHR 0x80, CHR 0x86], [CHR 0xE2, CHR 0x80, CHR 0x87],
      [CHR 0xE2, CHR 0x80, CHR 0x88], [CHR 0xE2, CHR 0x80, CHR 0x89],
      [CHR 0xE2, CHR 0x80, CHR 0x8A], [CHR 0xE2, CHR 0x80, CHR 0xA8],
      [CHR 0xE2, CHR 0x80, CHR 0xA9], [CHR 0xE2, CHR 0x80, CHR 0xAF],
      [CHR 0xE2, CHR 0x81, CHR 0x9F], [CHR 0xE3, CHR 0x80, CHR 0x80]]"

function strip_front :: "string list \<Rightarrow> string \<Rightarrow> string" where
  "strip_front ws s =
     (case find (\<lambda>w. w \<noteq> [] \<and> prefix w s) ws of
        None \<Rightarrow> s
      | Some w \<Rightarrow> strip_front ws (drop (length w) s))"
  by pat_completeness auto
termination
  by (relation "measure (\<lambda>(ws, s). length s)")
    (auto simp: find_Some_iff prefix_def)

declare strip_front.simps [simp del]

definition trim :: "string \<Rightarrow> string" where
  "trim s = rev (strip_front (map rev white_space) (rev (strip_front white_space s)))"

definition split_once :: "char \<Rightarrow> string \<Rightarrow> (string \<times> string) option" where
  "split_once c s =
     (if c \<in> set s then Some (takeWhile (\<lambda>x. x \<noteq> c) s, tl (dropWhile (\<lambda>x. x \<noteq> c) s)) else None)"

text \<open>\<open>{:02}\<close> and \<open>{:03}\<close> of a non-negative integer.\<close>

definition pad_zero :: "nat \<Rightarrow> nat \<Rightarrow> string" where
  "pad_zero w n = (let s = show_nat n in replicate (w - length s) CHR ''0'' @ s)"

section \<open>Suffixes\<close>

datatype suffix = SfNone | SfMilli | SfDecimalSi nat | SfBinarySi nat

datatype quantity_parse_error =
    QEmpty
  | QNoNumeric
  | QNonNumeric string
  | QUnknownSuffix string

definition suffix_table :: "(string \<times> suffix) list" where
  "suffix_table =
     [('''', SfNone), (''m'', SfMilli), (''k'', SfDecimalSi 1), (''M'', SfDecimalSi 2),
      (''G'', SfDecimalSi 3), (''T'', SfDecimalSi 4), (''P'', SfDecimalSi 5), (''E'', SfDecimalSi 6),
      (''Ki'', SfBinarySi 1), (''Mi'', SfBinarySi 2), (''Gi'', SfBinarySi 3), (''Ti'', SfBinarySi 4),
      (''Pi'', SfBinarySi 5), (''Ei'', SfBinarySi 6)]"

definition suffix_from_str :: "string \<Rightarrow> (quantity_parse_error, suffix) result" where
  "suffix_from_str s =
     (case map_of suffix_table s of Some sf \<Rightarrow> Inr sf | None \<Rightarrow> Inl (QUnknownSuffix s))"

fun suffix_to_str :: "suffix \<Rightarrow> string" where
  "suffix_to_str SfNone = ''''"
| "suffix_to_str SfMilli = ''m''"
| "suffix_to_str (SfDecimalSi e) =
     (if e = 1 then ''k'' else if e = 2 then ''M'' else if e = 3 then ''G''
      else if e = 4 then ''T'' else if e = 5 then ''P'' else if e = 6 then ''E'' else ''?'')"
| "suffix_to_str (SfBinarySi e) =
     (if e = 1 then ''Ki'' else if e = 2 then ''Mi'' else if e = 3 then ''Gi''
      else if e = 4 then ''Ti'' else if e = 5 then ''Pi'' else if e = 6 then ''Ei'' else ''?'')"

fun apply_to_milli :: "suffix \<Rightarrow> int \<Rightarrow> int" where
  "apply_to_milli SfNone milli = milli"
| "apply_to_milli SfMilli milli = milli sdiv 1000"
| "apply_to_milli (SfDecimalSi e) milli = sat_i128 (milli * wrap_i128 (10 ^ (e * 3)))"
| "apply_to_milli (SfBinarySi e) milli = sat_i128 (milli * wrap_i128 (2 ^ (e * 10 mod 128)))"

fun un_apply_from_milli :: "suffix \<Rightarrow> int \<Rightarrow> int" where
  "un_apply_from_milli SfNone scaled = scaled"
| "un_apply_from_milli SfMilli scaled = wrap_i128 (scaled * 1000)"
| "un_apply_from_milli (SfDecimalSi e) scaled = scaled sdiv wrap_i128 (10 ^ (e * 3))"
| "un_apply_from_milli (SfBinarySi e) scaled = scaled sdiv wrap_i128 (2 ^ (e * 10 mod 128))"

section \<open>Quantities\<close>

datatype quantity = Parsed (q_milli: int) (q_suffix: suffix) | Other string

definition from_millis :: "int \<Rightarrow> quantity" where
  "from_millis milli = Parsed milli (if milli smod 1000 = 0 then SfNone else SfMilli)"

fun milli_value :: "quantity \<Rightarrow> int option" where
  "milli_value (Parsed milli _) = Some milli"
| "milli_value (Other _) = None"

definition integer_value :: "quantity \<Rightarrow> int option" where
  "integer_value q = map_option (\<lambda>m. m sdiv 1000) (milli_value q)"

definition is_num_char :: "char \<Rightarrow> bool" where
  "is_num_char c \<longleftrightarrow> digit_val c \<noteq> None \<or> c = CHR ''.'' \<or> c = CHR ''-'' \<or> c = CHR ''+''"

definition parse_decimal_to_milli :: "string \<Rightarrow> (quantity_parse_error, int) result" where
  "parse_decimal_to_milli s =
     (let (int_part, frac_part) = (case split_once CHR ''.'' s of Some p \<Rightarrow> p | None \<Rightarrow> (s, []))
      in case parse_i128 int_part of
           None \<Rightarrow> Inl (QNonNumeric s)
         | Some int_val \<Rightarrow>
             (if frac_part = [] then Inr (sat_i128 (int_val * 1000))
              else
                (let trimmed = (if length frac_part > 3 then take 3 frac_part else frac_part)
                 in case parse_i128 trimmed of
                      None \<Rightarrow> Inl (QNonNumeric s)
                    | Some frac_val \<Rightarrow>
                        (let padded = frac_val * 10 ^ (3 - length trimmed);
                             sign = (if int_val < 0 \<or> prefix ''-'' s then -1 else 1)
                         in Inr (wrap_i128 (sat_i128 (int_val * 1000) + padded * sign))))))"

definition quantity_from_str :: "string \<Rightarrow> (quantity_parse_error, quantity) result" where
  "quantity_from_str s0 =
     (if s0 = [] then Inl QEmpty
      else
        (let s = trim s0;
             num_part = takeWhile is_num_char s;
             suffix_part = dropWhile is_num_char s
         in if num_part = [] then Inl QNoNumeric
            else case suffix_from_str suffix_part of
                   Inl e \<Rightarrow> Inl e
                 | Inr sf \<Rightarrow>
                     (case parse_decimal_to_milli num_part of
                        Inl e \<Rightarrow> Inl e
                      | Inr milli \<Rightarrow> Inr (Parsed (apply_to_milli sf milli) sf))))"

text \<open>The soft-failing decoder of the wire form.\<close>

definition quantity_deserialize :: "string \<Rightarrow> quantity" where
  "quantity_deserialize s = (case quantity_from_str s of Inr q \<Rightarrow> q | Inl _ \<Rightarrow> Other s)"

fun quantity_to_string :: "quantity \<Rightarrow> string" where
  "quantity_to_string (Other s) = s"
| "quantity_to_string (Parsed milli sf) =
     (let unscaled = un_apply_from_milli sf milli;
          suffix_str = suffix_to_str sf
      in if unscaled smod 1000 = 0 then show_int (unscaled sdiv 1000) @ suffix_str
         else
           (let int_part = unscaled sdiv 1000;
                frac_part = nat \<bar>unscaled smod 1000\<bar>
            in if frac_part mod 100 = 0
               then show_int int_part @ ''.'' @ show_nat (frac_part div 100) @ suffix_str
               else if frac_part mod 10 = 0
               then show_int int_part @ ''.'' @ pad_zero 2 (frac_part div 10) @ suffix_str
               else show_int int_part @ ''.'' @ pad_zero 3 frac_part @ suffix_str))"

section \<open>Printing and parsing\<close>

lemma digit_char_cases: "d < 10 \<Longrightarrow> digit_char d \<in> set ''0123456789''"
proof -
  assume "d < 10"
  then have "d \<in> set [0, 1, 2, 3, 4, 5, 6, 7, 8, 9]" by auto
  moreover have "\<forall>d \<in> set [0, 1, 2, 3, 4, 5, 6, 7, 8, 9 :: nat]. digit_char d \<in> set ''0123456789''"
    by code_simp
  ultimately show ?thesis by blast
qed

lemma show_nat_digits: "set (show_nat n) \<subseteq> set ''0123456789''"
proof (induction n rule: show_nat.induct)
  case (1 n)
  define D where "D = set ''0123456789''"
  have "n < 10 \<Longrightarrow> digit_char n \<in> D" "digit_char (n mod 10) \<in> D"
    using digit_char_cases unfolding D_def by simp_all
  with 1 [folded D_def] show ?case
    unfolding D_def [symmetric] by (subst show_nat.simps) auto
qed

lemma length_show_nat: "n < 10 ^ w \<Longrightarrow> 0 < w \<Longrightarrow> length (show_nat n) \<le> w"
proof (induction w arbitrary: n)
  case (Suc w)
  show ?case
  proof (cases "n < 10")
    case True
    then show ?thesis by (subst show_nat.simps) simp
  next
    case False
    then have "0 < w" using Suc.prems by (cases w) auto
    moreover have "n div 10 < 10 ^ w" using Suc.prems by (simp add: less_mult_imp_div_less mult.commute)
    ultimately have "length (show_nat (n div 10)) \<le> w" by (intro Suc.IH)
    with False show ?thesis by (subst show_nat.simps) simp
  qed
qed simp

lemma parse_digits_zeros: "parse_digits 0 (replicate k CHR ''0'' @ s) = parse_digits 0 s"
proof (induction k)
  case (Suc k)
  have "digit_val CHR ''0'' = Some 0" by code_simp
  with Suc show ?case by simp
qed simp

lemma pad_zero_digits: "set (pad_zero w n) \<subseteq> set ''0123456789''"
  using show_nat_digits [of n] by (auto simp: pad_zero_def Let_def)

lemma length_pad_zero: "n < 10 ^ w \<Longrightarrow> 0 < w \<Longrightarrow> length (pad_zero w n) = w"
  using length_show_nat [of n w] by (simp add: pad_zero_def Let_def)

text \<open>A digit string reads as its value, and an integer as itself.\<close>

lemma parse_i128_digits:
  assumes "set ds \<subseteq> set ''0123456789''" and "ds \<noteq> []" and "parse_digits 0 ds = Some n"
    and "i128_ok (int n)"
  shows "parse_i128 ds = Some (int n)"
proof -
  obtain c cs where ds: "ds = c # cs" using assms(2) by (cases ds) auto
  then have "c \<noteq> CHR ''-''" "c \<noteq> CHR ''+''" using assms(1) by auto
  with assms show ?thesis by (simp add: parse_i128_def ds)
qed

lemma parse_i128_show_int:
  assumes "i128_ok i"
  shows "parse_i128 (show_int i) = Some i"
proof (cases "i < 0")
  case True
  with assms show ?thesis by (simp add: parse_i128_def show_int_def parse_digits_show_nat)
next
  case False
  with assms parse_i128_digits [OF show_nat_digits _ parse_digits_show_nat, of "nat i"] show ?thesis
    by (simp add: show_int_def)
qed

lemma i128_small: "n < 1000 \<Longrightarrow> i128_ok (int n)"
  by (simp add: i128_ok_def i128_min_def i128_max_def)

text \<open>The fraction text of a count of thousandths reads back as that count.\<close>

definition frac_text :: "nat \<Rightarrow> string" where
  "frac_text f =
     (if f mod 100 = 0 then show_nat (f div 100)
      else if f mod 10 = 0 then pad_zero 2 (f div 10) else pad_zero 3 f)"

lemma frac_text_reads:
  assumes "0 < f" and "f < 1000"
  shows "set (frac_text f) \<subseteq> set ''0123456789''" and "frac_text f \<noteq> []" and "length (frac_text f) \<le> 3"
    and "\<exists>n. parse_i128 (frac_text f) = Some (int n) \<and> int n * 10 ^ (3 - length (frac_text f)) = int f"
proof -
  have pad: "parse_i128 (pad_zero w n) = Some (int n)" if "n < 1000" "n < 10 ^ w" "0 < w" for w n
    using that pad_zero_digits [of w n] length_pad_zero [of n w]
    by (intro parse_i128_digits)
      (auto simp: pad_zero_def Let_def parse_digits_zeros parse_digits_show_nat i128_small)
  have show1: "show_nat (f div 100) = pad_zero 1 (f div 100)" if "f div 100 < 10"
    using that by (simp add: pad_zero_def show_nat.simps)
  consider (a) "f mod 100 = 0" | (b) "f mod 100 \<noteq> 0" "f mod 10 = 0" | (c) "f mod 100 \<noteq> 0" "f mod 10 \<noteq> 0"
    by blast
  then have "set (frac_text f) \<subseteq> set ''0123456789'' \<and> frac_text f \<noteq> [] \<and> length (frac_text f) \<le> 3 \<and>
    (\<exists>n. parse_i128 (frac_text f) = Some (int n) \<and> int n * 10 ^ (3 - length (frac_text f)) = int f)"
  proof cases
    case a
    have d: "f div 100 < 10" using assms by linarith
    have "length (pad_zero 1 (f div 100)) = 1" using length_pad_zero [of "f div 100" 1] d by simp
    moreover have "int (f div 100) * 100 = int f" using a by (metis of_nat_mult of_nat_numeral div_mult_mod_eq add.right_neutral)
    ultimately show ?thesis
      using a d pad [of "f div 100" 1] pad_zero_digits [of 1 "f div 100"]
      by (auto simp: frac_text_def show1 power2_eq_square)
  next
    case b
    have d: "f div 10 < 100" using assms by linarith
    have "length (pad_zero 2 (f div 10)) = 2" using length_pad_zero [of "f div 10" 2] d by simp
    moreover have "int (f div 10) * 10 = int f" using b by (metis of_nat_mult of_nat_numeral div_mult_mod_eq add.right_neutral)
    ultimately show ?thesis
      using b d pad [of "f div 10" 2] pad_zero_digits [of 2 "f div 10"]
      by (auto simp: frac_text_def)
  next
    case c
    have "length (pad_zero 3 f) = 3" using length_pad_zero [of f 3] assms by simp
    then show ?thesis
      using c assms pad [of f 3] pad_zero_digits [of 3 f] by (auto simp: frac_text_def)
  qed
  then show "set (frac_text f) \<subseteq> set ''0123456789''" and "frac_text f \<noteq> []" and "length (frac_text f) \<le> 3"
    and "\<exists>n. parse_i128 (frac_text f) = Some (int n) \<and> int n * 10 ^ (3 - length (frac_text f)) = int f"
    by blast+
qed

text \<open>The text of a quantity is the text of its unscaled value, then its suffix.\<close>

definition num_text :: "int \<Rightarrow> string" where
  "num_text v =
     show_int (v sdiv 1000) @
     (if v smod 1000 = 0 then [] else CHR ''.'' # frac_text (nat \<bar>v smod 1000\<bar>))"

lemma quantity_to_string_num_text:
  "quantity_to_string (Parsed m sf) = num_text (un_apply_from_milli sf m) @ suffix_to_str sf"
  by (simp add: num_text_def frac_text_def Let_def)

lemma thousands_cases:
  fixes v :: int
  obtains (pos) q r where "v sdiv 1000 = q" "v smod 1000 = r" "v = q * 1000 + r" "0 \<le> q" "0 \<le> r" "r < 1000"
    | (neg) q r where "v sdiv 1000 = - q" "v smod 1000 = - r" "v = - (q * 1000 + r)" "v < 0"
        "0 \<le> q" "0 \<le> r" "r < 1000"
proof (cases "0 \<le> v")
  case True
  show thesis
    by (rule pos [of "v div 1000" "v mod 1000"])
      (use True in \<open>simp_all add: signed_divide_int_def signed_modulo_int_def sgn_if pos_imp_zdiv_nonneg_iff\<close>)
next
  case False
  have "v = - ((- v) div 1000 * 1000 + (- v) mod 1000)" by (metis div_mult_mod_eq minus_minus)
  then show thesis
    by (intro neg [of "(- v) div 1000" "(- v) mod 1000"])
      (use False in \<open>simp_all add: signed_divide_int_def signed_modulo_int_def sgn_if pos_imp_zdiv_nonneg_iff
         del: minus_add_distrib\<close>)
qed

lemma thousands:
  fixes v :: int
  shows "v sdiv 1000 * 1000 + v smod 1000 = v" and "\<bar>v smod 1000\<bar> < 1000"
    and "v < 0 \<Longrightarrow> v smod 1000 \<le> 0" and "0 \<le> v \<Longrightarrow> 0 \<le> v smod 1000"
    and "0 \<le> v \<Longrightarrow> 0 \<le> v sdiv 1000" and "v \<le> - 1000 \<Longrightarrow> v sdiv 1000 < 0"
    and "v \<le> 0 \<Longrightarrow> v sdiv 1000 \<le> 0"
  by (cases v rule: thousands_cases; linarith)+

lemma i128_ok_thousands:
  assumes "i128_ok v"
  shows "i128_ok (v sdiv 1000)" and "i128_ok (v sdiv 1000 * 1000)"
  using assms unfolding i128_ok_def i128_min_def i128_max_def
  by (cases v rule: thousands_cases; simp)+

lemma show_int_chars: "set (show_int i) \<subseteq> insert CHR ''-'' (set ''0123456789'')"
proof -
  have "set (show_int i) \<subseteq> insert CHR ''-'' (set (show_nat (nat \<bar>i\<bar>)))"
    by (auto simp: show_int_def)
  also have "\<dots> \<subseteq> insert CHR ''-'' (set ''0123456789'')"
    by (rule insert_mono) (rule show_nat_digits)
  finally show ?thesis .
qed

lemma show_int_no_dot: "CHR ''.'' \<notin> set (show_int i)"
proof
  assume "CHR ''.'' \<in> set (show_int i)"
  then have "CHR ''.'' \<in> insert CHR ''-'' (set ''0123456789'')" using show_int_chars by blast
  then show False by simp
qed

lemma split_once_first: "c \<notin> set s \<Longrightarrow> split_once c (s @ c # t) = Some (s, t)"
  by (induction s) (auto simp: split_once_def)

lemma split_once_none: "c \<notin> set s \<Longrightarrow> split_once c s = None"
  by (simp add: split_once_def)

lemma prefix_minus_show_int: "prefix ''-'' (show_int i @ s) \<longleftrightarrow> i < 0"
proof -
  have "hd (show_nat n) \<noteq> CHR ''-''" for n
  proof
    assume "hd (show_nat n) = CHR ''-''"
    then have "CHR ''-'' \<in> set (show_nat n)" using hd_in_set [OF show_nat_nonempty, of n] by simp
    then have "CHR ''-'' \<in> set ''0123456789''" by (rule subsetD [OF show_nat_digits])
    then show False by simp
  qed
  then have "hd (show_nat (nat i)) \<noteq> CHR ''-''" .
  then show ?thesis
    by (cases "show_nat (nat i)") (auto simp: show_int_def)
qed

lemma parse_decimal_parts:
  assumes "split_once CHR ''.'' s = Some (a, b)" and "parse_i128 a = Some i" and "b \<noteq> []"
    and "length b \<le> 3" and "parse_i128 b = Some f"
  shows "parse_decimal_to_milli s =
    Inr (wrap_i128 (sat_i128 (i * 1000) +
      f * 10 ^ (3 - length b) * (if i < 0 \<or> prefix ''-'' s then - 1 else 1)))"
  using assms by (simp add: parse_decimal_to_milli_def Let_def)

lemma parse_decimal_int:
  assumes "split_once CHR ''.'' s = None" and "parse_i128 s = Some i"
  shows "parse_decimal_to_milli s = Inr (sat_i128 (i * 1000))"
  using assms by (simp add: parse_decimal_to_milli_def)

lemma num_text_reads:
  assumes "i128_ok v" and "0 \<le> v \<or> v \<le> - 1000"
  shows "parse_decimal_to_milli (num_text v) = Inr v"
proof -
  obtain i r where ir: "v sdiv 1000 = i" "v smod 1000 = r" by blast
  have v: "i * 1000 + r = v" "\<bar>r\<bar> < 1000" "i < 0 \<longrightarrow> r \<le> 0" "\<not> i < 0 \<longrightarrow> 0 \<le> r"
    using thousands [of v] assms(2) unfolding ir by auto
  have ok: "i128_ok i" "i128_ok (i * 1000)" using i128_ok_thousands [OF assms(1)] unfolding ir by auto
  have num: "num_text v = show_int i @ (if r = 0 then [] else CHR ''.'' # frac_text (nat \<bar>r\<bar>))"
    unfolding num_text_def ir ..
  show ?thesis
  proof (cases "r = 0")
    case True
    with v(1) num have "num_text v = show_int i" "i * 1000 = v" by simp_all
    moreover have "split_once CHR ''.'' (show_int i) = None"
      by (rule split_once_none) (rule show_int_no_dot)
    ultimately show ?thesis
      using parse_decimal_int [of "show_int i" i] ok by (simp add: parse_i128_show_int)
  next
    case False
    let ?f = "nat \<bar>r\<bar>"
    have f: "0 < ?f" "?f < 1000" using False v(2) by auto
    from frac_text_reads [OF this] obtain n where n: "frac_text ?f \<noteq> []" "length (frac_text ?f) \<le> 3"
        "parse_i128 (frac_text ?f) = Some (int n)" "int n * 10 ^ (3 - length (frac_text ?f)) = int ?f"
      by blast
    have t: "num_text v = show_int i @ CHR ''.'' # frac_text ?f" using num False by simp
    have "split_once CHR ''.'' (num_text v) = Some (show_int i, frac_text ?f)"
      unfolding t by (rule split_once_first) (rule show_int_no_dot)
    moreover have "prefix ''-'' (num_text v) \<longleftrightarrow> i < 0" unfolding t by (rule prefix_minus_show_int)
    moreover have "i * 1000 + int ?f * (if i < 0 then - 1 else 1) = v" using v by auto
    ultimately show ?thesis
      using parse_decimal_parts [of "num_text v" "show_int i" "frac_text ?f" i "int n"] n ok assms(1)
      by (simp add: parse_i128_show_int)
  qed
qed

text \<open>A quantity text has nothing to trim and splits into its number and its suffix.\<close>

definition plain_chars :: string where
  "plain_chars = ''0123456789-mkKMGTPEi''"

lemma white_space_not_plain:
  "\<forall>w \<in> set white_space. w \<noteq> [] \<and> hd w \<notin> set plain_chars \<and> hd (rev w) \<notin> set plain_chars"
  by code_simp

lemma num_char_facts:
  "set ''0123456789-.'' \<subseteq> Collect is_num_char" "set ''mkKMGTPEi'' \<subseteq> - Collect is_num_char"
proof -
  have num: "\<forall>c \<in> set ''0123456789-.''. is_num_char c" by code_simp
  have no: "\<forall>c \<in> set ''mkKMGTPEi''. \<not> is_num_char c" by code_simp
  show "set ''0123456789-.'' \<subseteq> Collect is_num_char" by (rule subsetI, rule CollectI, rule bspec [OF num])
  show "set ''mkKMGTPEi'' \<subseteq> - Collect is_num_char"
    by (rule subsetI, rule ComplI, drule CollectD) (erule notE [rotated], rule bspec [OF no])
qed

lemma strip_front_id:
  assumes "s \<noteq> []" and "\<forall>w \<in> set ws. w \<noteq> [] \<longrightarrow> hd w \<noteq> hd s"
  shows "strip_front ws s = s"
proof -
  have "find (\<lambda>w. w \<noteq> [] \<and> prefix w s) ws = None"
    using assms by (auto simp: find_None_iff prefix_def hd_append)
  then show ?thesis by (simp add: strip_front.simps)
qed

lemma trim_id:
  assumes "s \<noteq> []" and "hd s \<in> set plain_chars" and "last s \<in> set plain_chars"
  shows "trim s = s"
proof -
  have ws: "hd w \<noteq> hd s \<and> hd (rev w) \<noteq> hd (rev s)" if "w \<in> set white_space" for w
    using bspec [OF white_space_not_plain that] assms(2,3) by (metis hd_rev)
  have "strip_front white_space s = s"
    by (rule strip_front_id [OF assms(1)]) (use ws in simp)
  moreover have "strip_front (map rev white_space) (rev s) = rev s"
    by (rule strip_front_id) (use ws assms(1) in simp_all)
  ultimately show ?thesis by (simp add: trim_def)
qed

definition suffix_ok :: "suffix \<Rightarrow> bool" where
  "suffix_ok sf =
     (case sf of SfDecimalSi e \<Rightarrow> 1 \<le> e \<and> e \<le> 6 | SfBinarySi e \<Rightarrow> 1 \<le> e \<and> e \<le> 6 | _ \<Rightarrow> True)"

lemma suffix_cases:
  assumes "suffix_ok sf"
  shows "sf \<in> set (map snd suffix_table)"
proof -
  have "e = 1 \<or> e = 2 \<or> e = 3 \<or> e = 4 \<or> e = 5 \<or> e = 6" if "1 \<le> e" "e \<le> 6" for e :: nat
    using that by linarith
  with assms show ?thesis by (cases sf) (auto simp: suffix_ok_def suffix_table_def)
qed

lemma suffix_text:
  assumes "suffix_ok sf"
  shows "suffix_from_str (suffix_to_str sf) = Inr sf" and "set (suffix_to_str sf) \<subseteq> set ''mkKMGTPEi''"
proof -
  have "\<forall>sf \<in> set (map snd suffix_table). suffix_from_str (suffix_to_str sf) = Inr sf \<and>
      list_all (\<lambda>c. c \<in> set ''mkKMGTPEi'') (suffix_to_str sf)"
    by code_simp
  from bspec [OF this suffix_cases [OF assms]]
  show "suffix_from_str (suffix_to_str sf) = Inr sf" "set (suffix_to_str sf) \<subseteq> set ''mkKMGTPEi''"
    unfolding list_all_iff subset_eq by blast+
qed

lemma suffix_from_str_ok:
  assumes "suffix_from_str s = Inr sf"
  shows "suffix_ok sf"
proof -
  have "\<forall>p \<in> set suffix_table. suffix_ok (snd p)" by code_simp
  moreover have "(s, sf) \<in> set suffix_table"
    using assms by (auto simp: suffix_from_str_def dest: map_of_SomeD split: option.splits)
  ultimately show ?thesis by (metis snd_conv)
qed

lemma num_text_chars:
  "set (num_text v) \<subseteq> set ''0123456789-.''" "num_text v \<noteq> []"
  "hd (num_text v) \<in> set plain_chars" "last (num_text v) \<in> set plain_chars"
proof -
  let ?i = "v sdiv 1000" and ?f = "nat \<bar>v smod 1000\<bar>"
  define D where "D = set ''0123456789''"
  have num: "D \<union> {CHR ''-'', CHR ''.''} \<subseteq> set ''0123456789-.''" by (simp add: D_def)
  have plain: "insert CHR ''-'' D \<subseteq> set plain_chars" by (simp add: D_def plain_chars_def)
  have i: "set (show_int ?i) \<subseteq> insert CHR ''-'' D" unfolding D_def by (rule show_int_chars)
  have ne: "show_int ?i \<noteq> []" by (simp add: show_int_def)
  have f: "set (frac_text ?f) \<subseteq> D \<and> frac_text ?f \<noteq> []" if "v smod 1000 \<noteq> 0"
  proof -
    have "0 < ?f" "?f < 1000" using that thousands(2) [of v] by auto
    from frac_text_reads(1,2) [OF this] show ?thesis unfolding D_def by blast
  qed
  have "set (num_text v) \<subseteq> D \<union> {CHR ''-'', CHR ''.''}"
    using i f by (auto simp: num_text_def)
  then show "set (num_text v) \<subseteq> set ''0123456789-.''" using num by (rule order_trans)
  show "num_text v \<noteq> []" using ne by (simp add: num_text_def)
  have "hd (num_text v) \<in> insert CHR ''-'' D"
    using subsetD [OF i hd_in_set [OF ne]] ne by (simp add: num_text_def)
  then show "hd (num_text v) \<in> set plain_chars" using plain by (rule rev_subsetD)
  have "last (num_text v) \<in> insert CHR ''-'' D"
    using subsetD [OF i last_in_set [OF ne]] f last_in_set [of "frac_text ?f"]
    by (cases "v smod 1000 = 0") (auto simp: num_text_def subset_iff simp del: last_in_set)
  then show "last (num_text v) \<in> set plain_chars" using plain by (rule rev_subsetD)
qed

lemma quantity_text_reads:
  assumes "suffix_ok sf" and "i128_ok v" and "0 \<le> v \<or> v \<le> - 1000"
  shows "quantity_from_str (num_text v @ suffix_to_str sf) = Inr (Parsed (apply_to_milli sf v) sf)"
proof -
  let ?s = "num_text v @ suffix_to_str sf"
  note c = num_text_chars [of v] and st = suffix_text [OF assms(1)]
  have "set ''mkKMGTPEi'' \<subseteq> set plain_chars" by (simp add: plain_chars_def)
  with st(2) have "set (suffix_to_str sf) \<subseteq> set plain_chars" by (rule order_trans)
  then have "last ?s \<in> set plain_chars"
    using c(4) last_in_set [of "suffix_to_str sf"] by (cases "suffix_to_str sf = []") auto
  with c(2,3) have trim: "trim ?s = ?s" by (intro trim_id) auto
  have num: "set (num_text v) \<subseteq> Collect is_num_char"
    using c(1) num_char_facts(1) by (rule order_trans)
  have "set (suffix_to_str sf) \<subseteq> - Collect is_num_char"
    using st(2) num_char_facts(2) by (rule order_trans)
  then have "\<not> is_num_char (hd (suffix_to_str sf))" if "suffix_to_str sf \<noteq> []"
    using hd_in_set [OF that] by blast
  then have "takeWhile is_num_char (suffix_to_str sf) = [] \<and> dropWhile is_num_char (suffix_to_str sf) = suffix_to_str sf"
    by (cases "suffix_to_str sf") auto
  with num have "takeWhile is_num_char ?s = num_text v" "dropWhile is_num_char ?s = suffix_to_str sf"
    by (auto simp: takeWhile_append2 dropWhile_append2 subset_iff)
  then show ?thesis
    using c(2) trim st(1) num_text_reads [OF assms(2,3)] by (simp add: quantity_from_str_def Let_def)
qed

lemma quantity_from_str_scaled:
  assumes "quantity_from_str s = Inr q"
  shows "\<exists>u. i128_ok u \<and> suffix_ok (q_suffix q) \<and> q = Parsed (apply_to_milli (q_suffix q) u) (q_suffix q)"
proof -
  obtain sf u where sf: "suffix_from_str (dropWhile is_num_char (trim s)) = Inr sf"
      and u: "parse_decimal_to_milli (takeWhile is_num_char (trim s)) = Inr u"
      and q: "q = Parsed (apply_to_milli sf u) sf"
    using assms by (auto simp: quantity_from_str_def Let_def split: if_splits sum.splits)
  have "i128_ok u"
    using u by (auto simp: parse_decimal_to_milli_def Let_def split: option.splits if_splits prod.splits)
  with sf q suffix_from_str_ok [OF sf] show ?thesis by auto
qed

text \<open>
  The factors of the suffixes are positive and fit, so a value that did not saturate unscales
  to the value it was scaled from.
\<close>

lemma suffix_factor:
  "1 \<le> e \<Longrightarrow> e \<le> 6 \<Longrightarrow> wrap_i128 (10 ^ (e * 3)) = 10 ^ (e * 3)"
  "1 \<le> e \<Longrightarrow> e \<le> 6 \<Longrightarrow> wrap_i128 (2 ^ (e * 10 mod 128)) = 2 ^ (e * 10)"
proof -
  assume e: "1 \<le> e" "e \<le> 6"
  have "10 ^ (e * 3) \<le> (10 ^ 18 :: int)" using e by (intro power_increasing) auto
  also have "\<dots> \<le> i128_max" by (simp add: i128_max_def)
  finally have "10 ^ (e * 3) \<le> i128_max" .
  moreover have "i128_min \<le> (10 ^ (e * 3) :: int)"
    by (rule order_trans [of _ 0]) (simp_all add: i128_min_def)
  ultimately show "wrap_i128 (10 ^ (e * 3)) = 10 ^ (e * 3)" by (simp add: i128_ok_def)
  have m: "e * 10 mod 128 = e * 10" using e by simp
  have "2 ^ (e * 10) \<le> (2 ^ 60 :: int)" using e by (intro power_increasing) auto
  also have "\<dots> \<le> i128_max" by (simp add: i128_max_def)
  finally have "2 ^ (e * 10) \<le> i128_max" .
  moreover have "i128_min \<le> (2 ^ (e * 10) :: int)"
    by (rule order_trans [of _ 0]) (simp_all add: i128_min_def)
  ultimately show "wrap_i128 (2 ^ (e * 10 mod 128)) = 2 ^ (e * 10)" by (simp add: i128_ok_def m)
qed

lemma sdiv_mult_self: "(k :: int) > 0 \<Longrightarrow> (u * k) sdiv k = u"
  by (simp add: signed_divide_int_def sgn_mult abs_mult sgn_mult_abs)

lemma sat_i128_inside: "\<bar>sat_i128 x\<bar> < i128_max \<Longrightarrow> sat_i128 x = x"
  by (auto simp: sat_i128_def i128_min_def i128_max_def min_def max_def split: if_splits)

lemma unscale_scale:
  assumes "suffix_ok sf" and "i128_ok u" and "\<bar>apply_to_milli sf u\<bar> < i128_max"
  shows "i128_ok (un_apply_from_milli sf (apply_to_milli sf u)) \<and>
    apply_to_milli sf (un_apply_from_milli sf (apply_to_milli sf u)) = apply_to_milli sf u \<and>
    (0 \<le> apply_to_milli sf u \<longrightarrow> 0 \<le> un_apply_from_milli sf (apply_to_milli sf u))"
proof (cases sf)
  case SfNone
  with assms show ?thesis by simp
next
  case SfMilli
  have "(u sdiv 1000) * 1000 sdiv 1000 = u sdiv 1000" by (rule sdiv_mult_self) simp
  with SfMilli i128_ok_thousands [OF assms(2)] show ?thesis by simp
next
  case (SfDecimalSi e)
  with assms(1) have e: "1 \<le> e" "e \<le> 6" by (simp_all add: suffix_ok_def)
  let ?k = "10 ^ (e * 3) :: int"
  have "sat_i128 (u * ?k) = u * ?k" using assms(3) SfDecimalSi suffix_factor(1) [OF e] sat_i128_inside by simp
  moreover have "0 < ?k" by simp
  ultimately show ?thesis
    using SfDecimalSi suffix_factor(1) [OF e] assms(2)
    by (simp add: sdiv_mult_self zero_le_mult_iff del: zero_less_power)
next
  case (SfBinarySi e)
  with assms(1) have e: "1 \<le> e" "e \<le> 6" by (simp_all add: suffix_ok_def)
  let ?k = "2 ^ (e * 10) :: int"
  have "sat_i128 (u * ?k) = u * ?k" using assms(3) SfBinarySi suffix_factor(2) [OF e] sat_i128_inside by simp
  moreover have "0 < ?k" by simp
  ultimately show ?thesis
    using SfBinarySi suffix_factor(2) [OF e] assms(2)
    by (simp add: sdiv_mult_self zero_le_mult_iff del: zero_less_power)
qed

section \<open>Properties of quantities\<close>

text \<open>
  C31. A quantity that was read prints to a text that reads as the same quantity, with the same
  value and the same suffix, provided its value did not saturate and is not a negative
  fraction above minus one unit of its suffix (see \<open>quantity_sign_lost\<close>).
\<close>

theorem quantity_roundtrip:
  assumes "quantity_from_str s = Inr q" and "\<bar>q_milli q\<bar> < i128_max"
    and "0 \<le> q_milli q \<or> un_apply_from_milli (q_suffix q) (q_milli q) \<le> - 1000"
  shows "quantity_from_str (quantity_to_string q) = Inr q"
proof -
  obtain u where u: "i128_ok u" "suffix_ok (q_suffix q)" "q = Parsed (apply_to_milli (q_suffix q) u) (q_suffix q)"
    using quantity_from_str_scaled [OF assms(1)] by blast
  define sf where "sf = q_suffix q"
  have q: "q = Parsed (apply_to_milli sf u) sf" "suffix_ok sf" using u by (simp_all add: sf_def)
  let ?v = "un_apply_from_milli sf (apply_to_milli sf u)"
  have "\<bar>apply_to_milli sf u\<bar> < i128_max" using assms(2) q(1) by simp
  note v = unscale_scale [OF q(2) u(1) this]
  moreover have "0 \<le> ?v \<or> ?v \<le> - 1000" using assms(3) v q(1) by auto
  ultimately have "quantity_from_str (num_text ?v @ suffix_to_str sf) = Inr (Parsed (apply_to_milli sf u) sf)"
    using quantity_text_reads [OF q(2), of ?v] by simp
  then show ?thesis by (simp only: q(1) quantity_to_string_num_text)
qed

theorem quantity_roundtrip_witness:
  "quantity_from_str ''1.50Gi'' = Inr (Parsed 1610612736000 (SfBinarySi 3)) \<and>
   quantity_to_string (Parsed 1610612736000 (SfBinarySi 3)) = ''1.5Gi'' \<and>
   quantity_from_str ''1.5Gi'' = Inr (Parsed 1610612736000 (SfBinarySi 3))"
proof -
  have p: "quantity_from_str ''1.50Gi'' = Inr (Parsed 1610612736000 (SfBinarySi 3))" by code_simp
  have t: "quantity_to_string (Parsed 1610612736000 (SfBinarySi 3)) = ''1.5Gi''" by code_simp
  from quantity_roundtrip [OF p] p t show ?thesis by (simp add: i128_max_def)
qed

text \<open>
  The printer drops the sign of a negative fraction: the text \<open>-0.5\<close> reads as minus five
  hundred thousandths and prints as \<open>0.5\<close>, which reads as plus five hundred. Reading and
  writing a quantity therefore does not keep its value.
\<close>

theorem quantity_sign_lost:
  "quantity_deserialize ''-0.5'' = Parsed (- 500) SfNone \<and>
   quantity_to_string (quantity_deserialize ''-0.5'') = ''0.5'' \<and>
   quantity_deserialize ''0.5'' = Parsed 500 SfNone"
  by code_simp

end
