(* ===== verification/Capacity.thy ===== *)
theory Capacity
  imports Quantity Json
begin

text \<open>
  What a pod occupies and what a node has left (\<open>engenho-scheduler/src/fit.rs\<close> and
  \<open>ledger.rs\<close>). Amounts are signed 128-bit counts of thousandths that saturate. The reader
  of requests threads the flag \<open>malformed\<close> the code latches. The text of a floating-point
  JSON number is \<open>serde_json\<close>'s, so it is the argument \<open>ft\<close>.

  The main results: a pod's requests are the peak of what its containers use together over
  its life, and the ledger's balance of a node is its allocatable capacity less the
  requests of every pod bound there that still holds them.
\<close>

section \<open>Member access\<close>

text \<open>
  \<open>Value::pointer\<close> on a path of names: a name that is not an array index selects a member of
  an object and nothing else.
\<close>

fun jpath :: "string list \<Rightarrow> json \<Rightarrow> json option" where
  "jpath [] v = Some v"
| "jpath (k # ks) v = Option.bind (jget v k) (jpath ks)"

text \<open>A member of an optional value, and its string.\<close>

abbreviation oget :: "json option \<Rightarrow> string \<Rightarrow> json option" where
  "oget v k \<equiv> Option.bind v (\<lambda>m. jget m k)"

abbreviation ostr :: "json option \<Rightarrow> string option" where
  "ostr v \<equiv> Option.bind v as_str"

type_synonym float_text = "64 word \<Rightarrow> string"

fun number_text :: "float_text \<Rightarrow> number \<Rightarrow> string" where
  "number_text ft (PosInt n) = show_nat n"
| "number_text ft (NegInt i) = show_int i"
| "number_text ft (Float w) = ft w"

section \<open>Requests\<close>

record node_resources =
  nr_cpu_milli :: int
  nr_mem_milli :: int

record pod_requests =
  pr_cpu_milli :: int
  pr_mem_milli :: int
  pr_unparseable :: bool

definition requests_is_zero :: "pod_requests \<Rightarrow> bool" where
  "requests_is_zero r \<longleftrightarrow> pr_cpu_milli r = 0 \<and> pr_mem_milli r = 0 \<and> \<not> pr_unparseable r"

definition parse_milli :: "string \<Rightarrow> int option" where
  "parse_milli s = (case quantity_from_str s of Inr q \<Rightarrow> milli_value q | Inl _ \<Rightarrow> None)"

definition quantity_milli :: "json option \<Rightarrow> string \<Rightarrow> int option" where
  "quantity_milli m key = Option.bind (ostr (oget m key)) parse_milli"

definition node_allocatable :: "json \<Rightarrow> node_resources" where
  "node_allocatable node =
     (let status = jget node ''status'';
          allocatable = oget status ''allocatable'';
          capacity = oget status ''capacity'';
          read = (\<lambda>key. case quantity_milli allocatable key of
                    Some m \<Rightarrow> m
                  | None \<Rightarrow> (case quantity_milli capacity key of Some m \<Rightarrow> m | None \<Rightarrow> 0))
      in \<lparr>nr_cpu_milli = read ''cpu'', nr_mem_milli = read ''memory''\<rparr>)"

record rpair =
  rp_cpu :: int
  rp_mem :: int

definition pair_zero :: rpair where
  "pair_zero = \<lparr>rp_cpu = 0, rp_mem = 0\<rparr>"

definition pair_plus :: "rpair \<Rightarrow> rpair \<Rightarrow> rpair" where
  "pair_plus a b =
     \<lparr>rp_cpu = sat_i128 (rp_cpu a + rp_cpu b), rp_mem = sat_i128 (rp_mem a + rp_mem b)\<rparr>"

definition max_each :: "rpair \<Rightarrow> rpair \<Rightarrow> rpair" where
  "max_each a b = \<lparr>rp_cpu = max (rp_cpu a) (rp_cpu b), rp_mem = max (rp_mem a) (rp_mem b)\<rparr>"

datatype init_role = RolePlain | RoleSidecar

text \<open>The reader: each read returns its value and the flag.\<close>

definition reader_quantity :: "float_text \<Rightarrow> bool \<Rightarrow> json \<Rightarrow> int \<times> bool" where
  "reader_quantity ft malformed v =
     (let parsed = (case v of
                      JString s \<Rightarrow> parse_milli s
                    | JNumber n \<Rightarrow> parse_milli (number_text ft n)
                    | _ \<Rightarrow> None)
      in case parsed of
           Some milli \<Rightarrow> (if milli \<ge> 0 then (milli, malformed) else (0, True))
         | None \<Rightarrow> (0, True))"

definition reader_entry :: "float_text \<Rightarrow> bool \<Rightarrow> json option \<Rightarrow> int \<times> bool" where
  "reader_entry ft malformed v =
     (case v of None \<Rightarrow> (0, malformed) | Some q \<Rightarrow> reader_quantity ft malformed q)"

definition reader_list :: "float_text \<Rightarrow> bool \<Rightarrow> json option \<Rightarrow> rpair \<times> bool" where
  "reader_list ft malformed l =
     (let (cpu, m1) = reader_entry ft malformed (oget l ''cpu'');
          (mem, m2) = reader_entry ft m1 (oget l ''memory'')
      in (\<lparr>rp_cpu = cpu, rp_mem = mem\<rparr>, m2))"

definition reader_container :: "float_text \<Rightarrow> bool \<Rightarrow> json \<Rightarrow> rpair \<times> bool" where
  "reader_container ft malformed c = reader_list ft malformed (jpath [''resources'', ''requests''] c)"

definition reader_init_role :: "bool \<Rightarrow> json \<Rightarrow> init_role \<times> bool" where
  "reader_init_role malformed c =
     (case jget c ''restartPolicy'' of
        None \<Rightarrow> (RolePlain, malformed)
      | Some JNull \<Rightarrow> (RolePlain, malformed)
      | Some v \<Rightarrow> (if v = JString ''Always'' then (RoleSidecar, malformed) else (RoleSidecar, True)))"

definition listed :: "json option \<Rightarrow> string \<Rightarrow> json list" where
  "listed spec key = (case Option.bind (oget spec key) as_array of Some xs \<Rightarrow> xs | None \<Rightarrow> [])"

fun sum_containers :: "float_text \<Rightarrow> bool \<Rightarrow> rpair \<Rightarrow> json list \<Rightarrow> rpair \<times> bool" where
  "sum_containers ft malformed acc [] = (acc, malformed)"
| "sum_containers ft malformed acc (c # cs) =
     (let (own, m) = reader_container ft malformed c in sum_containers ft m (pair_plus acc own) cs)"

text \<open>The walk over the init containers, with the running total, sidecar sum and peak.\<close>

fun walk_inits ::
  "float_text \<Rightarrow> bool \<Rightarrow> rpair \<Rightarrow> rpair \<Rightarrow> rpair \<Rightarrow> json list \<Rightarrow> rpair \<times> rpair \<times> bool" where
  "walk_inits ft malformed tot sidecars init_peak [] = (tot, init_peak, malformed)"
| "walk_inits ft malformed tot sidecars init_peak (c # cs) =
     (let (own, m1) = reader_container ft malformed c;
          (role, m2) = reader_init_role m1 c
      in case role of
           RoleSidecar \<Rightarrow>
             (let sidecars' = pair_plus sidecars own
              in walk_inits ft m2 (pair_plus tot own) sidecars' (max_each init_peak sidecars') cs)
         | RolePlain \<Rightarrow>
             walk_inits ft m2 tot sidecars (max_each init_peak (pair_plus own sidecars)) cs)"

definition pod_requests_of :: "float_text \<Rightarrow> json \<Rightarrow> pod_requests" where
  "pod_requests_of ft pod =
     (let spec = jget pod ''spec'';
          (total0, m0) = sum_containers ft False pair_zero (listed spec ''containers'');
          (tot, init_peak, m1) =
            walk_inits ft m0 total0 pair_zero pair_zero (listed spec ''initContainers'');
          effective = max_each tot init_peak;
          pod_level = Option.bind spec (jpath [''resources'', ''requests'']);
          (cpu, m2) = (case oget pod_level ''cpu'' of
                         Some q \<Rightarrow> reader_quantity ft m1 q
                       | None \<Rightarrow> (rp_cpu effective, m1));
          (mem, m3) = (case oget pod_level ''memory'' of
                         Some q \<Rightarrow> reader_quantity ft m2 q
                       | None \<Rightarrow> (rp_mem effective, m2));
          (overhead, m4) = reader_list ft m3 (oget spec ''overhead'');
          whole = pair_plus \<lparr>rp_cpu = cpu, rp_mem = mem\<rparr> overhead
      in \<lparr>pr_cpu_milli = rp_cpu whole, pr_mem_milli = rp_mem whole, pr_unparseable = m4\<rparr>)"

definition fits :: "node_resources \<Rightarrow> pod_requests \<Rightarrow> bool" where
  "fits free req =
     (if pr_unparseable req then False
      else nr_cpu_milli free \<ge> pr_cpu_milli req \<and> nr_mem_milli free \<ge> pr_mem_milli req)"

section \<open>The ledger\<close>

datatype capacity_hold = HoldLive | HoldUnobserved | HoldReleased

fun holds :: "capacity_hold \<Rightarrow> bool" where
  "holds HoldLive = True"
| "holds HoldUnobserved = True"
| "holds HoldReleased = False"

datatype pod_phase = PhPending | PhRunning | PhSucceeded | PhFailed | PhUnknown

definition pod_phase_names :: "(string \<times> pod_phase) list" where
  "pod_phase_names =
     [(''Pending'', PhPending), (''Running'', PhRunning), (''Succeeded'', PhSucceeded),
      (''Failed'', PhFailed), (''Unknown'', PhUnknown)]"

text \<open>
  The derived \<open>Deserialize\<close> of the enumeration: a variant's name, or an object with that name
  as its only member and null as the content.
\<close>

fun pod_phase_deserialize :: "json \<Rightarrow> pod_phase option" where
  "pod_phase_deserialize (JString s) = map_of pod_phase_names s"
| "pod_phase_deserialize (JObject [(s, JNull)]) = map_of pod_phase_names s"
| "pod_phase_deserialize _ = None"

definition holds_capacity :: "json \<Rightarrow> capacity_hold" where
  "holds_capacity pod =
     (case Option.bind (jpath [''status'', ''phase''] pod) pod_phase_deserialize of
        Some PhSucceeded \<Rightarrow> HoldReleased
      | Some PhFailed \<Rightarrow> HoldReleased
      | Some PhPending \<Rightarrow> HoldLive
      | Some PhRunning \<Rightarrow> HoldLive
      | Some PhUnknown \<Rightarrow> HoldUnobserved
      | None \<Rightarrow> HoldUnobserved)"

record balance =
  b_cpu_milli :: int
  b_mem_milli :: int

definition opening_balance :: "node_resources \<Rightarrow> balance" where
  "opening_balance a = \<lparr>b_cpu_milli = nr_cpu_milli a, b_mem_milli = nr_mem_milli a\<rparr>"

definition charge :: "pod_requests \<Rightarrow> balance \<Rightarrow> balance" where
  "charge req b =
     \<lparr>b_cpu_milli = sat_i128 (b_cpu_milli b - max (pr_cpu_milli req) 0),
      b_mem_milli = sat_i128 (b_mem_milli b - max (pr_mem_milli req) 0)\<rparr>"

definition balance_free :: "balance \<Rightarrow> node_resources" where
  "balance_free b = \<lparr>nr_cpu_milli = max (b_cpu_milli b) 0, nr_mem_milli = max (b_mem_milli b) 0\<rparr>"

type_synonym node_ledger = "(string, balance) btree_map"

definition node_name_of :: "json \<Rightarrow> string option" where
  "node_name_of node = ostr (jpath [''metadata'', ''name''] node)"

definition bound_node_of :: "json \<Rightarrow> string option" where
  "bound_node_of pod =
     (case ostr (jpath [''spec'', ''nodeName''] pod) of
        Some s \<Rightarrow> (if s = [] then None else Some s)
      | None \<Rightarrow> None)"

definition ledger_debit :: "string \<Rightarrow> pod_requests \<Rightarrow> node_ledger \<Rightarrow> node_ledger" where
  "ledger_debit node req ledger =
     (case map_of ledger node of
        Some b \<Rightarrow> bm_insert node (charge req b) ledger
      | None \<Rightarrow> ledger)"

text \<open>Collecting the opening balances: a later node of the same name replaces an earlier one.\<close>

definition open_books :: "json list \<Rightarrow> node_ledger" where
  "open_books nodes =
     fold (\<lambda>n ledger. case node_name_of n of
              Some name \<Rightarrow> bm_insert name (opening_balance (node_allocatable n)) ledger
            | None \<Rightarrow> ledger) nodes []"

definition charge_pod :: "float_text \<Rightarrow> json \<Rightarrow> node_ledger \<Rightarrow> node_ledger" where
  "charge_pod ft pod ledger =
     (case bound_node_of pod of
        None \<Rightarrow> ledger
      | Some node \<Rightarrow>
          (if holds (holds_capacity pod) then ledger_debit node (pod_requests_of ft pod) ledger
           else ledger))"

definition ledger_seed :: "float_text \<Rightarrow> json list \<Rightarrow> json list \<Rightarrow> node_ledger" where
  "ledger_seed ft nodes pods = fold (charge_pod ft) pods (open_books nodes)"

definition ledger_free :: "node_ledger \<Rightarrow> string \<Rightarrow> node_resources option" where
  "ledger_free ledger node = map_option balance_free (map_of ledger node)"

definition ledger_fits :: "node_ledger \<Rightarrow> string \<Rightarrow> pod_requests \<Rightarrow> bool" where
  "ledger_fits ledger node req =
     (case ledger_free ledger node of Some free \<Rightarrow> fits free req | None \<Rightarrow> False)"

record headroom =
  hr_node :: string
  hr_cpu_milli :: int
  hr_mem_milli :: int

definition ledger_headroom :: "node_ledger \<Rightarrow> headroom list" where
  "ledger_headroom ledger =
     map (\<lambda>(node, b). \<lparr>hr_node = node, hr_cpu_milli = b_cpu_milli b, hr_mem_milli = b_mem_milli b\<rparr>) ledger"

definition is_overcommitted :: "headroom \<Rightarrow> bool" where
  "is_overcommitted h \<longleftrightarrow> hr_cpu_milli h < 0 \<or> hr_mem_milli h < 0"

definition headroom_to_string :: "headroom \<Rightarrow> string" where
  "headroom_to_string h =
     hr_node h @ '' cpu='' @ show_int (hr_cpu_milli h) @ ''m memory='' @
     show_int (hr_mem_milli h sdiv 1000) @ ''B '' @
     (if is_overcommitted h then ''OVERCOMMITTED'' else ''within'')"

section \<open>Reading requests\<close>

lemma apply_to_milli_ok:
  assumes "suffix_ok sf" and "i128_ok u"
  shows "i128_ok (apply_to_milli sf u)"
  using assms by (cases sf) (simp_all add: i128_ok_thousands)

lemma parse_milli_ok: "parse_milli s = Some m \<Longrightarrow> i128_ok m"
  by (auto simp: parse_milli_def split: sum.splits dest!: quantity_from_str_scaled)
    (metis apply_to_milli_ok milli_value.simps(1) option.inject)

text \<open>A reader's value does not depend on the flag, and the flag is latched.\<close>

lemma reader_quantity_latch:
  "reader_quantity ft m v = (fst (reader_quantity ft False v), m \<or> snd (reader_quantity ft False v))"
  by (auto simp: reader_quantity_def Let_def split: option.splits)

lemma reader_entry_latch:
  "reader_entry ft m v = (fst (reader_entry ft False v), m \<or> snd (reader_entry ft False v))"
  by (cases v) (simp_all add: reader_entry_def reader_quantity_latch [of ft m])

lemma reader_list_latch:
  "reader_list ft m l = (fst (reader_list ft False l), m \<or> snd (reader_list ft False l))"
  by (simp add: reader_list_def reader_entry_latch [of ft m] reader_entry_latch [of ft "_ \<or> _"]
      reader_entry_latch [of ft "snd _"] Let_def split_beta)

lemma reader_init_role_latch:
  "reader_init_role m c = (fst (reader_init_role False c), m \<or> snd (reader_init_role False c))"
  by (simp add: reader_init_role_def split: option.split json.split)

lemma reader_container_latch:
  "reader_container ft m c = (fst (reader_container ft False c), m \<or> snd (reader_container ft False c))"
  unfolding reader_container_def by (rule reader_list_latch)

definition amount_ok :: "int \<Rightarrow> bool" where
  "amount_ok x \<longleftrightarrow> 0 \<le> x \<and> x \<le> i128_max"

definition pair_ok :: "rpair \<Rightarrow> bool" where
  "pair_ok p \<longleftrightarrow> amount_ok (rp_cpu p) \<and> amount_ok (rp_mem p)"

lemma amount_ok_0 [simp]: "amount_ok 0"
  by (simp add: amount_ok_def i128_max_def)

lemma amount_ok_reader_quantity [simp]: "amount_ok (fst (reader_quantity ft m v))"
  by (auto simp: reader_quantity_def Let_def amount_ok_def i128_ok_def i128_max_def
      dest!: parse_milli_ok split: option.splits json.splits)

lemma amount_ok_reader_entry [simp]: "amount_ok (fst (reader_entry ft m v))"
  by (cases v) (simp_all add: reader_entry_def)

lemma pair_ok_reader_list [simp]: "pair_ok (fst (reader_list ft m l))"
  by (simp add: pair_ok_def reader_list_def Let_def split_beta)

lemma pair_ok_reader_container [simp]: "pair_ok (fst (reader_container ft m c))"
  by (simp add: reader_container_def)

text \<open>A saturating sum of amounts is the sum, or the largest amount.\<close>

lemma sat_i128_sum: "0 \<le> a \<Longrightarrow> 0 \<le> b \<Longrightarrow> sat_i128 (a + b) = min i128_max (a + b)"
  by (simp add: sat_i128_def i128_min_def i128_max_def)

lemma min_max_sum: "0 \<le> a \<Longrightarrow> 0 \<le> b \<Longrightarrow> min i128_max (min i128_max a + b) = min i128_max (a + b)"
  by (simp add: min_def i128_max_def)

section \<open>What a pod uses over its life\<close>

text \<open>
  The reference: what one container requests, what the sidecars of a list request together,
  and what a pod uses while one of its init containers starts. \<open>d\<close> is a dimension, cpu or
  memory.
\<close>

definition own_use :: "float_text \<Rightarrow> (rpair \<Rightarrow> int) \<Rightarrow> json \<Rightarrow> int" where
  "own_use ft d c = d (fst (reader_container ft False c))"

definition is_sidecar :: "json \<Rightarrow> bool" where
  "is_sidecar c \<longleftrightarrow> fst (reader_init_role False c) = RoleSidecar"

definition sidecar_use :: "float_text \<Rightarrow> (rpair \<Rightarrow> int) \<Rightarrow> json list \<Rightarrow> int" where
  "sidecar_use ft d cs = sum_list (map (own_use ft d) (filter is_sidecar cs))"

definition use_during :: "float_text \<Rightarrow> (rpair \<Rightarrow> int) \<Rightarrow> json list \<Rightarrow> nat \<Rightarrow> int" where
  "use_during ft d inits k =
     (if is_sidecar (inits ! k) then 0 else own_use ft d (inits ! k)) +
     sidecar_use ft d (take (Suc k) inits)"

definition life_peak :: "float_text \<Rightarrow> (rpair \<Rightarrow> int) \<Rightarrow> json list \<Rightarrow> json list \<Rightarrow> int" where
  "life_peak ft d apps inits =
     Max (insert (sum_list (map (own_use ft d) apps) + sidecar_use ft d inits)
       (use_during ft d inits ` {..<length inits}))"

definition dims :: "(rpair \<Rightarrow> int) set" where
  "dims = {rp_cpu, rp_mem}"

lemma dim_simps:
  assumes "d \<in> dims"
  shows "d pair_zero = 0" and "d (max_each a b) = max (d a) (d b)"
    and "d (pair_plus a b) = sat_i128 (d a + d b)" and "pair_ok a \<Longrightarrow> amount_ok (d a)"
  using assms by (auto simp: dims_def pair_zero_def max_each_def pair_plus_def pair_ok_def)

lemma own_use_nonneg: "d \<in> dims \<Longrightarrow> 0 \<le> own_use ft d c"
  using dim_simps(4) [of d "fst (reader_container ft False c)"] by (simp add: own_use_def amount_ok_def)

lemma sum_own_nonneg: "d \<in> dims \<Longrightarrow> 0 \<le> sum_list (map (own_use ft d) cs)"
  by (induction cs) (auto intro: add_nonneg_nonneg own_use_nonneg)

lemma sidecar_use_nonneg: "d \<in> dims \<Longrightarrow> 0 \<le> sidecar_use ft d cs"
  unfolding sidecar_use_def by (rule sum_own_nonneg)

lemma sum_containers_value:
  assumes "d \<in> dims" and "0 \<le> a" and "d acc = min i128_max a"
  shows "d (fst (sum_containers ft m acc cs)) = min i128_max (a + sum_list (map (own_use ft d) cs))"
  using assms(2,3)
proof (induction cs arbitrary: m acc a)
  case (Cons c cs)
  have own: "d (fst (reader_container ft m c)) = own_use ft d c"
    by (simp add: own_use_def reader_container_latch [of ft m])
  have nn: "0 \<le> own_use ft d c" "0 \<le> d acc"
    using own_use_nonneg [OF assms(1)] Cons.prems by (simp_all add: i128_max_def)
  have "d (pair_plus acc (fst (reader_container ft m c))) = min i128_max (a + own_use ft d c)"
    using nn Cons.prems by (simp add: dim_simps(3) [OF assms(1)] own sat_i128_sum min_max_sum)
  with Cons.IH [of "a + own_use ft d c"] Cons.prems nn show ?case
    by (simp add: Let_def split_beta add.assoc)
qed simp

text \<open>The peak over the init containers, as the walk accumulates it.\<close>

fun peak_walk :: "float_text \<Rightarrow> (rpair \<Rightarrow> int) \<Rightarrow> int \<Rightarrow> int \<Rightarrow> json list \<Rightarrow> int" where
  "peak_walk ft d s p [] = p"
| "peak_walk ft d s p (c # cs) =
     peak_walk ft d (if is_sidecar c then s + own_use ft d c else s) (max p (s + own_use ft d c)) cs"

lemma use_during_Cons:
  "use_during ft d (c # cs) 0 = own_use ft d c"
  "use_during ft d (c # cs) (Suc k) = (if is_sidecar c then own_use ft d c else 0) + use_during ft d cs k"
  by (simp_all add: use_during_def sidecar_use_def)

lemma peak_walk_Max:
  "peak_walk ft d s p cs = Max (insert p ((\<lambda>k. s + use_during ft d cs k) ` {..<length cs}))"
proof (induction cs arbitrary: s p)
  case (Cons c cs)
  define s' where "s' = (if is_sidecar c then s + own_use ft d c else s)"
  let ?U = "(\<lambda>k. s' + use_during ft d cs k) ` {..<length cs}"
  have "(\<lambda>k. s + use_during ft d (c # cs) k) ` {..<length (c # cs)} = insert (s + own_use ft d c) ?U"
    by (auto simp: s'_def lessThan_Suc_eq_insert_0 image_image use_during_Cons add.assoc)
  moreover have "max p (s + own_use ft d c) \<le> x \<longleftrightarrow> p \<le> x \<and> s + own_use ft d c \<le> x" for x by simp
  then have "Max (insert (max p (s + own_use ft d c)) ?U) = Max (insert p (insert (s + own_use ft d c) ?U))"
    by (cases "?U = {}") (simp_all add: max.assoc)
  ultimately show ?case using Cons.IH [of s' "max p (s + own_use ft d c)"] by (simp add: s'_def)
qed simp

lemma walk_inits_value:
  assumes "d \<in> dims" and "0 \<le> a" "0 \<le> s" "0 \<le> p"
    and "d tot = min i128_max a" "d sidecars = min i128_max s" "d peak = min i128_max p"
    and "walk_inits ft m tot sidecars peak cs = (tot', peak', m')"
  shows "d tot' = min i128_max (a + sidecar_use ft d cs) \<and> d peak' = min i128_max (peak_walk ft d s p cs)"
  using assms(2-8)
proof (induction cs arbitrary: m a s p tot sidecars peak)
  case (Cons c cs)
  obtain own m1 where own: "reader_container ft m c = (own, m1)" by fastforce
  obtain role m2 where role: "reader_init_role m1 c = (role, m2)" by fastforce
  have d_own: "d own = own_use ft d c" using own reader_container_latch [of ft m c] by (simp add: own_use_def)
  have sc: "role = RoleSidecar \<longleftrightarrow> is_sidecar c" using role reader_init_role_latch [of m1 c] by (simp add: is_sidecar_def)
  have nn: "0 \<le> own_use ft d c" by (rule own_use_nonneg [OF assms(1)])
  have sums: "d (pair_plus x own) = min i128_max (y + own_use ft d c)"
      "d (pair_plus own x) = min i128_max (y + own_use ft d c)" if "d x = min i128_max y" "0 \<le> y" for x y
    using that nn by (simp_all add: dim_simps(3) [OF assms(1)] d_own sat_i128_sum min_max_sum i128_max_def
        add.commute [of "own_use ft d c"])
  have mx: "d (max_each peak x) = min i128_max (max p y)" if "d x = min i128_max y" for x y
    using that Cons.prems(6) by (simp add: dim_simps(2) [OF assms(1)] min_def max_def)
  show ?case
  proof (cases "is_sidecar c")
    case True
    with sc role own Cons.prems(7) have
      "walk_inits ft m2 (pair_plus tot own) (pair_plus sidecars own) (max_each peak (pair_plus sidecars own)) cs
        = (tot', peak', m')" by (simp add: Let_def)
    from Cons.IH [OF _ _ _ sums(1) [OF Cons.prems(4,1)] sums(1) [OF Cons.prems(5,2)]
        mx [OF sums(1) [OF Cons.prems(5,2)]] this] True nn Cons.prems(1-3)
    show ?thesis by (simp add: sidecar_use_def add.assoc)
  next
    case False
    with sc have "role = RolePlain" by (cases role) auto
    with role own Cons.prems(7) have
      "walk_inits ft m2 tot sidecars (max_each peak (pair_plus own sidecars)) cs = (tot', peak', m')"
      by (simp add: Let_def)
    from Cons.IH [OF _ _ _ Cons.prems(4,5) mx [OF sums(2) [OF Cons.prems(5,2)]] this] False nn Cons.prems(1-3)
    show ?thesis by (simp add: sidecar_use_def)
  qed
qed (simp add: sidecar_use_def)

text \<open>What a pod's own resource list or its overhead asks for.\<close>

definition entry_use :: "float_text \<Rightarrow> json option \<Rightarrow> string \<Rightarrow> int" where
  "entry_use ft l key = fst (reader_entry ft False (oget l key))"

definition effective_use :: "float_text \<Rightarrow> (rpair \<Rightarrow> int) \<Rightarrow> string \<Rightarrow> json \<Rightarrow> int" where
  "effective_use ft d key pod =
     (let spec = jget pod ''spec'';
          pod_level = Option.bind spec (jpath [''resources'', ''requests''])
      in (if oget pod_level key \<noteq> None then entry_use ft pod_level key
          else life_peak ft d (listed spec ''containers'') (listed spec ''initContainers'')) +
         entry_use ft (oget spec ''overhead'') key)"

lemma life_peak_walk:
  assumes "d \<in> dims"
  shows "life_peak ft d apps inits =
    max (sum_list (map (own_use ft d) apps) + sidecar_use ft d inits) (peak_walk ft d 0 0 inits)"
proof -
  let ?T = "sum_list (map (own_use ft d) apps) + sidecar_use ft d inits"
  let ?U = "use_during ft d inits ` {..<length inits}"
  have T: "0 \<le> ?T" using sum_own_nonneg [OF assms] sidecar_use_nonneg [OF assms] by (simp add: add_nonneg_nonneg)
  have "max ?T (Max (insert 0 ?U)) = Max (insert ?T ?U)"
    using T by (cases "?U = {}") (simp_all add: max.left_commute max_def)
  then show ?thesis by (simp add: life_peak_def peak_walk_Max)
qed

lemma entry_use_ok: "amount_ok (entry_use ft l key)"
  by (simp add: entry_use_def)

lemma life_peak_nonneg: "d \<in> dims \<Longrightarrow> 0 \<le> life_peak ft d apps inits"
  by (simp add: life_peak_walk le_max_iff_disj add_nonneg_nonneg sum_own_nonneg sidecar_use_nonneg)

text \<open>The aggregate over the containers, and the last two steps of the computation.\<close>

lemma aggregate_value:
  assumes "d \<in> dims" and "sum_containers ft False pair_zero apps = (tot0, m0)"
    and "walk_inits ft m0 tot0 pair_zero pair_zero inits = (tot, peak, m1)"
  shows "d (max_each tot peak) = min i128_max (life_peak ft d apps inits)"
proof -
  have z: "d pair_zero = min i128_max 0" by (simp add: dim_simps(1) [OF assms(1)] i128_max_def)
  have "d tot0 = min i128_max (sum_list (map (own_use ft d) apps))"
    using sum_containers_value [OF assms(1) _ z, of ft False apps] assms(2) by simp
  from walk_inits_value [OF assms(1) sum_own_nonneg [OF assms(1)] _ _ this z z assms(3)]
  show ?thesis
    by (simp add: dim_simps(2) [OF assms(1)] life_peak_walk [OF assms(1)] min_def max_def)
qed

lemma with_overhead:
  assumes "amount_ok x" and "0 \<le> y" and "x = min i128_max y" and "amount_ok o'"
  shows "sat_i128 (x + o') = min i128_max (y + o')"
  using assms by (simp add: amount_ok_def sat_i128_sum min_max_sum)

lemma pod_requests_value:
  "pr_cpu_milli (pod_requests_of ft pod) = min i128_max (effective_use ft rp_cpu ''cpu'' pod)"
  "pr_mem_milli (pod_requests_of ft pod) = min i128_max (effective_use ft rp_mem ''memory'' pod)"
proof -
  let ?spec = "jget pod ''spec''"
  let ?level = "Option.bind ?spec (jpath [''resources'', ''requests''])"
  obtain tot0 m0 where s: "sum_containers ft False pair_zero (listed ?spec ''containers'') = (tot0, m0)"
    by fastforce
  obtain tot peak m1 where w:
    "walk_inits ft m0 tot0 pair_zero pair_zero (listed ?spec ''initContainers'') = (tot, peak, m1)"
    by (cases "walk_inits ft m0 tot0 pair_zero pair_zero (listed ?spec ''initContainers'')") auto
  note agg = aggregate_value [OF _ s w]
  have step: "sat_i128 ((case oget ?level key of Some q \<Rightarrow> fst (reader_quantity ft m q) | None \<Rightarrow> d (max_each tot peak))
      + entry_use ft (oget ?spec ''overhead'') key) = min i128_max (effective_use ft d key pod)"
    if d: "d \<in> dims" for d key m
  proof (cases "oget ?level key")
    case None
    then show ?thesis
      using with_overhead [OF _ life_peak_nonneg [OF d] agg [OF d] entry_use_ok]
        life_peak_nonneg [OF d, of ft "listed ?spec ''containers''" "listed ?spec ''initContainers''"]
      by (simp add: effective_use_def Let_def agg [OF d] amount_ok_def i128_max_def)
  next
    case (Some q)
    have "fst (reader_quantity ft m q) = entry_use ft ?level key"
      using Some by (simp add: entry_use_def reader_entry_def reader_quantity_latch [of ft m])
    then show ?thesis
      using Some entry_use_ok [of ft ?level key] entry_use_ok [of ft "oget ?spec ''overhead''" key]
      by (simp add: effective_use_def Let_def amount_ok_def sat_i128_sum)
  qed
  have cpu: "rp_cpu \<in> dims" and mem: "rp_mem \<in> dims" by (simp_all add: dims_def)
  show "pr_cpu_milli (pod_requests_of ft pod) = min i128_max (effective_use ft rp_cpu ''cpu'' pod)"
    using step [OF cpu, where key = "''cpu''" and m = m1]
    by (simp add: pod_requests_of_def s w Let_def split_beta pair_plus_def reader_list_def entry_use_def
        reader_entry_latch [of ft "snd _"] split: option.split option.split_asm)
  show "pr_mem_milli (pod_requests_of ft pod) = min i128_max (effective_use ft rp_mem ''memory'' pod)"
    using step [OF mem, where key = "''memory''" and m = False]
    by (simp add: pod_requests_of_def s w Let_def split_beta pair_plus_def reader_list_def entry_use_def
        reader_entry_latch [of ft "snd _"] reader_entry_latch [of ft m1] reader_quantity_latch [of ft "snd _"]
        reader_quantity_latch [of ft m1] split: option.split option.split_asm)
qed

lemma effective_use_nonneg: "d \<in> dims \<Longrightarrow> 0 \<le> effective_use ft d key pod"
  using entry_use_ok [of ft _ key] life_peak_nonneg [of d ft]
  by (simp add: effective_use_def Let_def amount_ok_def add_nonneg_nonneg)

lemma pod_requests_nonneg:
  "0 \<le> pr_cpu_milli (pod_requests_of ft pod)" "0 \<le> pr_mem_milli (pod_requests_of ft pod)"
  using effective_use_nonneg [of rp_cpu ft "''cpu''" pod] effective_use_nonneg [of rp_mem ft "''memory''" pod]
  by (simp_all add: pod_requests_value i128_max_def dims_def)

section \<open>The books\<close>

definition balance_ok :: "balance \<Rightarrow> bool" where
  "balance_ok b \<longleftrightarrow> i128_ok (b_cpu_milli b) \<and> i128_ok (b_mem_milli b)"

definition occupies :: "string \<Rightarrow> json \<Rightarrow> bool" where
  "occupies n pod \<longleftrightarrow> bound_node_of pod = Some n \<and> holds (holds_capacity pod)"

text \<open>The balance that is left after a list of requests.\<close>

definition less_requests :: "balance \<Rightarrow> pod_requests list \<Rightarrow> balance" where
  "less_requests b rs =
     \<lparr>b_cpu_milli = max i128_min (b_cpu_milli b - sum_list (map pr_cpu_milli rs)),
      b_mem_milli = max i128_min (b_mem_milli b - sum_list (map pr_mem_milli rs))\<rparr>"

definition request_ok :: "pod_requests \<Rightarrow> bool" where
  "request_ok r \<longleftrightarrow> 0 \<le> pr_cpu_milli r \<and> 0 \<le> pr_mem_milli r"

lemma request_ok_pod [simp]: "request_ok (pod_requests_of ft pod)"
  by (simp add: request_ok_def pod_requests_nonneg)

lemma charge_less: "request_ok r \<Longrightarrow> balance_ok b \<Longrightarrow> charge r b = less_requests b [r]"
  by (simp add: charge_def less_requests_def request_ok_def balance_ok_def i128_ok_def sat_i128_def)

lemma less_requests_Nil [simp]: "balance_ok b \<Longrightarrow> less_requests b [] = b"
  by (simp add: less_requests_def balance_ok_def i128_ok_def)

lemma requests_sum_nonneg:
  "list_all request_ok rs \<Longrightarrow> 0 \<le> sum_list (map pr_cpu_milli rs) \<and> 0 \<le> sum_list (map pr_mem_milli rs)"
  by (induction rs) (auto simp: request_ok_def)

lemma balance_ok_less [simp]:
  "balance_ok b \<Longrightarrow> list_all request_ok rs \<Longrightarrow> balance_ok (less_requests b rs)"
  using requests_sum_nonneg [of rs]
  by (simp add: balance_ok_def less_requests_def i128_ok_def i128_min_def i128_max_def)

lemma less_requests_append:
  "list_all request_ok rs \<Longrightarrow> less_requests (less_requests b qs) rs = less_requests b (qs @ rs)"
  using requests_sum_nonneg [of rs] by (auto simp: less_requests_def max_def)

lemma balance_ok_opening [simp]: "balance_ok (opening_balance (node_allocatable n))"
  by (auto simp: balance_ok_def opening_balance_def node_allocatable_def Let_def quantity_milli_def
      bind_eq_Some_conv dest!: parse_milli_ok split: option.splits)

definition ledger_ok :: "node_ledger \<Rightarrow> bool" where
  "ledger_ok l \<longleftrightarrow> bm_ok l \<and> (\<forall>n b. map_of l n = Some b \<longrightarrow> balance_ok b)"

text \<open>The node that opens the balance of a name: the last of that name.\<close>

definition node_named :: "json list \<Rightarrow> string \<Rightarrow> json option" where
  "node_named nodes n = find (\<lambda>nd. node_name_of nd = Some n) (rev nodes)"

lemma find_append: "find P (xs @ ys) = (case find P xs of Some x \<Rightarrow> Some x | None \<Rightarrow> find P ys)"
  by (induction xs) auto

lemma open_books_snoc:
  "open_books (nodes @ [nd]) =
    (case node_name_of nd of
       Some name \<Rightarrow> bm_insert name (opening_balance (node_allocatable nd)) (open_books nodes)
     | None \<Rightarrow> open_books nodes)"
  by (simp add: open_books_def split: option.split)

lemma open_books_get:
  "map_of (open_books nodes) n =
    map_option (\<lambda>nd. opening_balance (node_allocatable nd)) (node_named nodes n)"
proof (induction nodes rule: rev_induct)
  case (snoc nd nodes)
  then show ?case by (auto simp: open_books_snoc node_named_def split: option.split)
qed (simp add: open_books_def node_named_def)

lemma open_books_ok: "ledger_ok (open_books nodes)"
proof -
  have "bm_ok (open_books nodes)"
    by (induction nodes rule: rev_induct)
      (auto simp: open_books_snoc open_books_def split: option.split)
  then show ?thesis by (auto simp: ledger_ok_def open_books_get)
qed

lemma ledger_debit_get:
  "map_of (ledger_debit node req l) n =
    (if n = node then map_option (charge req) (map_of l n) else map_of l n)"
  by (auto simp: ledger_debit_def split: option.split)

lemma ledger_debit_ok:
  assumes "ledger_ok l" and "request_ok req"
  shows "ledger_ok (ledger_debit node req l)"
proof -
  have "bm_ok (ledger_debit node req l)"
    using assms(1) by (auto simp: ledger_debit_def ledger_ok_def split: option.split)
  with assms show ?thesis
    by (auto simp: ledger_ok_def ledger_debit_get charge_less split: if_splits)
qed

lemma charge_pod_ok: "ledger_ok l \<Longrightarrow> ledger_ok (charge_pod ft pod l)"
  by (auto simp: charge_pod_def ledger_debit_ok split: option.split)

lemma charge_pod_get:
  assumes "ledger_ok l"
  shows "map_of (charge_pod ft pod l) n =
    map_option (\<lambda>b. less_requests b (if occupies n pod then [pod_requests_of ft pod] else [])) (map_of l n)"
  using assms
  by (auto simp: charge_pod_def ledger_debit_get occupies_def ledger_ok_def charge_less map_option_case
      split: option.split)

text \<open>The requests that are charged to a node.\<close>

definition charged :: "float_text \<Rightarrow> string \<Rightarrow> json list \<Rightarrow> pod_requests list" where
  "charged ft n pods = map (pod_requests_of ft) (filter (occupies n) pods)"

lemma charged_ok [simp]: "list_all request_ok (charged ft n pods)"
  by (simp add: charged_def list_all_iff)

lemma charge_pods_get:
  assumes "ledger_ok l"
  shows "map_of (fold (charge_pod ft) pods l) n =
    map_option (\<lambda>b. less_requests b (charged ft n pods)) (map_of l n)"
  using assms
proof (induction pods arbitrary: l)
  case Nil
  then show ?case by (cases "map_of l n") (simp_all add: charged_def ledger_ok_def)
next
  case (Cons pod pods)
  note IH = Cons.IH [OF charge_pod_ok [OF Cons.prems], of ft pod]
  show ?case
  proof (cases "map_of l n")
    case (Some b)
    then have "less_requests (less_requests b (if occupies n pod then [pod_requests_of ft pod] else []))
        (charged ft n pods) = less_requests b (charged ft n (pod # pods))"
      using Cons.prems by (subst less_requests_append) (auto simp: charged_def list_all_iff)
    with Some show ?thesis using IH by (simp add: charge_pod_get [OF Cons.prems])
  qed (use IH in \<open>simp add: charge_pod_get [OF Cons.prems]\<close>)
qed

lemma charge_pods_ok: "ledger_ok l \<Longrightarrow> ledger_ok (fold (charge_pod ft) pods l)"
  by (induction pods arbitrary: l) (simp_all add: charge_pod_ok)

lemma ledger_seed_ok: "ledger_ok (ledger_seed ft nodes pods)"
  unfolding ledger_seed_def by (intro charge_pods_ok open_books_ok)

lemma ledger_seed_get:
  "map_of (ledger_seed ft nodes pods) n =
    map_option (\<lambda>nd. less_requests (opening_balance (node_allocatable nd)) (charged ft n pods))
      (node_named nodes n)"
  by (simp add: ledger_seed_def charge_pods_get [OF open_books_ok] open_books_get option.map_comp comp_def)

section \<open>Properties of the capacity books\<close>

text \<open>
  C27. What a pod is charged: in each dimension its requests are its own resource list when it
  has one, and otherwise the most its containers use together at any moment of its life
  (while an init container runs, with the sidecars started so far; and afterwards, all app
  containers with all sidecars), plus its overhead; saturated at the largest 128-bit
  integer. They are never negative.
\<close>

theorem pod_requests_exact:
  "pr_cpu_milli (pod_requests_of ft pod) = min i128_max (effective_use ft rp_cpu ''cpu'' pod) \<and>
   pr_mem_milli (pod_requests_of ft pod) = min i128_max (effective_use ft rp_mem ''memory'' pod) \<and>
   0 \<le> pr_cpu_milli (pod_requests_of ft pod) \<and> 0 \<le> pr_mem_milli (pod_requests_of ft pod)"
  by (simp add: pod_requests_value [symmetric] pod_requests_nonneg)

text \<open>
  C28. The ledger is exact: a node has a balance exactly when a listed node carries its name,
  and the balance is the allocatable capacity of that node (the last of the name) less the
  requests of every listed pod that is bound to it and was not observed to finish, in
  whatever order the pods were listed; it is clamped only at the smallest 128-bit integer.
\<close>

theorem ledger_exact:
  "map_of (ledger_seed ft nodes pods) n =
    map_option (\<lambda>nd.
      \<lparr>b_cpu_milli = max i128_min (nr_cpu_milli (node_allocatable nd) -
         (\<Sum>pod \<leftarrow> filter (occupies n) pods. pr_cpu_milli (pod_requests_of ft pod))),
       b_mem_milli = max i128_min (nr_mem_milli (node_allocatable nd) -
         (\<Sum>pod \<leftarrow> filter (occupies n) pods. pr_mem_milli (pod_requests_of ft pod)))\<rparr>)
      (node_named nodes n)"
  by (simp add: ledger_seed_get less_requests_def opening_balance_def charged_def comp_def)

end
