(* ===== verification/Feasibility.thy ===== *)
theory Feasibility
  imports Capacity Resource
begin

text \<open>
  Which nodes a pod may be placed on: the readiness a node's Lease implies
  (\<open>engenho-controllers/src/node_lease.rs\<close>, \<open>engenho-scheduler/src/observed.rs\<close>), the
  predicates (\<open>predicates.rs\<close>), the capability labels (\<open>capability.rs\<close>), the filter stage
  that folds them (\<open>filter.rs\<close>) and the round-robin choice (\<open>strategy.rs\<close>).

  The age of a timestamp is the argument \<open>age\<close>, in nanoseconds: it parses RFC 3339 text
  with \<open>chrono\<close> and reads the clock.
\<close>

fun as_bool :: "json \<Rightarrow> bool option" where
  "as_bool (JBool b) = Some b"
| "as_bool _ = None"

section \<open>Readiness from the Lease\<close>

definition lease_namespace :: string where
  "lease_namespace = ''kube-node-lease''"

definition grace_period_secs :: int where
  "grace_period_secs = 40"

definition lease_value :: "string \<Rightarrow> string \<Rightarrow> nat \<Rightarrow> json" where
  "lease_value node renew_time transitions =
     JObject
       [(''apiVersion'', JString ''coordination.k8s.io/v1''),
        (''kind'', JString ''Lease''),
        (''metadata'', JObject [(''name'', JString node), (''namespace'', JString lease_namespace)]),
        (''spec'', JObject
           [(''holderIdentity'', JString node),
            (''leaseDurationSeconds'', JNumber (PosInt (nat grace_period_secs))),
            (''leaseTransitions'', JNumber (PosInt transitions)),
            (''renewTime'', JString renew_time)])]"

definition lease_key :: "string \<Rightarrow> resource_key" where
  "lease_key node = namespaced ''coordination.k8s.io'' ''v1'' ''Lease'' lease_namespace node"

datatype node_readiness = NrReady | NrStale | NrUnknown

fun condition_status :: "node_readiness \<Rightarrow> string" where
  "condition_status NrReady = ''True''"
| "condition_status NrStale = ''Unknown''"
| "condition_status NrUnknown = ''Unknown''"

fun readiness_reason :: "node_readiness \<Rightarrow> string" where
  "readiness_reason NrReady = ''KubeletReady''"
| "readiness_reason NrStale = ''NodeStatusUnknown''"
| "readiness_reason NrUnknown = ''NodeStatusNeverUpdated''"

fun readiness_message :: "node_readiness \<Rightarrow> string" where
  "readiness_message NrReady = ''kubelet is posting ready status''"
| "readiness_message NrStale = ''Kubelet stopped posting node status''"
| "readiness_message NrUnknown = ''Kubelet never posted node status''"

definition readiness :: "int option \<Rightarrow> node_readiness" where
  "readiness since_renew =
     (case since_renew of
        None \<Rightarrow> NrUnknown
      | Some age \<Rightarrow> (if age \<le> grace_period_secs * 1000000000 then NrReady else NrStale))"

definition ready_condition :: "node_readiness \<Rightarrow> string \<Rightarrow> json option \<Rightarrow> json" where
  "ready_condition state now previous =
     (let status = condition_status state;
          carried = (case previous of
                       Some p \<Rightarrow> (if ostr (jget p ''status'') = Some status
                                then ostr (jget p ''lastTransitionTime'') else None)
                     | None \<Rightarrow> None);
          last_transition = (case carried of Some t \<Rightarrow> t | None \<Rightarrow> now)
      in JObject
           [(''lastHeartbeatTime'', JString now),
            (''lastTransitionTime'', JString last_transition),
            (''message'', JString (readiness_message state)),
            (''reason'', JString (readiness_reason state)),
            (''status'', JString status),
            (''type'', JString ''Ready'')])"

definition is_ready_type :: "json \<Rightarrow> bool" where
  "is_ready_type c \<longleftrightarrow> ostr (jget c ''type'') = Some ''Ready''"

definition conditions_of :: "json \<Rightarrow> json list option" where
  "conditions_of node = Option.bind (oget (jget node ''status'') ''conditions'') as_array"

definition find_ready_condition :: "json \<Rightarrow> json option" where
  "find_ready_condition node = Option.bind (conditions_of node) (find is_ready_type)"

definition project_ready_condition ::
  "(string \<Rightarrow> int option) \<Rightarrow> json \<Rightarrow> json option \<Rightarrow> string \<Rightarrow> json" where
  "project_ready_condition age node lease now =
     (let since_renew = Option.bind (ostr (oget (oget lease ''spec'') ''renewTime'')) age;
          state = readiness since_renew;
          condition = ready_condition state now (find_ready_condition node);
          kept = filter (\<lambda>c. \<not> is_ready_type c)
                   (case conditions_of node of Some cs \<Rightarrow> cs | None \<Rightarrow> []);
          conditions = JArray (kept @ [condition])
      in case node of
           JObject obj \<Rightarrow>
             (case (case map_of obj ''status'' of Some s \<Rightarrow> s | None \<Rightarrow> JObject []) of
                JObject status \<Rightarrow>
                  JObject (bm_insert ''status''
                    (JObject (bm_insert ''conditions'' conditions status)) obj)
              | other \<Rightarrow> JObject (bm_insert ''status'' other obj))
         | _ \<Rightarrow> node)"

text \<open>An \<open>ObservedNode\<close> is a node document that went through the projection.\<close>

definition observed_project ::
  "(string \<Rightarrow> int option) \<Rightarrow> json \<Rightarrow> json option \<Rightarrow> string \<Rightarrow> json" where
  "observed_project age node lease now = project_ready_condition age node lease now"

definition is_ready :: "json \<Rightarrow> bool" where
  "is_ready node \<longleftrightarrow> ostr (oget (find_ready_condition node) ''status'') = Some ''True''"

section \<open>Predicates\<close>

datatype taint_effect = NoSchedule | PreferNoSchedule | NoExecute

definition taint_effect_parse :: "string \<Rightarrow> taint_effect option" where
  "taint_effect_parse s =
     (if s = ''NoSchedule'' then Some NoSchedule
      else if s = ''PreferNoSchedule'' then Some PreferNoSchedule
      else if s = ''NoExecute'' then Some NoExecute else None)"

fun blocks_scheduling :: "taint_effect \<Rightarrow> bool" where
  "blocks_scheduling NoSchedule = True"
| "blocks_scheduling NoExecute = True"
| "blocks_scheduling PreferNoSchedule = False"

definition is_cordoned :: "json \<Rightarrow> bool" where
  "is_cordoned node =
     (case Option.bind (oget (jget node ''spec'') ''unschedulable'') as_bool of
        Some b \<Rightarrow> b
      | None \<Rightarrow> False)"

definition matches_node_selector :: "json \<Rightarrow> json \<Rightarrow> bool" where
  "matches_node_selector pod node =
     (case Option.bind (oget (jget pod ''spec'') ''nodeSelector'') as_object of
        None \<Rightarrow> True
      | Some sel \<Rightarrow>
          (let labels = oget (jget node ''metadata'') ''labels''
           in list_all (\<lambda>(k, want). oget labels k = Some want) sel))"

definition node_name_matches :: "json \<Rightarrow> json \<Rightarrow> bool" where
  "node_name_matches pod node =
     (case ostr (oget (jget pod ''spec'') ''nodeName'') of
        None \<Rightarrow> True
      | Some want \<Rightarrow>
          (if want = [] then True
           else ostr (oget (jget node ''metadata'') ''name'') = Some want))"

record taint =
  taint_key :: string
  taint_value :: "string option"
  taint_effect_of :: taint_effect

definition read_taint :: "json \<Rightarrow> taint option" where
  "read_taint t =
     (case ostr (jget t ''key'') of
        None \<Rightarrow> None
      | Some key \<Rightarrow>
          (let effect_str = (case ostr (jget t ''effect'') of Some e \<Rightarrow> e | None \<Rightarrow> []);
               effect = (case taint_effect_parse effect_str of Some e \<Rightarrow> e | None \<Rightarrow> NoSchedule)
           in if \<not> blocks_scheduling effect then None
              else Some \<lparr>taint_key = key, taint_value = ostr (jget t ''value''),
                         taint_effect_of = effect\<rparr>))"

definition blocking_taints :: "json \<Rightarrow> taint list" where
  "blocking_taints node =
     (case Option.bind (oget (jget node ''spec'') ''taints'') as_array of
        Some ts \<Rightarrow> List.map_filter read_taint ts
      | None \<Rightarrow> [])"

definition toleration_covers :: "json \<Rightarrow> taint \<Rightarrow> bool" where
  "toleration_covers t tnt =
     (let op = (case ostr (jget t ''operator'') of Some o' \<Rightarrow> o' | None \<Rightarrow> ''Equal'');
          key = (case ostr (jget t ''key'') of Some k \<Rightarrow> k | None \<Rightarrow> []);
          effect_ok = (case ostr (jget t ''effect'') of
                         None \<Rightarrow> True
                       | Some e \<Rightarrow> e = [] \<or> taint_effect_parse e = Some (taint_effect_of tnt))
      in effect_ok \<and>
         (if op = ''Exists'' then key = [] \<or> key = taint_key tnt
          else key = taint_key tnt \<and> ostr (jget t ''value'') = taint_value tnt))"

definition tolerates :: "json \<Rightarrow> taint \<Rightarrow> bool" where
  "tolerates pod tnt =
     (case Option.bind (oget (jget pod ''spec'') ''tolerations'') as_array of
        None \<Rightarrow> False
      | Some tols \<Rightarrow> list_ex (\<lambda>t. toleration_covers t tnt) tols)"

definition untolerated_taint :: "json \<Rightarrow> json \<Rightarrow> taint option" where
  "untolerated_taint pod node = find (\<lambda>t. \<not> tolerates pod t) (blocking_taints node)"

section \<open>Capabilities\<close>

definition native_label :: string where
  "native_label = ''capability.engenho.pleme.io/runtime.native''"

definition oci_label :: string where
  "oci_label = ''capability.engenho.pleme.io/runtime.oci''"

definition gpu_label :: string where
  "gpu_label = ''capability.engenho.pleme.io/gpu''"

definition house_label :: string where
  "house_label = ''capability.engenho.pleme.io/house''"

definition gpu_requirement :: string where
  "gpu_requirement = ''requirements.engenho.pleme.io/gpu''"

definition house_requirement :: string where
  "house_requirement = ''requirements.engenho.pleme.io/house''"

definition nix_image_prefix :: string where
  "nix_image_prefix = ''nix:''"

datatype runtime = RtNative | RtOci

definition all_runtimes :: "runtime list" where
  "all_runtimes = [RtNative, RtOci]"

fun runtime_label :: "runtime \<Rightarrow> string" where
  "runtime_label RtNative = native_label"
| "runtime_label RtOci = oci_label"

fun runtime_name :: "runtime \<Rightarrow> string" where
  "runtime_name RtNative = ''runtime.native''"
| "runtime_name RtOci = ''runtime.oci''"

text \<open>\<open>str::parse::<u32>\<close>.\<close>

definition parse_u32 :: "string \<Rightarrow> nat option" where
  "parse_u32 s =
     (let ds = (case s of c # cs \<Rightarrow> if c = CHR ''+'' then cs else s | [] \<Rightarrow> [])
      in if ds = [] then None
         else case parse_digits 0 ds of
                None \<Rightarrow> None
              | Some n \<Rightarrow> if int n < 2 ^ 32 then Some n else None)"

record node_capabilities =
  nc_runtimes :: "runtime list option"
  nc_gpus :: nat
  nc_house :: bool

definition labelled :: "json \<Rightarrow> string list \<Rightarrow> string \<Rightarrow> string option" where
  "labelled v path key =
     Option.bind (Option.bind (jpath path v) as_object) (\<lambda>l. ostr (map_of l key))"

definition observe_capabilities :: "json \<Rightarrow> node_capabilities" where
  "observe_capabilities node =
     (let label = labelled node [''metadata'', ''labels''];
          declared = list_ex (\<lambda>r. label (runtime_label r) \<noteq> None) all_runtimes
      in \<lparr>nc_runtimes =
            (if declared
             then Some (filter (\<lambda>r. label (runtime_label r) = Some ''true'') all_runtimes)
             else None),
          nc_gpus = (case Option.bind (label gpu_label) parse_u32 of Some n \<Rightarrow> n | None \<Rightarrow> 0),
          nc_house = (label house_label = Some ''true'')\<rparr>)"

definition runtime_labels :: "node_capabilities \<Rightarrow> (string, string) btree_map" where
  "runtime_labels nc =
     (case nc_runtimes nc of
        None \<Rightarrow> []
      | Some rs \<Rightarrow>
          fold (\<lambda>r. bm_insert (runtime_label r) (if r \<in> set rs then ''true'' else ''false''))
            all_runtimes [])"

datatype requirement = ReqRuntime runtime | ReqGpus nat | ReqHouse | ReqUnreadable string

text \<open>The derived \<open>Ord\<close>: the variants in declaration order, then their contents.\<close>

fun requirement_key :: "requirement \<Rightarrow> nat \<times> nat \<times> string" where
  "requirement_key (ReqRuntime RtNative) = (0, 0, [])"
| "requirement_key (ReqRuntime RtOci) = (0, 1, [])"
| "requirement_key (ReqGpus n) = (1, n, [])"
| "requirement_key ReqHouse = (2, 0, [])"
| "requirement_key (ReqUnreadable s) = (3, 0, s)"

lemma requirement_key_inj [simp]: "requirement_key a = requirement_key b \<longleftrightarrow> a = b"
  by (cases a rule: requirement_key.cases; cases b rule: requirement_key.cases) auto

instantiation requirement :: linorder
begin

definition less_eq_requirement :: "requirement \<Rightarrow> requirement \<Rightarrow> bool" where
  "less_eq_requirement a b \<longleftrightarrow> requirement_key a \<le> requirement_key b"

definition less_requirement :: "requirement \<Rightarrow> requirement \<Rightarrow> bool" where
  "less_requirement a b \<longleftrightarrow> requirement_key a < requirement_key b"

instance
  by standard
    (auto simp: less_eq_requirement_def less_requirement_def dest: antisym [of "requirement_key _"])

end

fun requirement_to_string :: "requirement \<Rightarrow> string" where
  "requirement_to_string (ReqRuntime r) = runtime_name r"
| "requirement_to_string (ReqGpus _) = ''gpu''"
| "requirement_to_string ReqHouse = ''house''"
| "requirement_to_string (ReqUnreadable key) = key"

text \<open>A \<open>BTreeSet\<close> is an ordered map to unit.\<close>

type_synonym requirements = "(requirement, unit) btree_map"

definition image_runtime :: "string \<Rightarrow> runtime" where
  "image_runtime img = (if prefix nix_image_prefix img then RtNative else RtOci)"

definition container_images :: "json \<Rightarrow> string list \<Rightarrow> string list" where
  "container_images pod path =
     (case Option.bind (jpath path pod) as_array of
        None \<Rightarrow> []
      | Some cs \<Rightarrow> filter (\<lambda>i. i \<noteq> []) (List.map_filter (\<lambda>c. ostr (jget c ''image'')) cs))"

definition infer_requirements :: "json \<Rightarrow> requirements" where
  "infer_requirements pod =
     (let images = container_images pod [''spec'', ''initContainers''] @
                   container_images pod [''spec'', ''containers''];
          needs0 = fold (\<lambda>i. bm_insert (ReqRuntime (image_runtime i)) ()) images [];
          annotation = labelled pod [''metadata'', ''annotations''];
          needs1 = (case annotation gpu_requirement of
                      None \<Rightarrow> needs0
                    | Some raw \<Rightarrow>
                        (case parse_u32 raw of
                           Some n \<Rightarrow> (if n = 0 then needs0 else bm_insert (ReqGpus n) () needs0)
                         | None \<Rightarrow> bm_insert (ReqUnreadable gpu_requirement) () needs0))
      in case annotation house_requirement of
           None \<Rightarrow> needs1
         | Some h \<Rightarrow>
             (if h = ''false'' then needs1
              else if h = ''true'' then bm_insert ReqHouse () needs1
              else bm_insert (ReqUnreadable house_requirement) () needs1))"

fun need_met :: "node_capabilities \<Rightarrow> requirement \<Rightarrow> bool" where
  "need_met nc (ReqRuntime r) = (case nc_runtimes nc of None \<Rightarrow> True | Some rs \<Rightarrow> r \<in> set rs)"
| "need_met nc (ReqGpus n) = (nc_gpus nc \<ge> n)"
| "need_met nc ReqHouse = nc_house nc"
| "need_met nc (ReqUnreadable _) = False"

definition unmet :: "requirements \<Rightarrow> node_capabilities \<Rightarrow> requirement option" where
  "unmet needs nc = find (\<lambda>need. \<not> need_met nc need) (map fst needs)"

section \<open>The filter stage\<close>

datatype filter_plugin =
    NodeReady | Cordon | NodeName | NodeSelector | Capability | TaintToleration | Resources

definition all_plugins :: "filter_plugin list" where
  "all_plugins = [NodeReady, Cordon, NodeName, NodeSelector, Capability, TaintToleration, Resources]"

datatype node_rejection =
    RejNotReady
  | RejCordoned
  | RejNodeNameMismatch
  | RejNodeSelectorMismatch
  | RejMissingCapability requirement
  | RejUntoleratedTaint string
  | RejInsufficientResources
  | RejUnreadableRequests

fun rejection_key :: "node_rejection \<Rightarrow> nat \<times> (nat \<times> nat \<times> string) \<times> string" where
  "rejection_key RejNotReady = (0, (0, 0, []), [])"
| "rejection_key RejCordoned = (1, (0, 0, []), [])"
| "rejection_key RejNodeNameMismatch = (2, (0, 0, []), [])"
| "rejection_key RejNodeSelectorMismatch = (3, (0, 0, []), [])"
| "rejection_key (RejMissingCapability r) = (4, requirement_key r, [])"
| "rejection_key (RejUntoleratedTaint key) = (5, (0, 0, []), key)"
| "rejection_key RejInsufficientResources = (6, (0, 0, []), [])"
| "rejection_key RejUnreadableRequests = (7, (0, 0, []), [])"

lemma rejection_key_inj [simp]: "rejection_key a = rejection_key b \<longleftrightarrow> a = b"
  by (cases a; cases b) auto

instantiation node_rejection :: linorder
begin

definition less_eq_node_rejection :: "node_rejection \<Rightarrow> node_rejection \<Rightarrow> bool" where
  "less_eq_node_rejection a b \<longleftrightarrow> rejection_key a \<le> rejection_key b"

definition less_node_rejection :: "node_rejection \<Rightarrow> node_rejection \<Rightarrow> bool" where
  "less_node_rejection a b \<longleftrightarrow> rejection_key a < rejection_key b"

instance
  by standard
    (auto simp: less_eq_node_rejection_def less_node_rejection_def dest: antisym [of "rejection_key _"])

end

fun rejection_plugin :: "node_rejection \<Rightarrow> filter_plugin" where
  "rejection_plugin RejNotReady = NodeReady"
| "rejection_plugin RejCordoned = Cordon"
| "rejection_plugin RejNodeNameMismatch = NodeName"
| "rejection_plugin RejNodeSelectorMismatch = NodeSelector"
| "rejection_plugin (RejMissingCapability _) = Capability"
| "rejection_plugin (RejUntoleratedTaint _) = TaintToleration"
| "rejection_plugin RejInsufficientResources = Resources"
| "rejection_plugin RejUnreadableRequests = Resources"

fun rejection_to_string :: "node_rejection \<Rightarrow> string" where
  "rejection_to_string RejNotReady = ''node(s) were not ready''"
| "rejection_to_string RejCordoned = ''node(s) were unschedulable''"
| "rejection_to_string RejNodeNameMismatch = ''node(s) didn't match the requested node name''"
| "rejection_to_string RejNodeSelectorMismatch = ''node(s) didn't match Pod's node selector''"
| "rejection_to_string (RejMissingCapability (ReqUnreadable key)) =
     ''node(s) could not satisfy the unreadable requirement '' @ key"
| "rejection_to_string (RejMissingCapability r) =
     ''node(s) lacked capability '' @ requirement_to_string r"
| "rejection_to_string (RejUntoleratedTaint key) = ''node(s) had untolerated taint {'' @ key @ ''}''"
| "rejection_to_string RejInsufficientResources = ''node(s) had insufficient cpu/memory''"
| "rejection_to_string RejUnreadableRequests =
     ''node(s) could not fit the Pod's unreadable resource requests''"

definition refuse_unless :: "bool \<Rightarrow> node_rejection \<Rightarrow> (node_rejection, unit) result" where
  "refuse_unless admitted rejection = (if admitted then Inr () else Inl rejection)"

definition bindable_name :: "json \<Rightarrow> json \<Rightarrow> (node_rejection, string) result" where
  "bindable_name pod node =
     (case node_name_of node of
        Some nm \<Rightarrow>
          (if nm \<noteq> [] \<and> node_name_matches pod node then Inr nm else Inl RejNodeNameMismatch)
      | None \<Rightarrow> Inl RejNodeNameMismatch)"

fun plugin_check ::
  "filter_plugin \<Rightarrow> json \<Rightarrow> pod_requests \<Rightarrow> json \<Rightarrow> node_ledger \<Rightarrow> (node_rejection, unit) result" where
  "plugin_check NodeReady pod req node ledger = refuse_unless (is_ready node) RejNotReady"
| "plugin_check Cordon pod req node ledger = refuse_unless (\<not> is_cordoned node) RejCordoned"
| "plugin_check NodeName pod req node ledger =
     (case bindable_name pod node of Inr _ \<Rightarrow> Inr () | Inl e \<Rightarrow> Inl e)"
| "plugin_check NodeSelector pod req node ledger =
     refuse_unless (matches_node_selector pod node) RejNodeSelectorMismatch"
| "plugin_check Capability pod req node ledger =
     (case unmet (infer_requirements pod) (observe_capabilities node) of
        Some r \<Rightarrow> Inl (RejMissingCapability r)
      | None \<Rightarrow> Inr ())"
| "plugin_check TaintToleration pod req node ledger =
     (case untolerated_taint pod node of
        Some t \<Rightarrow> Inl (RejUntoleratedTaint (taint_key t))
      | None \<Rightarrow> Inr ())"
| "plugin_check Resources pod req node ledger =
     (if pr_unparseable req then Inl RejUnreadableRequests
      else refuse_unless
             (case node_name_of node of Some nm \<Rightarrow> ledger_fits ledger nm req | None \<Rightarrow> False)
             RejInsufficientResources)"

record candidate =
  cand_name :: string
  cand_node :: json

fun check_all ::
  "filter_plugin list \<Rightarrow> json \<Rightarrow> pod_requests \<Rightarrow> json \<Rightarrow> node_ledger \<Rightarrow> (node_rejection, unit) result" where
  "check_all [] pod req node ledger = Inr ()"
| "check_all (p # ps) pod req node ledger =
     (case plugin_check p pod req node ledger of
        Inl e \<Rightarrow> Inl e
      | Inr _ \<Rightarrow> check_all ps pod req node ledger)"

definition admit ::
  "json \<Rightarrow> pod_requests \<Rightarrow> json \<Rightarrow> node_ledger \<Rightarrow> (node_rejection, candidate) result" where
  "admit pod req node ledger =
     (case check_all all_plugins pod req node ledger of
        Inl e \<Rightarrow> Inl e
      | Inr _ \<Rightarrow>
          (case bindable_name pod node of
             Inl e \<Rightarrow> Inl e
           | Inr nm \<Rightarrow> Inr \<lparr>cand_name = nm, cand_node = node\<rparr>))"

text \<open>A count never passes the number of nodes, so it never saturates.\<close>

type_synonym diagnosis = "(node_rejection, nat) btree_map"

definition count_rejection :: "node_rejection \<Rightarrow> diagnosis \<Rightarrow> diagnosis" where
  "count_rejection e d =
     (case map_of d e of Some n \<Rightarrow> bm_insert e (n + 1) d | None \<Rightarrow> bm_insert e 1 d)"

record feasible =
  fe_head :: candidate
  fe_tail :: "candidate list"

definition feasible_len :: "feasible \<Rightarrow> nat" where
  "feasible_len f = 1 + length (fe_tail f)"

definition feasible_list :: "feasible \<Rightarrow> candidate list" where
  "feasible_list f = fe_head f # fe_tail f"

definition nth_wrapping :: "feasible \<Rightarrow> nat \<Rightarrow> candidate" where
  "nth_wrapping f index =
     (let i = index mod feasible_len f
      in case (if i = 0 then None else if i - 1 < length (fe_tail f) then Some (fe_tail f ! (i - 1)) else None) of
           Some c \<Rightarrow> c
         | None \<Rightarrow> fe_head f)"

datatype filtered = FFeasible feasible | FInfeasible diagnosis | FNoNodesObserved

fun filter_loop ::
  "json \<Rightarrow> pod_requests \<Rightarrow> node_ledger \<Rightarrow> json list \<Rightarrow> candidate list \<times> diagnosis
    \<Rightarrow> candidate list \<times> diagnosis" where
  "filter_loop pod req ledger [] acc = acc"
| "filter_loop pod req ledger (node # nodes) (admitted, rejections) =
     (case admit pod req node ledger of
        Inr c \<Rightarrow> filter_loop pod req ledger nodes (admitted @ [c], rejections)
      | Inl e \<Rightarrow> filter_loop pod req ledger nodes (admitted, count_rejection e rejections))"

definition filter_nodes :: "json \<Rightarrow> pod_requests \<Rightarrow> json list \<Rightarrow> node_ledger \<Rightarrow> filtered" where
  "filter_nodes pod req nodes ledger =
     (case filter_loop pod req ledger nodes ([], []) of
        (c # cs, _) \<Rightarrow> FFeasible \<lparr>fe_head = c, fe_tail = cs\<rparr>
      | ([], rejections) \<Rightarrow>
          (if rejections = [] then FNoNodesObserved else FInfeasible rejections))"

definition nodes_observed :: "diagnosis \<Rightarrow> nat" where
  "nodes_observed d = sum_list (map snd d)"

definition diagnosis_count :: "diagnosis \<Rightarrow> node_rejection \<Rightarrow> nat" where
  "diagnosis_count d e = (case map_of d e of Some n \<Rightarrow> n | None \<Rightarrow> 0)"

definition diagnosis_count_by :: "diagnosis \<Rightarrow> filter_plugin \<Rightarrow> nat" where
  "diagnosis_count_by d p = sum_list (map snd (filter (\<lambda>(e, _). rejection_plugin e = p) d))"

definition diagnosis_to_string :: "diagnosis \<Rightarrow> string" where
  "diagnosis_to_string d =
     ''0/'' @ show_nat (nodes_observed d) @ '' nodes are available: '' @
     join_with '', '' (map (\<lambda>(e, n). show_nat n @ '' '' @ rejection_to_string e) d) @ ''.''"

section \<open>Round robin\<close>

definition rr_pick :: "64 word \<Rightarrow> feasible \<Rightarrow> string \<times> 64 word" where
  "rr_pick cursor f = (cand_name (nth_wrapping f (unat cursor)), cursor + 1)"

section \<open>What the projection says\<close>

text \<open>A node document that can carry a condition.\<close>

definition carries_status :: "json \<Rightarrow> bool" where
  "carries_status node \<longleftrightarrow>
     is_object node \<and> (case jget node ''status'' of Some s \<Rightarrow> is_object s | None \<Rightarrow> True)"

definition heartbeat_age :: "(string \<Rightarrow> int option) \<Rightarrow> json option \<Rightarrow> int option" where
  "heartbeat_age age lease = Option.bind (ostr (oget (oget lease ''spec'') ''renewTime'')) age"

lemma jget_project_other:
  "k \<noteq> ''status'' \<Longrightarrow> jget (project_ready_condition age node lease now) k = jget node k"
  by (simp add: project_ready_condition_def Let_def split: json.split)

lemma is_ready_type_condition [simp]: "is_ready_type (ready_condition state now prev)"
  by (simp add: is_ready_type_def ready_condition_def Let_def)

lemma find_ready_last: "find is_ready_type (filter (\<lambda>c. \<not> is_ready_type c) cs @ [ready_condition s n p]) =
    Some (ready_condition s n p)"
  by (induction cs) auto

lemma conditions_of_project:
  assumes "carries_status node"
  shows "conditions_of (project_ready_condition age node lease now) =
    Some (filter (\<lambda>c. \<not> is_ready_type c) (case conditions_of node of Some cs \<Rightarrow> cs | None \<Rightarrow> []) @
      [ready_condition (readiness (heartbeat_age age lease)) now (find_ready_condition node)])"
proof -
  obtain obj where "node = JObject obj" using assms by (cases node) (auto simp: carries_status_def)
  moreover have "\<exists>status. (case map_of obj ''status'' of Some s \<Rightarrow> s | None \<Rightarrow> JObject []) = JObject status"
    using assms \<open>node = _\<close> by (auto simp: carries_status_def is_object_iff split: option.splits)
  ultimately show ?thesis
    by (auto simp: project_ready_condition_def conditions_of_def Let_def heartbeat_age_def)
qed

lemma is_ready_project:
  assumes "carries_status node"
  shows "is_ready (project_ready_condition age node lease now) \<longleftrightarrow> readiness (heartbeat_age age lease) = NrReady"
proof -
  have "find_ready_condition (project_ready_condition age node lease now) =
      Some (ready_condition (readiness (heartbeat_age age lease)) now (find_ready_condition node))"
    by (simp add: find_ready_condition_def conditions_of_project [OF assms] find_ready_last)
  then show ?thesis
    by (cases "readiness (heartbeat_age age lease)")
      (simp_all add: is_ready_def ready_condition_def Let_def)
qed

lemma is_ready_needs_status: "is_ready node \<Longrightarrow> carries_status node"
proof (cases node)
  case (JObject obj)
  assume "is_ready node"
  then show ?thesis using JObject
    by (cases "map_of obj ''status''"; cases "the (map_of obj ''status'')")
      (auto simp: is_ready_def find_ready_condition_def conditions_of_def carries_status_def)
qed (simp_all add: is_ready_def find_ready_condition_def conditions_of_def)

lemma carries_status_project:
  "carries_status (project_ready_condition age node lease now) = carries_status node"
  by (cases node) (auto simp: carries_status_def project_ready_condition_def Let_def
      split: json.split option.split)

section \<open>What the filter admits\<close>

text \<open>A node a pod may run on, rule by rule.\<close>

definition schedulable_on :: "json \<Rightarrow> pod_requests \<Rightarrow> node_ledger \<Rightarrow> json \<Rightarrow> bool" where
  "schedulable_on pod req ledger node \<longleftrightarrow>
     is_ready node \<and> \<not> is_cordoned node \<and> node_name_matches pod node \<and>
     matches_node_selector pod node \<and>
     (\<forall>need \<in> fst ` set (infer_requirements pod). need_met (observe_capabilities node) need) \<and>
     (\<forall>t \<in> set (blocking_taints node). tolerates pod t) \<and>
     \<not> pr_unparseable req \<and>
     (\<exists>nm. node_name_of node = Some nm \<and> nm \<noteq> [] \<and> ledger_fits ledger nm req)"

definition candidate_of :: "json \<Rightarrow> candidate" where
  "candidate_of node = \<lparr>cand_name = the (node_name_of node), cand_node = node\<rparr>"

lemma check_all_Inr:
  "check_all ps pod req node ledger = Inr u \<longleftrightarrow> (\<forall>p \<in> set ps. plugin_check p pod req node ledger = Inr ())"
  by (induction ps) (auto split: sum.splits)

lemma find_SomeD: "find P xs = Some x \<Longrightarrow> x \<in> set xs \<and> P x"
  by (auto simp: find_Some_iff)

lemma admit_Inr:
  "admit pod req node ledger = Inr c \<longleftrightarrow>
    schedulable_on pod req ledger node \<and> c = candidate_of node"
  by (auto simp: admit_def check_all_Inr all_plugins_def refuse_unless_def bindable_name_def unmet_def
      untolerated_taint_def find_None_iff schedulable_on_def candidate_of_def
      dest!: find_SomeD split: sum.splits option.splits if_splits)

lemma admit_rejects: "(\<exists>e. admit pod req node ledger = Inl e) \<longleftrightarrow> \<not> schedulable_on pod req ledger node"
  using admit_Inr [of pod req node ledger "candidate_of node"] admit_Inr [of pod req node ledger]
  by (cases "admit pod req node ledger") auto

text \<open>Counting the nodes under their rejections.\<close>

definition rejected_with :: "json \<Rightarrow> pod_requests \<Rightarrow> node_ledger \<Rightarrow> node_rejection \<Rightarrow> json \<Rightarrow> bool" where
  "rejected_with pod req ledger e node \<longleftrightarrow> admit pod req node ledger = Inl e"

lemma count_rejection_count:
  "diagnosis_count (count_rejection e d) e' = diagnosis_count d e' + (if e' = e then 1 else 0)"
  by (auto simp: count_rejection_def diagnosis_count_def split: option.splits)

lemma count_rejection_sum: "nodes_observed (count_rejection e d) = nodes_observed d + 1" if "bm_ok d"
proof -
  have "nodes_observed (bm_insert e (n + 1) d) = nodes_observed d + 1" if "map_of d e = Some n" "bm_ok d" for n d
    using that
  proof (induction d)
    case (Cons x d)
    have "(e, n) \<in> set d" if "e \<noteq> fst x" using Cons.prems(1) that by (cases x) (auto dest: map_of_SomeD)
    with Cons show ?case by (cases x) (fastforce simp: nodes_observed_def bm_ok_Cons)
  qed simp
  moreover have "nodes_observed (bm_insert e 1 d) = nodes_observed d + 1" if "map_of d e = None" for d
    using that by (induction d) (auto simp: nodes_observed_def split: if_splits)
  ultimately show ?thesis using that by (auto simp: count_rejection_def split: option.splits)
qed

lemma count_rejection_ok: "bm_ok d \<Longrightarrow> bm_ok (count_rejection e d)" "count_rejection e d \<noteq> []"
proof -
  have "bm_insert e n m \<noteq> []" for n and m :: diagnosis by (cases m) (auto split: if_split_asm)
  then show "count_rejection e d \<noteq> []" by (auto simp: count_rejection_def split: option.splits)
qed (auto simp: count_rejection_def split: option.splits)

lemma filter_loop_result:
  "filter_loop pod req ledger nodes (admitted, d) =
    (admitted @ map candidate_of (filter (schedulable_on pod req ledger) nodes),
     fold count_rejection
       (List.map_filter (\<lambda>n. case admit pod req n ledger of Inl e \<Rightarrow> Some e | Inr _ \<Rightarrow> None) nodes) d)"
proof (induction nodes arbitrary: admitted d)
  case (Cons n nodes)
  show ?case
  proof (cases "admit pod req n ledger")
    case (Inl e)
    then have "\<not> schedulable_on pod req ledger n" using admit_rejects by blast
    with Inl Cons.IH show ?thesis by (simp add: map_filter_simps)
  next
    case (Inr c)
    then have "schedulable_on pod req ledger n" "c = candidate_of n" by (simp_all add: admit_Inr)
    with Inr Cons.IH show ?thesis by (simp add: map_filter_simps)
  qed
qed (simp add: map_filter_simps)

lemma fold_count_rejection:
  assumes "bm_ok d"
  shows "bm_ok (fold count_rejection es d)"
    and "diagnosis_count (fold count_rejection es d) e = diagnosis_count d e + count_list es e"
    and "nodes_observed (fold count_rejection es d) = nodes_observed d + length es"
    and "fold count_rejection es d = [] \<longleftrightarrow> es = [] \<and> d = []"
  using assms
  by (induction es arbitrary: d)
    (auto simp: count_rejection_ok count_rejection_count count_rejection_sum)

lemma count_map_filter:
  "count_list (List.map_filter f xs) y = length (filter (\<lambda>x. f x = Some y) xs)"
  by (induction xs) (auto simp: map_filter_simps split: option.split)

lemma length_map_filter: "length (List.map_filter f xs) = length (filter (\<lambda>x. f x \<noteq> None) xs)"
  by (induction xs) (auto simp: map_filter_simps split: option.split)

lemma infeasible_counts:
  assumes "filter (schedulable_on pod req ledger) nodes = []"
  shows "diagnosis_count (snd (filter_loop pod req ledger nodes ([], []))) e =
      length (filter (rejected_with pod req ledger e) nodes)"
    and "nodes_observed (snd (filter_loop pod req ledger nodes ([], []))) = length nodes"
    and "snd (filter_loop pod req ledger nodes ([], [])) = [] \<longleftrightarrow> nodes = []"
proof -
  let ?f = "\<lambda>n. case admit pod req n ledger of Inl e \<Rightarrow> Some e | Inr _ \<Rightarrow> None"
  have all: "\<exists>e. admit pod req n ledger = Inl e" if "n \<in> set nodes" for n
    using assms that by (auto simp: filter_empty_conv admit_rejects)
  then have "filter (\<lambda>x. ?f x \<noteq> None) nodes = nodes" by (fastforce simp: filter_id_conv)
  then have len: "length (List.map_filter ?f nodes) = length nodes" by (simp add: length_map_filter)
  have "filter (\<lambda>x. ?f x = Some e) nodes = filter (rejected_with pod req ledger e) nodes"
    by (rule filter_cong) (auto simp: rejected_with_def split: sum.splits)
  then show "diagnosis_count (snd (filter_loop pod req ledger nodes ([], []))) e =
      length (filter (rejected_with pod req ledger e) nodes)"
    using fold_count_rejection(2) [of "[]" "List.map_filter ?f nodes" e]
    by (simp add: filter_loop_result diagnosis_count_def [of "[]"] count_map_filter)
  show "nodes_observed (snd (filter_loop pod req ledger nodes ([], []))) = length nodes"
    using fold_count_rejection(3) [of "[]" "List.map_filter ?f nodes"] len
    by (simp add: filter_loop_result nodes_observed_def [of "[]"])
  show "snd (filter_loop pod req ledger nodes ([], [])) = [] \<longleftrightarrow> nodes = []"
    using len by (auto simp: filter_loop_result fold_count_rejection)
qed

lemma filter_nodes_cases:
  "case filter_nodes pod req nodes ledger of
     FFeasible f \<Rightarrow> feasible_list f = map candidate_of (filter (schedulable_on pod req ledger) nodes)
   | FInfeasible d \<Rightarrow>
       nodes \<noteq> [] \<and> filter (schedulable_on pod req ledger) nodes = [] \<and>
       (\<forall>e. diagnosis_count d e = length (filter (rejected_with pod req ledger e) nodes)) \<and>
       nodes_observed d = length nodes
   | FNoNodesObserved \<Rightarrow> nodes = []"
proof (cases "filter (schedulable_on pod req ledger) nodes")
  case Nil
  obtain d where d: "filter_loop pod req ledger nodes ([], []) = ([], d)"
    using Nil by (simp add: filter_loop_result)
  show ?thesis
    using Nil infeasible_counts [OF Nil] by (simp add: filter_nodes_def d)
next
  case (Cons n ns)
  then show ?thesis by (simp add: filter_nodes_def filter_loop_result feasible_list_def)
qed

section \<open>Turns\<close>

lemma nth_wrapping_nth: "nth_wrapping f i = feasible_list f ! (i mod length (feasible_list f))"
proof -
  define j where "j = i mod feasible_len f"
  have "j < Suc (length (fe_tail f))" by (simp add: j_def feasible_len_def)
  moreover have "length (feasible_list f) = feasible_len f" by (simp add: feasible_list_def feasible_len_def)
  ultimately show ?thesis
    by (cases j) (simp_all add: nth_wrapping_def feasible_list_def Let_def flip: j_def)
qed

text \<open>A number of consecutive picks from one set of nodes.\<close>

fun rr_run :: "nat \<Rightarrow> 64 word \<Rightarrow> feasible \<Rightarrow> string list" where
  "rr_run 0 cursor f = []"
| "rr_run (Suc n) cursor f = (let (nm, cursor') = rr_pick cursor f in nm # rr_run n cursor' f)"

lemma unat_plus_one: "unat (c :: 64 word) + 1 < 2 ^ 64 \<Longrightarrow> unat (c + 1) = unat c + 1"
  by (simp add: unat_word_ariths)

lemma rr_run_nth:
  assumes "unat cursor + n \<le> 2 ^ 64"
  shows "rr_run n cursor f = map (\<lambda>i. cand_name (nth_wrapping f (unat cursor + i))) [0..<n]"
  using assms
proof (induction n arbitrary: cursor)
  case (Suc n)
  have "rr_run n (cursor + 1) f = map (\<lambda>i. cand_name (nth_wrapping f (unat cursor + Suc i))) [0..<n]"
  proof (cases "n = 0")
    case False
    then have "unat (cursor + 1) = unat cursor + 1" using Suc.prems by (intro unat_plus_one) simp
    then show ?thesis using Suc.IH [of "cursor + 1"] Suc.prems by simp
  qed simp
  moreover have "[0..<Suc n] = 0 # map Suc [0..<n]" by (simp add: map_Suc_upt upt_conv_Cons del: upt_Suc)
  ultimately show ?case by (simp add: rr_pick_def del: upt_Suc)
qed simp

lemma rr_run_rotate:
  assumes "unat cursor + feasible_len f \<le> 2 ^ 64"
  shows "rr_run (feasible_len f) cursor f = rotate (unat cursor) (map cand_name (feasible_list f))"
proof (rule nth_equalityI)
  have len: "length (feasible_list f) = feasible_len f" by (simp add: feasible_list_def feasible_len_def)
  then show "length (rr_run (feasible_len f) cursor f) =
      length (rotate (unat cursor) (map cand_name (feasible_list f)))"
    by (simp add: rr_run_nth [OF assms])
  fix i assume i: "i < length (rr_run (feasible_len f) cursor f)"
  then have "i < feasible_len f" by (simp add: rr_run_nth [OF assms])
  with len show "rr_run (feasible_len f) cursor f ! i =
      rotate (unat cursor) (map cand_name (feasible_list f)) ! i"
    by (simp add: rr_run_nth [OF assms] nth_wrapping_nth nth_rotate)
qed

section \<open>Properties of the filter stage\<close>

text \<open>
  C26. The filter stage is exact. The feasible set is, in observation order, exactly the nodes
  every rule admits (ready by its heartbeat, not cordoned, the pinned name if any, the
  selector, every capability the pod needs, every blocking taint tolerated, requests
  readable and within the free capacity of the ledger). When there is none, the diagnosis
  counts every observed node exactly once, under the rejection that removed it; and no
  diagnosis is given when no node was observed.
\<close>

theorem filter_exact:
  "case filter_nodes pod req nodes ledger of
     FFeasible f \<Rightarrow> feasible_list f = map candidate_of (filter (schedulable_on pod req ledger) nodes)
   | FInfeasible d \<Rightarrow>
       nodes \<noteq> [] \<and> filter (schedulable_on pod req ledger) nodes = [] \<and>
       (\<forall>e. diagnosis_count d e = length (filter (rejected_with pod req ledger e) nodes)) \<and>
       nodes_observed d = length nodes
   | FNoNodesObserved \<Rightarrow> nodes = []"
  by (rule filter_nodes_cases)


text \<open>
  C32. Round robin is fair: as many consecutive picks as there are feasible nodes name each of
  them exactly once, in the order of a rotation, until the 64-bit cursor wraps.
\<close>

theorem round_robin_fair:
  assumes "unat cursor + feasible_len f \<le> 2 ^ 64"
  shows "rr_run (feasible_len f) cursor f = rotate (unat cursor) (map cand_name (feasible_list f))"
  by (rule rr_run_rotate [OF assms])

theorem round_robin_fair_witness:
  "rr_run 3 7 \<lparr>fe_head = \<lparr>cand_name = ''a'', cand_node = JNull\<rparr>,
     fe_tail = [\<lparr>cand_name = ''b'', cand_node = JNull\<rparr>, \<lparr>cand_name = ''c'', cand_node = JNull\<rparr>]\<rparr> =
   [''b'', ''c'', ''a'']"
proof -
  let ?f = "\<lparr>fe_head = \<lparr>cand_name = ''a'', cand_node = JNull\<rparr>,
     fe_tail = [\<lparr>cand_name = ''b'', cand_node = JNull\<rparr>, \<lparr>cand_name = ''c'', cand_node = JNull\<rparr>]\<rparr>"
  have len: "feasible_len ?f = 3" by (simp add: feasible_len_def)
  have "rr_run (feasible_len ?f) 7 ?f = rotate (unat (7 :: 64 word)) (map cand_name (feasible_list ?f))"
    by (rule round_robin_fair) (simp add: len)
  then show ?thesis by (simp add: len feasible_list_def rotate_drop_take)
qed

end
