(* ===== verification/Placement.thy ===== *)
theory Placement
  imports Feasibility "HOL-Library.Multiset"
begin

text \<open>
  Relations between pods and making room: affinity, anti-affinity and topology spread
  (\<open>engenho-scheduler/src/affinity.rs\<close>), and preemption (\<open>preemption.rs\<close>). Both are judged
  against plain lists of the pods already placed, as the code's functions are.
\<close>

section \<open>Affinity and spread\<close>

record placed_pod =
  pp_labels :: json
  pp_node_name :: string

definition topology_domain :: "json \<Rightarrow> string \<Rightarrow> string option" where
  "topology_domain node topology_key =
     ostr (oget (oget (jget node ''metadata'') ''labels'') topology_key)"

definition matches_match_labels :: "json \<Rightarrow> json \<Rightarrow> bool" where
  "matches_match_labels selector labels =
     (case Option.bind (jget selector ''matchLabels'') as_object of
        None \<Rightarrow> True
      | Some ml \<Rightarrow> list_all (\<lambda>(k, want). jget labels k = Some want) ml)"

definition selector_is_supported :: "json \<Rightarrow> bool" where
  "selector_is_supported selector =
     (case Option.bind (jget selector ''matchExpressions'') as_array of None \<Rightarrow> True | Some es \<Rightarrow> es = [])"

record affinity_term =
  at_selector :: json
  at_topology_key :: string

definition read_term :: "json \<Rightarrow> affinity_term option" where
  "read_term t =
     (case (jget t ''labelSelector'', ostr (jget t ''topologyKey'')) of
        (Some sel, Some key) \<Rightarrow> Some \<lparr>at_selector = sel, at_topology_key = key\<rparr>
      | _ \<Rightarrow> None)"

definition required_terms :: "json \<Rightarrow> string \<Rightarrow> affinity_term list" where
  "required_terms pod knd =
     (case Option.bind
             (oget (oget (oget (jget pod ''spec'') ''affinity'') knd)
               ''requiredDuringSchedulingIgnoredDuringExecution'') as_array of
        Some ts \<Rightarrow> List.map_filter read_term ts
      | None \<Rightarrow> [])"

datatype affinity_rejection =
    AffinityUnsatisfied string
  | AntiAffinityViolated string
  | UnsupportedSelector
  | NoTopologyDomain string

type_synonym named_nodes = "(string \<times> json) list"

text \<open>The domain of the node a placed pod sits on.\<close>

definition placed_domain :: "named_nodes \<Rightarrow> string \<Rightarrow> placed_pod \<Rightarrow> string option" where
  "placed_domain nodes key p =
     Option.bind (find (\<lambda>(n, _). n = pp_node_name p) nodes) (\<lambda>(_, nv). topology_domain nv key)"

definition check_term ::
  "bool \<Rightarrow> json \<Rightarrow> placed_pod list \<Rightarrow> named_nodes \<Rightarrow> affinity_term \<Rightarrow> affinity_rejection option" where
  "check_term violated_when_found node placed nodes t =
     (if \<not> selector_is_supported (at_selector t) then Some UnsupportedSelector
      else
        (case topology_domain node (at_topology_key t) of
           None \<Rightarrow> Some (NoTopologyDomain (at_topology_key t))
         | Some domain \<Rightarrow>
             (let found = list_ex (\<lambda>p. placed_domain nodes (at_topology_key t) p = Some domain \<and>
                                 matches_match_labels (at_selector t) (pp_labels p)) placed
              in if found = violated_when_found
                 then Some (if violated_when_found then AntiAffinityViolated (at_topology_key t)
                            else AffinityUnsatisfied (at_topology_key t))
                 else None)))"

fun first_some :: "('a \<Rightarrow> 'b option) \<Rightarrow> 'a list \<Rightarrow> 'b option" where
  "first_some f [] = None"
| "first_some f (x # xs) = (case f x of Some y \<Rightarrow> Some y | None \<Rightarrow> first_some f xs)"

definition check_affinity ::
  "json \<Rightarrow> json \<Rightarrow> placed_pod list \<Rightarrow> named_nodes \<Rightarrow> affinity_rejection option" where
  "check_affinity pod node placed nodes =
     first_some (\<lambda>(knd, violated_when_found).
        first_some (check_term violated_when_found node placed nodes) (required_terms pod knd))
       [(''podAffinity'', False), (''podAntiAffinity'', True)]"

record spread_constraint =
  sp_max_skew :: int
  sp_topology_key :: string
  sp_when_unsatisfiable :: string
  sp_selector :: json

definition read_spread :: "json \<Rightarrow> spread_constraint option" where
  "read_spread c =
     (case (Option.bind (jget c ''maxSkew'') as_i64, ostr (jget c ''topologyKey'')) of
        (Some skew, Some key) \<Rightarrow>
          (if skew \<ge> 1
           then Some \<lparr>sp_max_skew = skew, sp_topology_key = key,
                  sp_when_unsatisfiable =
                    (case ostr (jget c ''whenUnsatisfiable'') of Some w \<Rightarrow> w | None \<Rightarrow> ''DoNotSchedule''),
                  sp_selector = (case jget c ''labelSelector'' of Some s \<Rightarrow> s | None \<Rightarrow> JNull)\<rparr>
           else None)
      | _ \<Rightarrow> None)"

definition spread_constraints :: "json \<Rightarrow> spread_constraint list" where
  "spread_constraints pod =
     (case Option.bind (oget (jget pod ''spec'') ''topologySpreadConstraints'') as_array of
        Some cs \<Rightarrow> List.map_filter read_spread cs
      | None \<Rightarrow> [])"

definition count_domains ::
  "spread_constraint \<Rightarrow> placed_pod list \<Rightarrow> named_nodes \<Rightarrow> (string, int) btree_map" where
  "count_domains c placed nodes =
     (let zeros = fold (\<lambda>(_, nv) m. case topology_domain nv (sp_topology_key c) of
                          Some d \<Rightarrow> (if map_of m d = None then bm_insert d 0 m else m)
                        | None \<Rightarrow> m) nodes []
      in fold (\<lambda>p m. if \<not> matches_match_labels (sp_selector c) (pp_labels p) then m
                     else case placed_domain nodes (sp_topology_key c) p of
                            Some d \<Rightarrow> bm_insert d ((case map_of m d of Some n \<Rightarrow> n | None \<Rightarrow> 0) + 1) m
                          | None \<Rightarrow> m) placed zeros)"

definition check_spread_one ::
  "json \<Rightarrow> placed_pod list \<Rightarrow> named_nodes \<Rightarrow> spread_constraint \<Rightarrow> affinity_rejection option" where
  "check_spread_one node placed nodes c =
     (if sp_when_unsatisfiable c \<noteq> ''DoNotSchedule'' then None
      else if \<not> selector_is_supported (sp_selector c) then Some UnsupportedSelector
      else
        (case topology_domain node (sp_topology_key c) of
           None \<Rightarrow> Some (NoTopologyDomain (sp_topology_key c))
         | Some target \<Rightarrow>
             (let counts = count_domains c placed nodes;
                  after = (case map_of counts target of Some n \<Rightarrow> n | None \<Rightarrow> 0) + 1;
                  least = (case map snd counts of [] \<Rightarrow> 0 | n # ns \<Rightarrow> foldl min n ns)
              in if after - least > sp_max_skew c
                 then Some (AntiAffinityViolated (sp_topology_key c)) else None)))"

definition check_spread ::
  "json \<Rightarrow> json \<Rightarrow> placed_pod list \<Rightarrow> named_nodes \<Rightarrow> affinity_rejection option" where
  "check_spread pod node placed nodes =
     first_some (check_spread_one node placed nodes) (spread_constraints pod)"

section \<open>Preemption\<close>

record victim =
  vi_pod :: json
  vi_priority :: int
  vi_requests :: pod_requests

definition priority_of :: "json \<Rightarrow> int" where
  "priority_of pod =
     (case Option.bind (oget (jget pod ''spec'') ''priority'') as_i64 of Some p \<Rightarrow> p | None \<Rightarrow> 0)"

definition is_preemption_exempt :: "json \<Rightarrow> bool" where
  "is_preemption_exempt pod \<longleftrightarrow> oget (jget pod ''metadata'') ''deletionTimestamp'' \<noteq> None"

definition may_preempt :: "json \<Rightarrow> bool" where
  "may_preempt pod \<longleftrightarrow> ostr (oget (jget pod ''spec'') ''preemptionPolicy'') \<noteq> Some ''Never''"

datatype preemption_plan = Evict "string list" | Infeasible

definition pod_name :: "json \<Rightarrow> string" where
  "pod_name pod = (case ostr (oget (jget pod ''metadata'') ''name'') of Some n \<Rightarrow> n | None \<Rightarrow> [])"

definition has_room :: "pod_requests \<Rightarrow> int \<Rightarrow> int \<Rightarrow> bool" where
  "has_room need cpu mem \<longleftrightarrow> cpu \<ge> pr_cpu_milli need \<and> mem \<ge> pr_mem_milli need"

fun evict_loop ::
  "pod_requests \<Rightarrow> int \<Rightarrow> int \<Rightarrow> victim list \<Rightarrow> string list \<Rightarrow> int \<times> int \<times> string list" where
  "evict_loop need cpu mem [] evicted = (cpu, mem, evicted)"
| "evict_loop need cpu mem (v # vs) evicted =
     (if has_room need cpu mem then (cpu, mem, evicted)
      else evict_loop need (wrap_i128 (cpu + pr_cpu_milli (vi_requests v)))
             (wrap_i128 (mem + pr_mem_milli (vi_requests v))) vs (evicted @ [pod_name (vi_pod v)]))"

definition candidates :: "json \<Rightarrow> victim list \<Rightarrow> victim list" where
  "candidates incoming running =
     sort_key (\<lambda>v. (vi_priority v, pod_name (vi_pod v)))
       (filter (\<lambda>v. vi_priority v < priority_of incoming \<and> \<not> is_preemption_exempt (vi_pod v)) running)"

definition plan :: "float_text \<Rightarrow> json \<Rightarrow> node_resources \<Rightarrow> victim list \<Rightarrow> preemption_plan" where
  "plan ft incoming free running =
     (if \<not> may_preempt incoming then Infeasible
      else
        (let need = pod_requests_of ft incoming
         in if pr_unparseable need then Infeasible
            else
              (let (cpu, mem, evicted) =
                     evict_loop need (nr_cpu_milli free) (nr_mem_milli free)
                       (candidates incoming running) []
               in if has_room need cpu mem then Evict evicted else Infeasible)))"

section \<open>What affinity and spread require\<close>

lemma first_some_None: "first_some f xs = None \<longleftrightarrow> (\<forall>x \<in> set xs. f x = None)"
  by (induction xs) (auto split: option.splits)

text \<open>
  The placed pods of a domain that a selector matches, and the domains that exist.
\<close>

definition matching_in :: "named_nodes \<Rightarrow> placed_pod list \<Rightarrow> json \<Rightarrow> string \<Rightarrow> string \<Rightarrow> placed_pod list" where
  "matching_in nodes placed selector key d =
     filter (\<lambda>p. matches_match_labels selector (pp_labels p) \<and> placed_domain nodes key p = Some d) placed"

definition domains :: "named_nodes \<Rightarrow> string \<Rightarrow> string set" where
  "domains nodes key = {d. \<exists>(n, nv) \<in> set nodes. topology_domain nv key = Some d}"

lemma placed_domain_exists: "placed_domain nodes key p = Some d \<Longrightarrow> d \<in> domains nodes key"
  by (auto simp: placed_domain_def domains_def bind_eq_Some_conv dest!: find_SomeD)

lemma check_term_None:
  "check_term want_none node placed nodes t = None \<longleftrightarrow>
    selector_is_supported (at_selector t) \<and>
    (\<exists>d. topology_domain node (at_topology_key t) = Some d \<and>
      (matching_in nodes placed (at_selector t) (at_topology_key t) d = []) = want_none)"
  by (auto simp: check_term_def Let_def matching_in_def filter_empty_conv list_ex_iff split: option.splits)

lemma check_affinity_None:
  "check_affinity pod node placed nodes = None \<longleftrightarrow>
    (\<forall>t \<in> set (required_terms pod ''podAffinity''). check_term False node placed nodes t = None) \<and>
    (\<forall>t \<in> set (required_terms pod ''podAntiAffinity''). check_term True node placed nodes t = None)"
  by (simp add: check_affinity_def first_some_None del: first_some.simps)

text \<open>The counts per domain.\<close>

definition zero_counts :: "string \<Rightarrow> named_nodes \<Rightarrow> (string, int) btree_map" where
  "zero_counts key nodes =
     fold (\<lambda>(_, nv) m. case topology_domain nv key of
             Some d \<Rightarrow> (if map_of m d = None then bm_insert d 0 m else m)
           | None \<Rightarrow> m) nodes []"

lemma zero_counts_snoc:
  "zero_counts key (nodes @ [(n, nv)]) =
    (case topology_domain nv key of
       Some d \<Rightarrow> (if map_of (zero_counts key nodes) d = None then bm_insert d 0 (zero_counts key nodes)
                else zero_counts key nodes)
     | None \<Rightarrow> zero_counts key nodes)"
  by (simp add: zero_counts_def split: option.split)

lemma zero_counts_get:
  "bm_ok (zero_counts key nodes) \<and>
   map_of (zero_counts key nodes) d = (if d \<in> domains nodes key then Some 0 else None)"
proof (induction nodes arbitrary: d rule: rev_induct)
  case (snoc x nodes)
  obtain n nv where x: "x = (n, nv)" by (cases x) auto
  have "domains (nodes @ [x]) key = domains nodes key \<union> set_option (topology_domain nv key)"
    by (auto simp: domains_def x)
  with snoc show ?case
    by (cases "topology_domain nv key") (auto simp: x zero_counts_snoc)
qed (simp add: zero_counts_def domains_def)

lemma count_domains_get:
  "bm_ok (count_domains c placed nodes) \<and>
   map_of (count_domains c placed nodes) d =
    (if d \<in> domains nodes (sp_topology_key c)
     then Some (int (length (matching_in nodes placed (sp_selector c) (sp_topology_key c) d))) else None)"
proof (induction placed arbitrary: d rule: rev_induct)
  case Nil
  have "count_domains c [] nodes = zero_counts (sp_topology_key c) nodes"
    by (simp add: count_domains_def zero_counts_def)
  with zero_counts_get [of "sp_topology_key c" nodes d] show ?case by (simp add: matching_in_def)
next
  case (snoc p placed)
  show ?case
  proof (cases "matches_match_labels (sp_selector c) (pp_labels p)")
    case False
    then have "count_domains c (placed @ [p]) nodes = count_domains c placed nodes"
      by (simp add: count_domains_def)
    with snoc False show ?thesis by (simp add: matching_in_def)
  next
    case True
    show ?thesis
    proof (cases "placed_domain nodes (sp_topology_key c) p")
      case None
      with True have "count_domains c (placed @ [p]) nodes = count_domains c placed nodes"
        by (simp add: count_domains_def)
      with snoc None show ?thesis by (simp add: matching_in_def)
    next
      case (Some e)
      with True have eq: "count_domains c (placed @ [p]) nodes =
          bm_insert e ((case map_of (count_domains c placed nodes) e of Some n \<Rightarrow> n | None \<Rightarrow> 0) + 1)
            (count_domains c placed nodes)"
        by (simp add: count_domains_def Let_def)
      show ?thesis
        using snoc [of e] snoc [of d] placed_domain_exists [OF Some] True Some
        by (auto simp: eq matching_in_def)
    qed
  qed
qed

lemma foldl_min_Min: "foldl min n ns = Min (set (n # ns))" for n :: int
proof (induction ns arbitrary: n)
  case (Cons m ns)
  then show ?case by (cases "ns = []") (simp_all add: min.assoc)
qed simp

lemma check_spread_one_None:
  assumes "1 \<le> sp_max_skew c"
  shows "check_spread_one node placed nodes c = None \<longleftrightarrow>
    (sp_when_unsatisfiable c = ''DoNotSchedule'' \<longrightarrow>
      selector_is_supported (sp_selector c) \<and>
      (\<exists>target. topology_domain node (sp_topology_key c) = Some target \<and>
        (\<forall>d \<in> domains nodes (sp_topology_key c).
          int (length (matching_in nodes placed (sp_selector c) (sp_topology_key c) target)) + 1
            - int (length (matching_in nodes placed (sp_selector c) (sp_topology_key c) d))
          \<le> sp_max_skew c)))"
proof -
  let ?key = "sp_topology_key c" and ?counts = "count_domains c placed nodes"
  define f where "f d = int (length (matching_in nodes placed (sp_selector c) ?key d))" for d
  note get = count_domains_get [of c placed nodes, folded f_def]
  have target: "(case map_of ?counts t of Some n \<Rightarrow> n | None \<Rightarrow> 0) = f t" for t
    using get [of t] placed_domain_exists [of nodes ?key]
    by (auto simp: f_def matching_in_def filter_empty_conv split: option.splits)
  have vals: "set (map snd ?counts) = f ` domains nodes ?key"
  proof -
    have ok: "bm_ok ?counts" using get by blast
    have "x \<in> snd ` set ?counts \<longleftrightarrow> (\<exists>d. map_of ?counts d = Some x)" for x
      unfolding bm_get_mem [OF ok, symmetric] by force
    then have "x \<in> snd ` set ?counts \<longleftrightarrow> x \<in> f ` domains nodes ?key" for x
      using get by (simp add: image_iff) (metis option.discI option.inject)
    then show ?thesis by auto
  qed
  have "(\<forall>d \<in> domains nodes ?key. f t + 1 - f d \<le> sp_max_skew c) \<longleftrightarrow>
      \<not> sp_max_skew c < f t + 1 - (case map snd ?counts of [] \<Rightarrow> 0 | n # ns \<Rightarrow> foldl min n ns)" for t
  proof (cases "map snd ?counts")
    case Nil
    then have "domains nodes ?key = {}" using vals by simp
    moreover from this have "f t = 0"
      using placed_domain_exists [of nodes ?key] by (auto simp: f_def matching_in_def filter_empty_conv)
    ultimately show ?thesis using assms Nil by simp
  next
    case (Cons n ns)
    have V: "f ` domains nodes ?key = set (n # ns)" using vals Cons by simp
    have "(\<forall>d \<in> domains nodes ?key. f t + 1 - f d \<le> sp_max_skew c) \<longleftrightarrow>
        (\<forall>x \<in> f ` domains nodes ?key. f t + 1 - sp_max_skew c \<le> x)" by auto
    also have "\<dots> \<longleftrightarrow> f t + 1 - sp_max_skew c \<le> Min (set (n # ns))"
      unfolding V by (rule Min_ge_iff [symmetric]) simp_all
    finally show ?thesis
      unfolding Cons list.case foldl_min_Min not_less by linarith
  qed
  then show ?thesis
    by (auto simp: check_spread_one_def Let_def target f_def split: option.splits)
qed

lemma read_spread_skew: "read_spread v = Some c \<Longrightarrow> 1 \<le> sp_max_skew c"
  unfolding read_spread_def prod.case
  by (cases "Option.bind (jget v ''maxSkew'') as_i64"; cases "ostr (jget v ''topologyKey'')")
    (simp_all split: if_split_asm, auto)

lemma spread_constraints_skew: "c \<in> set (spread_constraints pod) \<Longrightarrow> 1 \<le> sp_max_skew c"
  unfolding spread_constraints_def
  by (auto simp: List.map_filter_def intro: read_spread_skew split: option.splits)

section \<open>What a preemption plan does\<close>

definition freed :: "(pod_requests \<Rightarrow> int) \<Rightarrow> victim list \<Rightarrow> int" where
  "freed d vs = sum_list (map (\<lambda>v. d (vi_requests v)) vs)"

definition room_after :: "pod_requests \<Rightarrow> node_resources \<Rightarrow> victim list \<Rightarrow> bool" where
  "room_after need free vs \<longleftrightarrow>
     has_room need (nr_cpu_milli free + freed pr_cpu_milli vs) (nr_mem_milli free + freed pr_mem_milli vs)"

text \<open>Amounts small enough that adding up every running pod does not overflow.\<close>

definition amounts_fit :: "node_resources \<Rightarrow> victim list \<Rightarrow> bool" where
  "amounts_fit free vs \<longleftrightarrow>
     i128_ok (nr_cpu_milli free) \<and> i128_ok (nr_mem_milli free) \<and>
     list_all (\<lambda>v. request_ok (vi_requests v)) vs \<and>
     nr_cpu_milli free + freed pr_cpu_milli vs \<le> i128_max \<and>
     nr_mem_milli free + freed pr_mem_milli vs \<le> i128_max"

lemma freed_nonneg:
  "list_all (\<lambda>v. request_ok (vi_requests v)) vs \<Longrightarrow> 0 \<le> freed pr_cpu_milli vs \<and> 0 \<le> freed pr_mem_milli vs"
  by (induction vs) (auto simp: freed_def request_ok_def)

lemma evict_loop_prefix:
  assumes "amounts_fit free vs"
  obtains k where "k \<le> length vs"
    and "evict_loop need (nr_cpu_milli free) (nr_mem_milli free) vs acc =
      (nr_cpu_milli free + freed pr_cpu_milli (take k vs), nr_mem_milli free + freed pr_mem_milli (take k vs),
       acc @ map (\<lambda>v. pod_name (vi_pod v)) (take k vs))"
    and "\<forall>j < k. \<not> room_after need free (take j vs)"
    and "k < length vs \<longrightarrow> room_after need free (take k vs)"
  using assms
proof (induction vs arbitrary: free acc thesis)
  case Nil
  show ?case by (rule Nil.prems(1) [of 0]) (simp_all add: freed_def)
next
  case (Cons v vs)
  show ?case
  proof (cases "has_room need (nr_cpu_milli free) (nr_mem_milli free)")
    case True
    then show ?thesis
      by (intro Cons.prems(1) [of 0]) (simp_all add: freed_def room_after_def)
  next
    case False
    let ?r = "vi_requests v"
    define free' where "free' = \<lparr>nr_cpu_milli = nr_cpu_milli free + pr_cpu_milli ?r,
      nr_mem_milli = nr_mem_milli free + pr_mem_milli ?r\<rparr>"
    have nn: "0 \<le> freed pr_cpu_milli vs" "0 \<le> freed pr_mem_milli vs"
      using Cons.prems(2) freed_nonneg [of vs] by (simp_all add: amounts_fit_def)
    then have ok: "amounts_fit free' vs"
      using Cons.prems(2)
      by (auto simp: amounts_fit_def free'_def freed_def i128_ok_def request_ok_def)
    have wraps: "wrap_i128 (nr_cpu_milli free + pr_cpu_milli ?r) = nr_cpu_milli free'"
        "wrap_i128 (nr_mem_milli free + pr_mem_milli ?r) = nr_mem_milli free'"
      using ok by (simp_all add: amounts_fit_def free'_def)
    have shift: "room_after need free' xs = room_after need free (v # xs)" for xs
      by (simp add: room_after_def free'_def freed_def add.assoc)
    obtain k where k: "k \<le> length vs"
        "evict_loop need (nr_cpu_milli free') (nr_mem_milli free') vs (acc @ [pod_name (vi_pod v)]) =
          (nr_cpu_milli free' + freed pr_cpu_milli (take k vs), nr_mem_milli free' + freed pr_mem_milli (take k vs),
           (acc @ [pod_name (vi_pod v)]) @ map (\<lambda>v. pod_name (vi_pod v)) (take k vs))"
        "\<forall>j < k. \<not> room_after need free' (take j vs)"
        "k < length vs \<longrightarrow> room_after need free' (take k vs)"
      using Cons.IH [OF _ ok, where acc = "acc @ [pod_name (vi_pod v)]"] by blast
    show ?thesis
    proof (rule Cons.prems(1) [of "Suc k"])
      show "\<forall>j < Suc k. \<not> room_after need free (take j (v # vs))"
      proof (intro allI impI)
        fix j assume "j < Suc k"
        then show "\<not> room_after need free (take j (v # vs))"
          using k(3) False by (cases j) (simp_all add: shift, simp add: room_after_def freed_def)
      qed
      show "evict_loop need (nr_cpu_milli free) (nr_mem_milli free) (v # vs) acc =
        (nr_cpu_milli free + freed pr_cpu_milli (take (Suc k) (v # vs)),
         nr_mem_milli free + freed pr_mem_milli (take (Suc k) (v # vs)),
         acc @ map (\<lambda>v. pod_name (vi_pod v)) (take (Suc k) (v # vs)))"
        using k(2) False by (simp add: wraps) (simp add: free'_def freed_def add.assoc)
    qed (use k shift in auto)
  qed
qed

lemma freed_sort: "freed d (sort_key f vs) = freed d vs"
proof -
  let ?g = "\<lambda>v. d (vi_requests v)"
  have "sum_mset (mset (map ?g (sort_key f vs))) = sum_mset (mset (map ?g vs))" by simp
  then show ?thesis unfolding freed_def sum_mset_sum_list .
qed

lemma freed_filter_le:
  "list_all (\<lambda>v. request_ok (vi_requests v)) vs \<Longrightarrow>
    freed pr_cpu_milli (filter P vs) \<le> freed pr_cpu_milli vs \<and> freed pr_mem_milli (filter P vs) \<le> freed pr_mem_milli vs"
  by (induction vs) (auto simp: freed_def request_ok_def)

lemma amounts_fit_candidates:
  assumes "amounts_fit free running"
  shows "amounts_fit free (candidates incoming running)"
proof -
  let ?P = "\<lambda>v. vi_priority v < priority_of incoming \<and> \<not> is_preemption_exempt (vi_pod v)"
  have "list_all (\<lambda>v. request_ok (vi_requests v)) running" using assms by (simp add: amounts_fit_def)
  from freed_filter_le [OF this, of ?P] assms show ?thesis
    by (auto simp: amounts_fit_def candidates_def list_all_iff freed_sort)
qed

section \<open>Properties of placement\<close>

text \<open>The order of eviction: lowest priority first, then by name.\<close>

abbreviation eviction_order :: "victim \<Rightarrow> int \<times> string" where
  "eviction_order v \<equiv> (vi_priority v, pod_name (vi_pod v))"

text \<open>
  A list of the pods that may be evicted for a pod, in the order of eviction: each running pod of
  strictly lower priority that is not already terminating, pods of equal priority and name in
  the order they were given.
\<close>

definition lists_victims :: "json \<Rightarrow> victim list \<Rightarrow> victim list \<Rightarrow> bool" where
  "lists_victims incoming running vs \<longleftrightarrow>
     sorted (map eviction_order vs) \<and>
     (\<forall>k. filter (\<lambda>v. eviction_order v = k) vs =
        filter (\<lambda>v. eviction_order v = k \<and> vi_priority v < priority_of incoming \<and>
          oget (jget (vi_pod v) ''metadata'') ''deletionTimestamp'' = None) running)"

lemma candidates_list_victims: "lists_victims incoming running (candidates incoming running)"
proof -
  have "filter (\<lambda>v. eviction_order v = k) (candidates incoming running) =
      filter (\<lambda>v. eviction_order v = k \<and> vi_priority v < priority_of incoming \<and>
        oget (jget (vi_pod v) ''metadata'') ''deletionTimestamp'' = None) running" for k
    unfolding candidates_def sort_key_stable filter_filter is_preemption_exempt_def
    by (auto intro!: filter_cong)
  then show ?thesis by (simp add: lists_victims_def candidates_def)
qed


definition example_victim :: "string \<Rightarrow> int \<Rightarrow> int \<Rightarrow> victim" where
  "example_victim nm prio cpu =
     \<lparr>vi_pod = JObject [(''metadata'', JObject [(''name'', JString nm)])], vi_priority = prio,
      vi_requests = \<lparr>pr_cpu_milli = cpu, pr_mem_milli = 0, pr_unparseable = False\<rparr>\<rparr>"

definition example_incoming :: json where
  "example_incoming =
     JObject [(''spec'', JObject
       [(''containers'', JArray [JObject [(''resources'', JObject
           [(''requests'', JObject [(''cpu'', JString ''4'')])])]]),
        (''priority'', JNumber (PosInt 10))])]"

definition example_free :: node_resources where
  "example_free = \<lparr>nr_cpu_milli = 0, nr_mem_milli = 0\<rparr>"


text \<open>
  The plan is minimal in its order but not as a set: with nothing free and four cpus
  needed, it evicts a one-cpu pod and then the four-cpu pod whose eviction alone would
  have made room.
\<close>

theorem preemption_evicts_unneeded:
  "plan (\<lambda>_. []) example_incoming example_free [example_victim ''small'' 1 1000, example_victim ''large'' 2 4000] =
     Evict [''small'', ''large''] \<and>
   room_after (pod_requests_of (\<lambda>_. []) example_incoming) example_free [example_victim ''large'' 2 4000]"
  by code_simp

text \<open>
  C30. Required affinity and topology spread are exact. A node passes the affinity check exactly
  when, for every required term of the pod, the selector can be evaluated, the node is in a
  domain of the term's topology, and that domain has a matching pod (affinity) or has none
  (anti-affinity). It passes the spread check exactly when for every constraint that forbids
  scheduling, the node is in a domain, and placing the pod there leaves that domain at most
  the permitted skew above every existing domain.
\<close>

theorem affinity_and_spread_exact:
  "(check_affinity pod node placed nodes = None) =
     ((\<forall>t \<in> set (required_terms pod ''podAffinity'').
        selector_is_supported (at_selector t) \<and>
        (\<exists>d. topology_domain node (at_topology_key t) = Some d \<and>
           matching_in nodes placed (at_selector t) (at_topology_key t) d \<noteq> [])) \<and>
      (\<forall>t \<in> set (required_terms pod ''podAntiAffinity'').
        selector_is_supported (at_selector t) \<and>
        (\<exists>d. topology_domain node (at_topology_key t) = Some d \<and>
           matching_in nodes placed (at_selector t) (at_topology_key t) d = []))) \<and>
   (check_spread pod node placed nodes = None) =
     (\<forall>c \<in> set (spread_constraints pod). sp_when_unsatisfiable c = ''DoNotSchedule'' \<longrightarrow>
        selector_is_supported (sp_selector c) \<and>
        (\<exists>target. topology_domain node (sp_topology_key c) = Some target \<and>
          (\<forall>d \<in> domains nodes (sp_topology_key c).
            int (length (matching_in nodes placed (sp_selector c) (sp_topology_key c) target)) + 1
              - int (length (matching_in nodes placed (sp_selector c) (sp_topology_key c) d))
            \<le> sp_max_skew c)))"
proof -
  have skew: "1 \<le> sp_max_skew c" if "c \<in> set (spread_constraints pod)" for c
    using that by (rule spread_constraints_skew)
  show ?thesis
    unfolding check_affinity_None check_term_None check_spread_def first_some_None
    by (intro conjI arg_cong2 [where f = "(\<and>)"] ball_cong refl check_spread_one_None skew) simp_all
qed

definition example_zone_node :: "string \<Rightarrow> json" where
  "example_zone_node z =
     JObject [(''metadata'', JObject [(''labels'', JObject [(''zone'', JString z)])])]"

definition example_web :: json where
  "example_web = JObject [(''matchLabels'', JObject [(''app'', JString ''web'')])]"

definition example_spread_pod :: json where
  "example_spread_pod =
     JObject [(''spec'', JObject
       [(''affinity'', JObject [(''podAntiAffinity'', JObject
          [(''requiredDuringSchedulingIgnoredDuringExecution'', JArray
            [JObject [(''labelSelector'', example_web), (''topologyKey'', JString ''zone'')]])])]),
        (''topologySpreadConstraints'', JArray
          [JObject [(''labelSelector'', example_web), (''maxSkew'', JNumber (PosInt 1)),
                    (''topologyKey'', JString ''zone'')]])])]"

text \<open>With a web pod in zone b, another one may go to zone a: no web pod is there, and the skew stays in bounds.\<close>

theorem affinity_and_spread_exact_witness:
  "let nodes = [(''n1'', example_zone_node ''a''), (''n2'', example_zone_node ''b'')];
       placed = [\<lparr>pp_labels = JObject [(''app'', JString ''web'')], pp_node_name = ''n2''\<rparr>]
   in matching_in nodes placed example_web ''zone'' ''a'' = [] \<and>
      int (length (matching_in nodes placed example_web ''zone'' ''a'')) + 1
        - int (length (matching_in nodes placed example_web ''zone'' ''b'')) \<le> 1"
proof -
  let ?nodes = "[(''n1'', example_zone_node ''a''), (''n2'', example_zone_node ''b'')]"
  let ?placed = "[\<lparr>pp_labels = JObject [(''app'', JString ''web'')], pp_node_name = ''n2''\<rparr>]"
  have terms: "required_terms example_spread_pod ''podAntiAffinity'' =
      [\<lparr>at_selector = example_web, at_topology_key = ''zone''\<rparr>]"
    and cons: "spread_constraints example_spread_pod =
      [\<lparr>sp_max_skew = 1, sp_topology_key = ''zone'', sp_when_unsatisfiable = ''DoNotSchedule'',
        sp_selector = example_web\<rparr>]"
    and dom: "topology_domain (example_zone_node ''a'') ''zone'' = Some ''a''"
    and passes: "check_affinity example_spread_pod (example_zone_node ''a'') ?placed ?nodes = None"
      "check_spread example_spread_pod (example_zone_node ''a'') ?placed ?nodes = None"
    by code_simp+
  have b: "''b'' \<in> domains ?nodes ''zone''"
    by (auto simp: domains_def example_zone_node_def topology_domain_def)
  show ?thesis
    using affinity_and_spread_exact [of example_spread_pod "example_zone_node ''a''" ?placed ?nodes]
      passes b by (simp add: terms cons dom Let_def)
qed

end
