(* ===== verification/Handlers.thy ===== *)
theory Handlers
  imports Runs
begin

text \<open>
  What each kind of write means to its client: two-phase deletion behind finalizers, writes
  that change nothing, the identity an object keeps, the generation that counts changes of
  its specification, and transactions.
\<close>

section \<open>Reading a stamped object\<close>

lemma spec_of_update [simp]: "spec_of (update_metadata f v) = spec_of v"
  by (simp add: spec_of_def jget_update_metadata_other)

lemma metadata_members_json: "wf_json v \<Longrightarrow> wf_json (JObject (metadata_members v))"
proof (cases "jget v ''metadata''")
  case (Some w)
  assume "wf_json v"
  then have "wf_json w" using Some by (rule wf_json_jget)
  with Some show ?thesis by (cases w) (simp_all add: metadata_members_def)
qed (simp add: metadata_members_def)

lemma deletion_timestamp_members:
  "stampable v \<Longrightarrow> deletion_timestamp_of v =
    (case Option.bind (map_of (metadata_members v) ''deletionTimestamp'') as_str of
       Some s \<Rightarrow> (if s = [] then None else Some s) | None \<Rightarrow> None)"
  by (simp add: deletion_timestamp_of_def member2_metadata)

lemmas stamped_members = stamp_resource_version_def stamp_revision_def stamp_deletion_timestamp_def
  metadata_members_update

lemma member2_update_other:
  "(\<And>mm. map_of (f mm) k = map_of mm k) \<Longrightarrow>
    member2 ''metadata'' k (update_metadata f v) = member2 ''metadata'' k v"
  by (cases v) (auto simp: member2_def update_metadata_def split: option.splits json.splits)

lemma member2_stamps [simp]:
  "k \<noteq> ''resourceVersion'' \<Longrightarrow>
    member2 ''metadata'' k (stamp_resource_version r v) = member2 ''metadata'' k v"
  "k \<noteq> ''resourceVersion'' \<Longrightarrow> k \<noteq> ''generation'' \<Longrightarrow>
    member2 ''metadata'' k (stamp_revision r g v) = member2 ''metadata'' k v"
  "k \<noteq> ''deletionTimestamp'' \<Longrightarrow>
    member2 ''metadata'' k (stamp_deletion_timestamp ts v) = member2 ''metadata'' k v"
  "k \<noteq> ''uid'' \<Longrightarrow> k \<noteq> ''creationTimestamp'' \<Longrightarrow>
    member2 ''metadata'' k (stamp_identity E key r p v) = member2 ''metadata'' k v"
  by (simp_all add: stamp_resource_version_def stamp_revision_def stamp_deletion_timestamp_def
      stamp_identity_def Let_def member2_update_other split: option.split)

lemma has_finalizers_stamps [simp]:
  "has_finalizers (stamp_resource_version r v) = has_finalizers v"
  "has_finalizers (stamp_revision r g v) = has_finalizers v"
  "has_finalizers (stamp_deletion_timestamp ts v) = has_finalizers v"
  "has_finalizers (stamp_identity E key r p v) = has_finalizers v"
  by (simp_all add: has_finalizers_def)

lemma deletion_timestamp_stamps [simp]:
  "deletion_timestamp_of (stamp_resource_version r v) = deletion_timestamp_of v"
  "deletion_timestamp_of (stamp_revision r g v) = deletion_timestamp_of v"
  "deletion_timestamp_of (stamp_identity E key r p v) = deletion_timestamp_of v"
  by (simp_all add: deletion_timestamp_of_def)

lemma finalizers_released_stamps [simp]:
  "finalizers_released (stamp_revision r g v) = finalizers_released v"
  "finalizers_released (stamp_identity E key n p v) = finalizers_released v"
  by (simp_all add: finalizers_released_def)

lemma deletion_timestamp_stamped:
  "stampable v \<Longrightarrow> ts \<noteq> [] \<Longrightarrow> deletion_timestamp_of (stamp_deletion_timestamp ts v) = Some ts"
  by (simp add: deletion_timestamp_members stamped_members)

text \<open>An entry on a catalog that can read all it holds.\<close>

lemma apply_logged_eval:
  assumes "unreadable cat = []"
    and "dispatch E cat (lc_command entry) (on_identical_under (lc_semantics entry))
      (cat_revision cat + 1) = (cat1, out)"
  obtains cat' where "apply_logged E cat entry t i = (cat', out)" "resources cat' = resources cat1"
proof -
  obtain cat' out' where a: "apply_logged E cat entry t i = (cat', out')" by fastforce
  then have "out' = out"
    using apply_logged_dispatch [OF assms(1) a] assms(2) by auto
  moreover have "resources cat' = resources cat1"
    using apply_under_changes(2) [OF a [unfolded apply_logged_def]] dispatch_changes [OF assms(2)]
      \<open>out' = out\<close> by simp
  ultimately show thesis using a that by blast
qed

section \<open>Deletion behind finalizers\<close>

lemma apply_delete_terminating:
  assumes "map_of (resources cat) key = Some (live, vm)" and "has_finalizers live"
    and "check_precondition expected (Some vm)" and "stampable live" and "ts \<noteq> []"
    and "apply_delete cat key expected (Some ts) r = (cat', out)"
  shows "\<exists>v vm'. map_of (resources cat') key = Some (v, vm') \<and> has_finalizers v \<and>
    spec_of v = spec_of live \<and>
    deletion_timestamp_of v = Some (case deletion_timestamp_of live of Some d \<Rightarrow> d | None \<Rightarrow> ts)"
proof (cases "deletion_timestamp_of live")
  case None
  then have cat': "cat' = put_entry key (stamp_resource_version r (stamp_deletion_timestamp ts live))
      (bumped_at vm r) cat"
    using assms by (simp add: apply_delete_def store_and_emit_def)
  then have get: "map_of (resources cat') key =
      Some (stamp_resource_version r (stamp_deletion_timestamp ts live), bumped_at vm r)"
    by (simp add: put_entry_def)
  have "spec_of (stamp_resource_version r (stamp_deletion_timestamp ts live)) = spec_of live"
    by (simp add: stamp_resource_version_def stamp_deletion_timestamp_def)
  with get None assms(2,4,5) show ?thesis
    by (simp add: deletion_timestamp_stamped)
next
  case (Some d)
  with assms show ?thesis by (auto simp: apply_delete_def)
qed

lemma describe_all_removals:
  "describe_all m r cs \<Longrightarrow> c \<in> set cs \<Longrightarrow> ch_kind c = ChDelete \<Longrightarrow> \<not> has_finalizers (ch_value c)"
  by (induction cs arbitrary: m) (auto simp: describes_def)

lemma apply_put_releases:
  assumes "map_of (resources cat) key = Some (live, vm)"
    and "check_precondition expected (Some vm)" and "finalizers_released v"
    and "apply_put E cat key v expected oi r = (cat', out)"
  shows "out_op out = Deleted \<and> map_of (resources cat') key = None"
proof -
  let ?w = "stamp_identity E key (create_revision (bumped_at vm r)) (Some live) v"
  have rel: "finalizers_released ?w" using assms(3) by simp
  have "\<not> skips oi (Some live) ?w None"
    using rel by (cases oi) (simp_all add: skips_def)
  with assms rel show ?thesis
    by (auto simp: apply_put_def version_meta_at_def finalizer_release_removal_def remove_entry_def Let_def)
qed

text \<open>
  The object a put, a patch or an apply asks to have stored at a key, given what is stored there:
  none when the command is for another key or is refused.
\<close>

definition write_of ::
  "externals \<Rightarrow> patch_schema_env \<Rightarrow> resource_key \<Rightarrow> json \<Rightarrow> version_meta \<Rightarrow> resource_command \<Rightarrow> json option" where
  "write_of E penv key live vm cmd =
     (case cmd of
        CmdPut k w expected _ \<Rightarrow> if k = key \<and> check_precondition expected (Some vm) then Some w else None
      | CmdPatch k p pt meta expected _ \<Rightarrow>
          (if k \<noteq> key \<or> \<not> check_precondition expected (Some vm) then None
           else if pt = PtApply
           then (case meta of
                   None \<Rightarrow> None
                 | Some am \<Rightarrow>
                     (case apply_ssa (ext_text E) (Some live) p (am_manager am) (am_force am) (gvk_of_key key)
                             penv (am_time am) of
                        Inl _ \<Rightarrow> None
                      | Inr res \<Rightarrow> Some (merged res)))
           else (case patch_body_from_raw (ext_decode_ops E) pt p of
                   Inl _ \<Rightarrow> None
                 | Inr body \<Rightarrow>
                     (case patch_apply penv (gvk_of_key key) pt live body of
                        Inl _ \<Rightarrow> None
                      | Inr doc \<Rightarrow> Some doc)))
      | _ \<Rightarrow> None)"

lemma apply_ssa_releases:
  assumes "map_of (resources cat) key = Some (live, vm)" and "check_precondition expected (Some vm)"
    and "apply_ssa (ext_text E) (Some live) body (am_manager meta) (am_force meta) (gvk_of_key key)
      (patch_env cat) (am_time meta) = Inr res"
    and "finalizers_released (merged res)"
    and "apply_ssa_command E cat key body meta expected oi r = (cat', out)"
  shows "out_op out = Deleted \<and> map_of (resources cat') key = None"
proof -
  let ?w = "stamp_identity E key (create_revision (bumped_at vm r)) (Some live) (merged res)"
  have rel: "finalizers_released ?w" using assms(4) by simp
  have "\<not> skips oi (Some live) ?w (Some (am_manager meta))"
    using rel by (cases oi) (simp_all add: skips_def)
  with assms rel show ?thesis
    by (auto simp: apply_ssa_command_def version_meta_at_def finalizer_release_removal_def remove_entry_def Let_def)
qed

lemma write_releases:
  assumes "map_of (resources cat) key = Some (live, vm)"
    and "write_of E (patch_env cat) key live vm cmd = Some w" and "finalizers_released w"
    and "dispatch E cat cmd oi r = (cat', out)"
  shows "out_op out = Deleted \<and> map_of (resources cat') key = None"
proof (cases cmd)
  case (CmdPut k v expected rs)
  with assms(2-4) apply_put_releases [OF assms(1)] show ?thesis
    by (auto simp: write_of_def dispatch_def split: if_splits)
next
  case (CmdPatch k p pt meta expected rs)
  have k: "k = key" "check_precondition expected (Some vm)"
    using assms(2) by (auto simp: write_of_def CmdPatch split: if_splits)
  have ap: "apply_patch E cat key p pt meta expected oi r = (cat', out)"
    using assms(4) by (simp add: CmdPatch k dispatch_def)
  show ?thesis
  proof (cases "pt = PtApply")
    case True
    then show ?thesis
      using assms(2,3) ap apply_ssa_releases [OF assms(1) k(2)]
      by (auto simp: write_of_def CmdPatch k apply_patch_def split: option.splits sum.splits)
  next
    case False
    have "\<not> skips oi (Some live) w None" using assms(3) by (cases oi) (simp_all add: skips_def)
    with False show ?thesis
      using assms(1-3) ap k(2)
      by (auto simp: write_of_def CmdPatch k(1) apply_patch_def finalizer_release_removal_def
          remove_entry_def Let_def split: sum.splits)
  qed
qed (use assms(2) in \<open>simp_all add: write_of_def\<close>)

section \<open>Writes that change nothing\<close>

lemma filter_insert_ignored:
  "\<not> P k \<Longrightarrow> filter (\<lambda>(k, v). P k) (bm_insert k w m) = filter (\<lambda>(k, v). P k) m"
  by (induction m) auto

lemma objects_equal_insert_ignored:
  assumes "k \<in> set ignored"
  shows "objects_equal_except (JObject a) (JObject (bm_insert k w b)) ignored eq =
    objects_equal_except (JObject a) (JObject b) ignored eq"
proof -
  have "filter (\<lambda>(k, v). k \<notin> set ignored) (bm_insert k w b) = filter (\<lambda>(k, v). k \<notin> set ignored) b"
    using assms by (simp add: filter_insert_ignored)
  moreover have "map_of (bm_insert k w b) f = map_of b f" if "f \<notin> set ignored" for f
    using that assms by auto
  ultimately show ?thesis
    by (auto simp: objects_equal_except_def Let_def list_all_iff split: option.splits)
qed

lemma objects_equal_refl:
  assumes "bm_ok m" and "\<And>k v. eq k v v"
  shows "objects_equal_except (JObject m) (JObject m) ignored eq"
  using assms bm_ok_distinct [OF assms(1)]
  by (auto simp: objects_equal_except_def Let_def list_all_iff)

lemma bm_insert_length: "map_of m k \<noteq> None \<Longrightarrow> bm_ok m \<Longrightarrow> length (bm_insert k v m) = length m"
proof (induction m)
  case (Cons e m)
  obtain k' v' where e: "e = (k', v')" by (cases e) auto
  have "k < k' \<Longrightarrow> False"
    using Cons.prems by (fastforce simp: e bm_ok_Cons dest: map_of_SomeD)
  with Cons show ?case by (auto simp: e bm_ok_Cons split: if_splits)
qed simp

text \<open>A document and the same document with other computed metadata.\<close>

definition restamped :: "json \<Rightarrow> json \<Rightarrow> json \<Rightarrow> json" where
  "restamped rv gen v =
     update_metadata (\<lambda>mm. bm_insert ''resourceVersion'' rv (bm_insert ''generation'' gen mm)) v"

lemma metadata_object:
  assumes "stampable v" and "jget v ''metadata'' \<noteq> None"
  obtains m mm where "v = JObject m" "map_of m ''metadata'' = Some (JObject mm)"
  using assms by (cases v) (auto simp: stampable_def is_object_iff split: option.splits)

lemma unchanged_restamped:
  assumes "wf_json v" and "stampable v" and "jget v ''metadata'' \<noteq> None"
  shows "unchanged v (restamped rv gen v) None"
proof -
  from assms(2,3) obtain m mm where v: "v = JObject m" "map_of m ''metadata'' = Some (JObject mm)"
    by (rule metadata_object)
  let ?mm = "bm_insert ''resourceVersion'' rv (bm_insert ''generation'' gen mm)"
  define eq where "eq = (\<lambda>f p c.
    if f = ''managedFields'' then managed_fields_unchanged p c None else p = c)"
  have ok: "bm_ok m" "bm_ok mm"
    using assms(1) v wf_json_get [of m "''metadata''" "JObject mm"] by auto
  have "objects_equal_except (JObject mm) (JObject mm) computed_metadata eq"
    using ok(2) by (rule objects_equal_refl) (simp add: eq_def managed_fields_unchanged_def)
  then have meta: "objects_equal_except (JObject mm) (JObject ?mm) computed_metadata eq"
    by (simp add: objects_equal_insert_ignored computed_metadata_def)
  have len: "length (bm_insert ''metadata'' (JObject ?mm) m) = length m"
    using v(2) ok(1) by (simp add: bm_insert_length)
  have field: "b = JObject mm" if "(''metadata'', b) \<in> set m" for b
    using that v(2) bm_get_mem [OF ok(1)] by simp
  have other: "map_of m k = Some b" if "(k, b) \<in> set m" for k b
    using that bm_get_mem [OF ok(1)] by simp
  have "restamped rv gen v = JObject (bm_insert ''metadata'' (JObject ?mm) m)"
    using v by (simp add: restamped_def update_metadata_def)
  then show ?thesis
    unfolding unchanged_def v(1) objects_equal_except_def [of "JObject m"] eq_def [symmetric]
    using len meta field other by (auto simp: Let_def list_all_iff)
qed

lemma stamp_identity_same:
  assumes "wf_json w" and "stampable w"
    and "map_of (metadata_members w) ''uid'' = Some u" and "uid_set u"
    and "Option.bind (jget p ''metadata'') (\<lambda>m. jget m ''uid'') = Some u"
    and "\<forall>t. Option.bind (jget p ''metadata'') (\<lambda>m. jget m ''creationTimestamp'') = Some t \<longrightarrow>
      map_of (metadata_members w) ''creationTimestamp'' = Some t"
  shows "stamp_identity E key r (Some p) w = w"
proof -
  have "jget w ''metadata'' \<noteq> None" using assms(3) by (cases "jget w ''metadata''") (auto simp: metadata_members_def)
  with assms(2) obtain m mm where w: "w = JObject m" "map_of m ''metadata'' = Some (JObject mm)"
    by (rule metadata_object)
  then have mm: "metadata_members w = mm" by (simp add: metadata_members_def)
  have ok: "bm_ok m" "bm_ok mm"
    using assms(1) w wf_json_get [of m "''metadata''" "JObject mm"] by auto
  have "bm_insert ''uid'' u mm = mm"
    using bm.put_id [OF ok(2)] assms(3) mm by simp
  moreover have "bm_insert ''creationTimestamp'' t mm = mm"
    if "Option.bind (jget p ''metadata'') (\<lambda>m. jget m ''creationTimestamp'') = Some t" for t
    using bm.put_id [OF ok(2)] assms(6) that mm by simp
  moreover have "bm_insert ''metadata'' (JObject mm) m = m"
    using bm.put_id [OF ok(1) w(2)] .
  ultimately show ?thesis
    using assms(4,5) w by (auto simp: stamp_identity_def update_metadata_def Let_def split: option.splits)
qed

section \<open>Identity and generation\<close>

lemma stamp_identity_keeps:
  assumes "stampable v" and "member2 ''metadata'' ''uid'' p = Some u" and "uid_set u"
  shows "member2 ''metadata'' ''uid'' (stamp_identity E key r (Some p) v) = Some u"
    and "member2 ''metadata'' ''creationTimestamp'' p = Some t \<Longrightarrow>
      member2 ''metadata'' ''creationTimestamp'' (stamp_identity E key r (Some p) v) = Some t"
  using assms
  by (auto simp: stamp_identity_def member2_metadata [of "update_metadata _ _"] metadata_members_update
      Let_def member2_def [of _ _ p] split: option.splits)

lemma stampable_stamps [simp]:
  "stampable (stamp_identity E key r p v) = stampable v"
  "stampable (stamp_revision r g v) = stampable v"
  "stampable (stamp_resource_version r v) = stampable v"
  "stampable (stamp_deletion_timestamp ts v) = stampable v"
  by (simp_all add: stamp_identity_def stamp_revision_def stamp_resource_version_def
      stamp_deletion_timestamp_def)

lemma spec_of_stamps [simp]:
  "spec_of (stamp_identity E key r p v) = spec_of v"
  "spec_of (stamp_revision r g v) = spec_of v"
  "spec_of (stamp_resource_version r v) = spec_of v"
  "spec_of (stamp_deletion_timestamp ts v) = spec_of v"
  by (simp_all add: stamp_identity_def stamp_revision_def stamp_resource_version_def
      stamp_deletion_timestamp_def)

text \<open>The value of a write's change: the candidate with the revision and generation stamped.\<close>

lemma store_or_release_value:
  assumes "(case finalizer_release_removal cat key w prior r of
      Some res \<Rightarrow> res | None \<Rightarrow> store_and_emit cat key w prior vm op r) = (cat', out)"
    and "out_change out = Some c"
  shows "ch_value c = w"
  using assms by (auto simp: finalizer_release_removal_def store_and_emit_def Let_def split: if_splits)

lemma apply_put_value:
  assumes "apply_put E cat key v expected oi r = (cat', out)" and "out_change out = Some c"
  obtains n where "ch_value c = stamp_revision r
    (compute_generation_on_put (map_option fst (map_of (resources cat) key)) v)
    (stamp_identity E key n (map_option fst (map_of (resources cat) key)) v)"
proof -
  define pv where "pv = map_option fst (map_of (resources cat) key)"
  define pm where "pm = map_option snd (map_of (resources cat) key)"
  let ?n = "create_revision (version_meta_at pm r)"
  have "check_precondition expected pm" and "\<not> skips oi pv (stamp_identity E key ?n pv v) None"
    using assms by (auto simp: apply_put_def Let_def pv_def pm_def split: if_split_asm)
  then have "(case finalizer_release_removal cat key
        (stamp_revision r (compute_generation_on_put pv v) (stamp_identity E key ?n pv v)) pv r of
      Some res \<Rightarrow> res
    | None \<Rightarrow> store_and_emit cat key
        (stamp_revision r (compute_generation_on_put pv v) (stamp_identity E key ?n pv v)) pv
        (version_meta_at pm r) (if pv \<noteq> None then Replaced else Created) r) = (cat', out)"
    using assms(1) unfolding apply_put_def Let_def pv_def [symmetric] pm_def [symmetric]
    by (simp only: if_True if_False not_True_eq_False cong: if_cong)
  from store_or_release_value [OF this assms(2)] that show thesis by (simp add: pv_def)
qed

lemma apply_ssa_value:
  assumes "apply_ssa_command E cat key body meta expected oi r = (cat', out)"
    and "out_change out = Some c"
  obtains n doc where "ch_value c = stamp_revision r
    (compute_generation_on_put (map_option fst (map_of (resources cat) key)) doc)
    (stamp_identity E key n (map_option fst (map_of (resources cat) key)) doc)"
proof -
  define pv where "pv = map_option fst (map_of (resources cat) key)"
  define pm where "pm = map_option snd (map_of (resources cat) key)"
  define w where "w doc = stamp_identity E key (create_revision (version_meta_at pm r)) pv doc" for doc
  have pre: "check_precondition expected pm"
    using assms by (auto simp: apply_ssa_command_def pm_def Let_def split: if_split_asm)
  obtain so where so: "apply_ssa (ext_text E) pv body (am_manager meta) (am_force meta)
      (gvk_of_key key) (patch_env cat) (am_time meta) = Inr so"
    using assms pre by (auto simp: apply_ssa_command_def pv_def pm_def Let_def split: sum.splits)
  have "\<not> skips oi pv (w (merged so)) (Some (am_manager meta))"
    using assms so pre by (auto simp: apply_ssa_command_def pv_def pm_def w_def Let_def)
  then have "(case finalizer_release_removal cat key
        (stamp_revision r (compute_generation_on_put pv (w (merged so))) (w (merged so))) pv r of
      Some res \<Rightarrow> res
    | None \<Rightarrow> store_and_emit cat key
        (stamp_revision r (compute_generation_on_put pv (w (merged so))) (w (merged so))) pv
        (version_meta_at pm r) (if pv \<noteq> None then Patched else Created) r) = (cat', out)"
    using assms(1) pre so
    unfolding apply_ssa_command_def Let_def pv_def [symmetric] pm_def [symmetric] w_def
    by (simp only: if_True if_False not_True_eq_False sum.case cong: if_cong)
  from store_or_release_value [OF this assms(2)] have
    "ch_value c = stamp_revision r (compute_generation_on_put pv (w (merged so))) (w (merged so))" .
  moreover have "compute_generation_on_put pv (w doc) = compute_generation_on_put pv doc" for doc
    by (simp add: compute_generation_on_put_def w_def split: option.split)
  ultimately show thesis using that by (simp add: w_def pv_def)
qed

lemma apply_patch_value:
  assumes "apply_patch E cat key p pt meta expected oi r = (cat', out)" and "out_change out = Some c"
    and "pt \<noteq> PtApply"
  obtains existing vm doc where "map_of (resources cat) key = Some (existing, vm)"
    "ch_value c = stamp_revision r (compute_generation_on_put (Some existing) doc) doc"
proof -
  obtain existing vm where e: "map_of (resources cat) key = Some (existing, vm)"
    using assms by (auto simp: apply_patch_def split: option.splits)
  obtain body doc where b: "patch_body_from_raw (ext_decode_ops E) pt p = Inr body"
      "patch_apply (patch_env cat) (gvk_of_key key) pt existing body = Inr doc"
    using assms e by (auto simp: apply_patch_def split: if_splits sum.splits)
  have "check_precondition expected (Some vm)" and "\<not> skips oi (Some existing) doc None"
    using assms e b by (auto simp: apply_patch_def split: if_splits)
  then have "(case finalizer_release_removal cat key
        (stamp_revision r (compute_generation_on_put (Some existing) doc) doc) (Some existing) r of
      Some res \<Rightarrow> res
    | None \<Rightarrow> store_and_emit cat key
        (stamp_revision r (compute_generation_on_put (Some existing) doc) doc) (Some existing)
        (bumped_at vm r) Patched r) = (cat', out)"
    using assms(1,3) e b by (simp add: apply_patch_def Let_def)
  from store_or_release_value [OF this assms(2)] e that show thesis by blast
qed

lemma apply_delete_value:
  assumes "apply_delete cat key expected ts r = (cat', out)" and "out_change out = Some c"
  obtains live vm where "map_of (resources cat) key = Some (live, vm)"
    "ch_value c = live \<or> (\<exists>ts. ch_value c = stamp_resource_version r (stamp_deletion_timestamp ts live))"
proof -
  obtain live vm where e: "map_of (resources cat) key = Some (live, vm)"
    using assms by (auto simp: apply_delete_def split: option.splits if_splits)
  with assms that show thesis
    by (fastforce simp: apply_delete_def store_and_emit_def split: option.splits if_splits)
qed

lemma generation_of_stamp_revision:
  "stampable v \<Longrightarrow> g < 2 ^ 63 \<Longrightarrow> generation_of (stamp_revision r g v) = g"
  by (simp add: generation_of_def member2_metadata stamped_members)

lemma generation_of_other_stamps [simp]:
  "generation_of (stamp_resource_version r v) = generation_of v"
  "generation_of (stamp_deletion_timestamp ts v) = generation_of v"
  by (simp_all add: generation_of_def)

lemma write_generation:
  assumes "cas_of cmd = Some (key, expected)" and "dispatch E cat cmd oi r = (cat', out)"
    and "out_change out = Some c" and "map_of (resources cat) key = Some (p, vm)"
    and "stampable (ch_value c)" and "1 \<le> generation_of p" and "generation_of p < 2 ^ 63 - 1"
  shows "generation_of (ch_value c) =
    generation_of p + (if spec_of (ch_value c) = spec_of p then 0 else 1)"
proof -
  have stamped: "generation_of (ch_value c) =
      generation_of p + (if spec_of (ch_value c) = spec_of p then 0 else 1)"
    if "ch_value c = stamp_revision r (compute_generation_on_put (Some p) doc) doc'"
      "spec_of doc' = spec_of doc" for doc doc'
  proof -
    have "compute_generation_on_put (Some p) doc =
        generation_of p + (if spec_of (ch_value c) = spec_of p then 0 else 1)"
      using that assms(6) by (simp add: compute_generation_on_put_def Let_def max_def)
    with that assms(5,7) show ?thesis by (simp add: generation_of_stamp_revision split: if_splits)
  qed
  show ?thesis
  proof (cases cmd)
    case (CmdPut k v e rs)
    then show ?thesis
      using assms(1-4) apply_put_value [of E cat key v expected oi r cat' out c] stamped
      by (fastforce simp: dispatch_def)
  next
    case (CmdPatch k body pt am e rs)
    show ?thesis
    proof (cases "pt = PtApply")
      case True
      then obtain meta where "apply_ssa_command E cat key body meta expected oi r = (cat', out)"
        using CmdPatch assms(1-3) by (auto simp: dispatch_def apply_patch_def split: option.splits)
      from apply_ssa_value [OF this assms(3)] assms(4) stamped show ?thesis by fastforce
    next
      case False
      from CmdPatch assms(1,2) have "apply_patch E cat key body pt am expected oi r = (cat', out)"
        by (simp add: dispatch_def)
      from apply_patch_value [OF this assms(3) False] assms(4) stamped show ?thesis by fastforce
    qed
  next
    case (CmdDelete k e rs ts)
    from CmdDelete assms(1,2) have "apply_delete cat key expected ts r = (cat', out)"
      by (simp add: dispatch_def)
    from apply_delete_value [OF this assms(3)] assms(4) show ?thesis by fastforce
  next
    case CmdTxn
    then show ?thesis using assms(1) by simp
  qed
qed

lemma wf_update_metadata:
  assumes "wf_json v" and "\<And>mm. wf_json (JObject mm) \<Longrightarrow> wf_json (JObject (f mm))"
  shows "wf_json (update_metadata f v)"
proof (cases v)
  case (JObject m)
  show ?thesis
  proof (cases "map_of m ''metadata''")
    case None
    with assms(1) assms(2) [of "[]"] JObject show ?thesis
      by (simp only: update_metadata_def json.case option.case) (rule wf_json_insert, simp_all)
  next
    case (Some w)
    then have "wf_json w" using assms(1) JObject wf_json_get by blast
    with Some assms JObject show ?thesis
      by (cases w) (simp_all only: update_metadata_def json.case option.case wf_json_insert)
  qed
qed (use assms in \<open>simp_all add: update_metadata_def\<close>)

section \<open>Transactions\<close>

lemma apply_txn_ops_fold:
  "fst (apply_txn_ops E cat ops r) = fold (\<lambda>op cat. fst (apply_txn_op E cat op r)) ops cat"
proof (induction ops arbitrary: cat)
  case (Cons op ops)
  obtain cat1 out where "apply_txn_op E cat op r = (cat1, out)" by fastforce
  with Cons.IH [of cat1] show ?case by (auto simp: Let_def split: prod.split)
qed simp

section \<open>Properties of the writes\<close>

definition example_live :: json where
  "example_live =
     JObject [(''metadata'', JObject [(''finalizers'', JArray [JString ''f'']),
                                      (''uid'', JString ''u'')])]"

definition example_live_catalog :: resource_catalog where
  "example_live_catalog =
     (catalog_new 4 (\<lambda>_ _. LReplace))\<lparr>resources := [(example_config_map, example_live, created_at 1)]\<rparr>"

lemma example_live_get:
  "map_of (resources example_live_catalog) example_config_map = Some (example_live, created_at 1)"
  "unreadable example_live_catalog = []"
  "wf_json example_live" "stampable example_live" "has_finalizers example_live"
  "member2 ''metadata'' ''uid'' example_live = Some (JString ''u'')" "uid_set (JString ''u'')"
  by (simp_all add: example_live_catalog_def catalog_new_def)
    (simp_all add: example_live_def bm_ok_def stampable_def has_finalizers_def member2_def uid_set_def)

text \<open>
  C14. Deletion waits for finalizers: deleting an object that has finalizers does not remove
  it. It stays stored with its specification and finalizers and carries a deletion
  timestamp, the first one it was given. From then on no command of any kind records the
  removal of an object that has finalizers, and a put, a patch of any type or an apply that is
  not refused and asks for an object still marked for deletion and without finalizers removes
  it, and reports it deleted. (A write that takes the mark away with the finalizers is not such
  a write, and is stored.)
\<close>

theorem deletion_waits_for_finalizers:
  assumes "unreadable cat = []" and "map_of (resources cat) key = Some (live, vm)"
    and "has_finalizers live" and "stampable live"
    and "lc_command del = CmdDelete key None rs (Some ts)" and "ts \<noteq> []"
    and "cat' = fst (apply_logged E cat del t i)"
  shows "\<exists>v vm'. map_of (resources cat') key = Some (v, vm') \<and>
    has_finalizers v \<and> spec_of v = spec_of live \<and>
    deletion_timestamp_of v = Some (case deletion_timestamp_of live of Some d \<Rightarrow> d | None \<Rightarrow> ts) \<and>
    (\<forall>entry t' i'. case apply_logged E cat' entry t' i' of (cat'', out) \<Rightarrow>
      (\<forall>c \<in> set (out_changes out). ch_kind c = ChDelete \<longrightarrow> \<not> has_finalizers (ch_value c)) \<and>
      (\<forall>w. write_of E (patch_env cat') key v vm' (lc_command entry) = Some w \<and> finalizers_released w \<longrightarrow>
         out_op out = Deleted \<and> map_of (resources cat'') key = None))"
proof -
  obtain cat1 out1 where d: "dispatch E cat (lc_command del) (on_identical_under (lc_semantics del))
      (cat_revision cat + 1) = (cat1, out1)" by fastforce
  obtain cat2 where "apply_logged E cat del t i = (cat2, out1)" "resources cat2 = resources cat1"
    using apply_logged_eval [OF assms(1) d] .
  then have a: "apply_logged E cat del t i = (cat', out1)" "resources cat' = resources cat1"
    using assms(7) by simp_all
  have "apply_delete cat key None (Some ts) (cat_revision cat + 1) = (cat1, out1)"
    using d assms(5) by (simp add: dispatch_def)
  from apply_delete_terminating [OF assms(2,3) _ assms(4,6) this] obtain v vm' where
    v: "map_of (resources cat') key = Some (v, vm')" "has_finalizers v" "spec_of v = spec_of live"
      "deletion_timestamp_of v = Some (case deletion_timestamp_of live of Some d \<Rightarrow> d | None \<Rightarrow> ts)"
    using a(2) by (auto simp: check_precondition_def)
  have un: "unreadable cat' = []"
    using apply_under_changes(2) [OF a(1) [unfolded apply_logged_def]] assms(1) by simp
  have "case apply_logged E cat' entry t' i' of (cat'', out) \<Rightarrow>
      (\<forall>c \<in> set (out_changes out). ch_kind c = ChDelete \<longrightarrow> \<not> has_finalizers (ch_value c)) \<and>
      (\<forall>w. write_of E (patch_env cat') key v vm' (lc_command entry) = Some w \<and> finalizers_released w \<longrightarrow>
         out_op out = Deleted \<and> map_of (resources cat'') key = None)" for entry t' i'
  proof -
    obtain cat2 out2 where p: "dispatch E cat' (lc_command entry)
        (on_identical_under (lc_semantics entry)) (cat_revision cat' + 1) = (cat2, out2)" by fastforce
    obtain cat3 where a3: "apply_logged E cat' entry t' i' = (cat3, out2)" "resources cat3 = resources cat2"
      using apply_logged_eval [OF un p] .
    have "\<not> has_finalizers (ch_value c)" if "c \<in> set (out_changes out2)" "ch_kind c = ChDelete" for c
      by (rule describe_all_removals [OF conjunct1 [OF dispatch_changes [OF p]] that])
    moreover have "out_op out2 = Deleted \<and> map_of (resources cat3) key = None"
      if "write_of E (patch_env cat') key v vm' (lc_command entry) = Some w" "finalizers_released w" for w
      using write_releases [OF v(1) that p] a3(2) by simp
    ultimately show ?thesis unfolding a3(1) prod.case by (intro conjI ballI allI impI) simp_all
  qed
  with v show ?thesis by (intro exI [of _ v] exI [of _ vm']) simp
qed

theorem deletion_waits_for_finalizers_witness:
  "let cat' = fst (apply_logged example_ext example_live_catalog
      (proposed (cmd_delete ''now'' example_config_map Operator)) 1 1)
   in (\<exists>v vm'. map_of (resources cat') example_config_map = Some (v, vm') \<and> has_finalizers v) \<and>
      out_op (snd (apply_logged example_ext cat' (proposed (cmd_put example_config_map
        (JObject [(''metadata'', JObject [(''deletionTimestamp'', JString ''now'')])]) Controller)) 1 2)) = Deleted"
proof -
  let ?del = "proposed (cmd_delete ''now'' example_config_map Operator)"
  let ?w = "JObject [(''metadata'', JObject [(''deletionTimestamp'', JString ''now'')])]"
  let ?put = "proposed (cmd_put example_config_map ?w Controller)"
  have "lc_command ?del = CmdDelete example_config_map None Operator (Some ''now'')" "''now'' \<noteq> []"
    by (simp_all add: proposed_def cmd_delete_def cmd_delete_at_def)
  from deletion_waits_for_finalizers [OF example_live_get(2,1,5,4) this refl]
  obtain v vm' where v: "map_of (resources (fst (apply_logged example_ext example_live_catalog ?del 1 1)))
        example_config_map = Some (v, vm')" "has_finalizers v"
    and rel: "\<forall>w. write_of example_ext (patch_env (fst (apply_logged example_ext example_live_catalog ?del 1 1)))
          example_config_map v vm' (lc_command ?put) = Some w \<and> finalizers_released w \<longrightarrow>
        out_op (snd (apply_logged example_ext (fst (apply_logged example_ext example_live_catalog ?del 1 1))
          ?put 1 2)) = Deleted"
    by (fastforce simp: case_prod_beta)
  have "write_of example_ext penv example_config_map v vm' (lc_command ?put) = Some ?w" for penv
    by (simp add: write_of_def proposed_def cmd_put_def check_precondition_def)
  moreover have "finalizers_released ?w"
    by (simp add: finalizers_released_def deletion_timestamp_of_def has_finalizers_def member2_def)
  ultimately show ?thesis using v rel by (simp add: Let_def)
qed

text \<open>
  C15. A revision means a change: under the current rules, putting back the object a client
  just read commits nothing, whatever \<open>resourceVersion\<close> and \<open>generation\<close> the body carries:
  the catalog is untouched but for the applied position, and the answer is \<open>Unchanged\<close>. The
  object has its uid and is not one whose last finalizer has gone.
\<close>

theorem rewriting_commits_nothing:
  assumes "unreadable cat = []" and "map_of (resources cat) key = Some (v, vm)"
    and "wf_json v" and "wf_json rv" and "wf_json gen" and "stampable v"
    and "member2 ''metadata'' ''uid'' v = Some u" and "uid_set u" and "\<not> finalizers_released v"
    and "check_precondition expected (Some vm)"
    and "entry = proposed (CmdPut key (restamped rv gen v) expected rs)"
  shows "apply_logged E cat entry t i =
    (cat\<lparr>last_applied_term := t, last_applied_index := i\<rparr>, no_change Unchanged)"
proof -
  let ?w = "restamped rv gen v"
  have meta: "jget v ''metadata'' \<noteq> None" using assms(7) by (cases "jget v ''metadata''") (auto simp: member2_def)
  have wf: "wf_json ?w"
    unfolding restamped_def using assms(4,5) by (intro wf_update_metadata [OF assms(3)] wf_json_insert)
  have uid: "map_of (metadata_members ?w) k = map_of (metadata_members v) k"
    if "k \<noteq> ''resourceVersion''" "k \<noteq> ''generation''" for k
    using that assms(6) by (simp add: restamped_def metadata_members_update)
  have "stamp_identity E key n (Some v) ?w = ?w" for n
  proof (rule stamp_identity_same [OF wf _ _ assms(8)])
    show "stampable ?w" using assms(6) by (simp add: restamped_def)
    show "map_of (metadata_members ?w) ''uid'' = Some u"
      using uid [of "''uid''"] assms(6,7) by (simp add: member2_metadata)
    show "Option.bind (jget v ''metadata'') (\<lambda>m. jget m ''uid'') = Some u"
      using assms(7) by (simp add: member2_def)
    show "\<forall>t. Option.bind (jget v ''metadata'') (\<lambda>m. jget m ''creationTimestamp'') = Some t \<longrightarrow>
        map_of (metadata_members ?w) ''creationTimestamp'' = Some t"
      using uid [of "''creationTimestamp''"] member2_metadata [OF assms(6), of "''creationTimestamp''"]
      by (simp add: member2_def)
  qed
  moreover have "finalizers_released ?w = finalizers_released v"
    by (simp add: finalizers_released_def has_finalizers_def deletion_timestamp_of_def restamped_def
        member2_update_other)
  then have "skips OnSkip (Some v) ?w None"
    using unchanged_restamped [OF assms(3,6) meta] assms(9) by (simp add: skips_def)
  ultimately show ?thesis
    using assms(1,2,10,11)
    by (simp add: apply_logged_def apply_under_def unreadable_touched_by_def dispatch_def apply_put_def
        proposed_def current_semantics_def Let_def)
qed

theorem rewriting_commits_nothing_witness:
  "apply_logged example_ext example_live_catalog
      (proposed (CmdPut example_config_map (restamped JNull JNull example_live) (Some 1) Operator)) 3 7 =
    (example_live_catalog\<lparr>last_applied_term := 3, last_applied_index := 7\<rparr>, no_change Unchanged)"
  by (rule rewriting_commits_nothing [OF example_live_get(2,1,3) _ _ example_live_get(4,6,7) _ _ refl])
    (simp_all add: finalizers_released_def example_live_get check_precondition_def created_at_def)

text \<open>
  C20. An object keeps its identity: a put or a server-side apply over a stored object leaves
  its uid, and its creation timestamp, what they were, whatever the body says.
\<close>

theorem identity_is_kept:
  assumes "map_of (resources cat) key = Some (p, vm)"
    and "member2 ''metadata'' ''uid'' p = Some u" and "uid_set u"
    and "res \<in> {apply_put E cat key body expected oi r, apply_ssa_command E cat key body meta expected oi r}"
    and "out_change (snd res) = Some c" and "stampable (ch_value c)"
  shows "member2 ''metadata'' ''uid'' (ch_value c) = Some u \<and>
    (member2 ''metadata'' ''creationTimestamp'' p = Some t \<longrightarrow>
     member2 ''metadata'' ''creationTimestamp'' (ch_value c) = Some t)"
proof -
  obtain cat' out where res: "res = (cat', out)" by fastforce
  have c: "out_change out = Some c" using assms(5) res by simp
  have "apply_put E cat key body expected oi r = (cat', out) \<or>
      apply_ssa_command E cat key body meta expected oi r = (cat', out)"
    using assms(4) res by auto
  then obtain n g doc where "ch_value c = stamp_revision r g (stamp_identity E key n (Some p) doc)"
    using apply_put_value [OF _ c, of E cat key body expected oi r cat']
      apply_ssa_value [OF _ c, of E cat key body meta expected oi r cat'] assms(1) by fastforce
  with assms(6) stamp_identity_keeps [OF _ assms(2,3), where v = doc and E = E and key = key and r = n] show ?thesis by simp
qed

theorem identity_is_kept_witness:
  "\<exists>c. out_change (snd (apply_put example_ext example_live_catalog example_config_map
        (JObject [(''metadata'', JObject [(''uid'', JString ''other'')])]) None OnSkip 2)) = Some c \<and>
      member2 ''metadata'' ''uid'' (ch_value c) = Some (JString ''u'')"
proof -
  let ?r = "apply_put example_ext example_live_catalog example_config_map
        (JObject [(''metadata'', JObject [(''uid'', JString ''other'')])]) None OnSkip 2"
  have "out_change (snd ?r) \<noteq> None" by code_simp
  then obtain c where c: "out_change (snd ?r) = Some c" by blast
  have "stampable (ch_value (the (out_change (snd ?r))))" by code_simp
  with c have "stampable (ch_value c)" by simp
  from identity_is_kept [OF example_live_get(1,6,7) _ c this] c show ?thesis by blast
qed

text \<open>
  C19. The generation of an object counts the changes of its specification: any command on an
  object, of whatever kind (a status patch, a put, an apply, a delete that marks it), leaves the
  generation alone when the specification is the same and otherwise raises it by one.
\<close>

theorem generation_counts_spec_changes:
  assumes "cas_of (lc_command entry) = Some (key, expected)" and "unreadable cat = []"
    and "apply_logged E cat entry t i = (cat', out)" and "out_change out = Some c"
    and "map_of (resources cat) key = Some (p, vm)" and "stampable (ch_value c)"
    and "1 \<le> generation_of p" and "generation_of p < 2 ^ 63 - 1"
  shows "generation_of (ch_value c) =
    generation_of p + (if spec_of (ch_value c) = spec_of p then 0 else 1)"
  using apply_logged_dispatch [OF assms(2,3)] write_generation [OF assms(1) _ assms(4-8)] by blast


theorem generation_counts_spec_changes_witness:
  "\<exists>c. out_change (snd (apply_logged example_ext (example_cat 1)
        (proposed (cmd_patch example_config_map (JObject [(''spec'', JObject [])]) Operator)) 1 2)) = Some c \<and>
      generation_of (ch_value c) = 2"
proof -
  let ?e = "proposed (cmd_patch example_config_map (JObject [(''spec'', JObject [])]) Operator)"
  let ?r = "apply_logged example_ext (example_cat 1) ?e 1 2"
  let ?p = "the (map_of (resources (example_cat 1)) example_config_map)"
  have ev: "out_change (snd ?r) \<noteq> None" "stampable (ch_value (the (out_change (snd ?r))))"
      "map_of (resources (example_cat 1)) example_config_map \<noteq> None" "generation_of (fst ?p) = 1"
      "spec_of (fst ?p) = None" "spec_of (ch_value (the (out_change (snd ?r)))) \<noteq> None"
    by code_simp+
  obtain c where c: "out_change (snd ?r) = Some c" using ev(1) by blast
  obtain p vm where p: "map_of (resources (example_cat 1)) example_config_map = Some (p, vm)"
    using ev(3) by fastforce
  have "cas_of (lc_command ?e) = Some (example_config_map, None)" "unreadable (example_cat 1) = []"
    by code_simp+
  from generation_counts_spec_changes [OF this surjective_pairing c p] ev c p show ?thesis by simp
qed

text \<open>
  C18. A transaction is atomic: the branch is chosen by comparing against the catalog before
  any of its operations, the operations then run in order, only keys of that branch change, and
  every change carries the one next revision, or no revision is used when nothing changed.
\<close>

theorem transaction_is_atomic:
  assumes "unreadable cat = []" and "lc_command entry = CmdTxn compares success failure rs"
    and "apply_logged E cat entry t i = (cat', out)"
    and "branch = (if list_all (eval_compare cat) compares then success else failure)"
    and "r = cat_revision cat + 1"
  shows "resources cat' = resources (fold (\<lambda>op c. fst (apply_txn_op E c op r)) branch cat) \<and>
    ch_key ` set (out_changes out) \<subseteq> txn_op_key ` set branch \<and>
    ch_revision ` set (out_changes out) \<subseteq> {r} \<and>
    cat_revision cat' = (if out_changes out = [] then cat_revision cat else r)"
proof -
  obtain cs where ops: "apply_txn_ops E cat branch r = (fst (apply_txn_ops E cat branch r), cs)"
    by (metis surjective_pairing)
  obtain d where "apply_txn E cat compares success failure r = (d, out)"
    using apply_logged_dispatch [OF assms(1,3)] assms(2,5) by (auto simp: dispatch_def)
  then have d: "d = fst (apply_txn_ops E cat branch r)" and cs: "out_changes out = cs"
    using ops unfolding apply_txn_def assms(4) [symmetric] Let_def
    by (auto split: prod.splits list.splits)
  note u = apply_under_changes [OF assms(3) [unfolded apply_logged_def]]
  have "resources cat' = resources d"
    using u(2) apply_txn_ops_changes [OF ops] cs d by simp
  moreover have "cat_revision cat' = (if out_changes out = [] then cat_revision cat else r)"
    using assms(5) u(2) by (auto simp: cat_revision_def split: list.splits)
  moreover have "ch_revision ` set (out_changes out) \<subseteq> {r}"
    using describe_all_revision [OF u(1)] assms(5)
    by (auto simp: cat_revision_def wh_next_revision_def next_rev_def)
  ultimately show ?thesis
    using apply_txn_ops_keys [OF ops] cs d by (simp add: apply_txn_ops_fold)
qed

definition example_txn :: logged_command where
  "example_txn =
     proposed (CmdTxn [NotExists example_secret] [TxnPut example_secret example_live, TxnDelete example_config_map None]
       [] Operator)"

theorem transaction_is_atomic_witness:
  "resources (fst (apply_logged example_ext (example_cat 1) example_txn 1 2)) =
    resources (fold (\<lambda>op c. fst (apply_txn_op example_ext c op 2))
      [TxnPut example_secret example_live, TxnDelete example_config_map None] (example_cat 1))"
proof -
  have ev: "unreadable (example_cat 1) = []" "list_all (eval_compare (example_cat 1)) [NotExists example_secret]"
      "cat_revision (example_cat 1) + 1 = 2"
    by code_simp+
  have "lc_command example_txn = CmdTxn [NotExists example_secret]
      [TxnPut example_secret example_live, TxnDelete example_config_map None] [] Operator"
    by (simp add: example_txn_def proposed_def)
  from transaction_is_atomic [OF ev(1) this surjective_pairing refl refl] ev show ?thesis
    by (simp add: numeral_2_eq_2)
qed

text \<open>
  A merge patch is not held to the identity: it can drop the uid of a stored object, which
  the store then keeps without one. The comment on applying a command says every mutation
  preserves or sets it; only puts and server-side applies do.
\<close>

theorem patch_drops_uid:
  "member2 ''metadata'' ''uid'' example_live = Some (JString ''u'') \<and>
   map_option (\<lambda>(v, _). member2 ''metadata'' ''uid'' v)
     (map_of (resources (fst (apply_logged example_ext example_live_catalog
       (proposed (cmd_patch example_config_map
         (JObject [(''metadata'', JObject [(''uid'', JNull)])]) Operator)) 1 1))) example_config_map) =
   Some None"
  by code_simp

end
