(* ===== verification/Proposal.thy ===== *)
theory Proposal
  imports Handlers
begin

text \<open>
  The write path in front of the catalog: what an object is given when it is born
  (\<open>engenho-types/src/birth.rs\<close>, \<open>engenho-types/src/pod.rs\<close>), the writes a node refuses
  because it cannot seal or read what they touch (\<open>engenho-store/src/fjall_store.rs\<close>), and
  \<open>StoreMesh::propose\<close> (\<open>engenho-store/src/mesh.rs\<close>), which stamps births, logs the command
  and reports what the state machine did with it.

  Raft is a parameter: it decides whether and where a logged command is applied, and what
  the proposer is told. A proposer that is told of a failure cannot know whether the entry
  was applied, so a failure carries the position at which it was, if it was.
\<close>

section \<open>Entries of a JSON object\<close>

definition on_object :: "(json_map \<Rightarrow> json_map) \<Rightarrow> json \<Rightarrow> json" where
  "on_object f v = (case v of JObject m \<Rightarrow> JObject (f m) | _ \<Rightarrow> v)"

definition force_object :: "json \<Rightarrow> json" where
  "force_object v = (if is_object v then v else JObject [])"

text \<open>\<open>entry(k).or_insert(d)\<close>, and the same followed by an update of the value in place.\<close>

definition entry_or :: "string \<Rightarrow> json \<Rightarrow> json_map \<Rightarrow> json_map" where
  "entry_or k d m = (case map_of m k of Some _ \<Rightarrow> m | None \<Rightarrow> bm_insert k d m)"

definition entry_mut :: "string \<Rightarrow> json \<Rightarrow> (json \<Rightarrow> json) \<Rightarrow> json_map \<Rightarrow> json_map" where
  "entry_mut k d f m = bm_insert k (f (case map_of m k of Some v \<Rightarrow> v | None \<Rightarrow> d)) m"

section \<open>What a pod is born with\<close>

definition quantity_at :: "json \<Rightarrow> string \<Rightarrow> string \<Rightarrow> json option" where
  "quantity_at c kind_name res =
     Option.bind (jget c ''resources'') (\<lambda>r. Option.bind (jget r kind_name) (\<lambda>m. jget m res))"

definition spec_containers :: "json option \<Rightarrow> json list" where
  "spec_containers spec =
     concat (List.map_filter (\<lambda>f. Option.bind (Option.bind spec (\<lambda>s. jget s f)) as_array)
       [''containers'', ''initContainers''])"

definition qos_step :: "json \<times> string \<Rightarrow> bool \<times> bool \<Rightarrow> bool \<times> bool" where
  "qos_step cr acc =
     (let (c, res) = cr; (any, guaranteed) = acc;
          request = quantity_at c ''requests'' res;
          limit = quantity_at c ''limits'' res;
          any' = (any \<or> request \<noteq> None \<or> limit \<noteq> None);
          effective_request = (case request of Some q \<Rightarrow> Some q | None \<Rightarrow> limit)
      in (any', if limit = None \<or> effective_request \<noteq> limit then False else guaranteed))"

definition qos_class :: "json option \<Rightarrow> string" where
  "qos_class spec =
     (let containers = spec_containers spec;
          (any, guaranteed) =
            fold qos_step
              (concat (map (\<lambda>c. map (Pair c) [''cpu'', ''memory'']) containers))
              (False, containers \<noteq> [])
      in if \<not> any then ''BestEffort'' else if guaranteed then ''Guaranteed'' else ''Burstable'')"

definition stamp_birth_status :: "json \<Rightarrow> json" where
  "stamp_birth_status body =
     (let qos = qos_class (jget body ''spec'')
      in on_object
           (entry_mut ''status'' (JObject [])
             (\<lambda>status. on_object
                (\<lambda>st. entry_or ''qosClass'' (JString qos) (entry_or ''phase'' (JString ''Pending'') st))
                (force_object status)))
           body)"

definition default_container_annotation :: string where
  "default_container_annotation = ''kubectl.kubernetes.io/default-container''"

definition default_container :: "json \<Rightarrow> string option" where
  "default_container pod =
     (let names = List.map_filter (\<lambda>c. Option.bind (jget c ''name'') as_str)
            (case Option.bind (member2 ''spec'' ''containers'' pod) as_array of Some cs \<Rightarrow> cs | None \<Rightarrow> []);
          annotated = (case Option.bind (Option.bind (member2 ''metadata'' ''annotations'' pod)
                              (\<lambda>a. jget a default_container_annotation)) as_str of
                         Some d \<Rightarrow> (if d \<in> set names then Some d else None)
                       | None \<Rightarrow> None)
      in case annotated of
           Some d \<Rightarrow> Some d
         | None \<Rightarrow> (case names of nm # _ \<Rightarrow> Some nm | [] \<Rightarrow> None))"

section \<open>Births\<close>

fun creation_timestamp_is_unset :: "json option \<Rightarrow> bool" where
  "creation_timestamp_is_unset None = True"
| "creation_timestamp_is_unset (Some JNull) = True"
| "creation_timestamp_is_unset (Some (JString s)) = (s = [])"
| "creation_timestamp_is_unset (Some (JObject m)) = (m = [])"
| "creation_timestamp_is_unset _ = False"

text \<open>An update through \<open>metadata_mut\<close>: nothing when the body is not an object.\<close>

definition metadata_mut :: "(json_map \<Rightarrow> json_map) \<Rightarrow> json \<Rightarrow> json" where
  "metadata_mut f body =
     on_object (entry_mut ''metadata'' (JObject []) (\<lambda>md. on_object f (force_object md))) body"

definition field_unset :: "json option \<Rightarrow> bool" where
  "field_unset slot =
     (case slot of None \<Rightarrow> True | Some JNull \<Rightarrow> True | Some (JString s) \<Rightarrow> s = [] | Some _ \<Rightarrow> False)"

definition fill_if_unset :: "string \<Rightarrow> string \<Rightarrow> json_map \<Rightarrow> json_map" where
  "fill_if_unset field v meta =
     (if field_unset (map_of meta field) \<and> v \<noteq> [] then bm_insert field (JString v) meta else meta)"

definition fill_creation_timestamp :: "string \<Rightarrow> json_map \<Rightarrow> json_map" where
  "fill_creation_timestamp now meta =
     (if creation_timestamp_is_unset (map_of meta ''creationTimestamp'')
      then bm_insert ''creationTimestamp'' (JString now) meta else meta)"

definition stamp_creation_timestamp :: "string \<Rightarrow> json \<Rightarrow> json" where
  "stamp_creation_timestamp now body = metadata_mut (fill_creation_timestamp now) body"

definition stamp_claim_phase :: "json \<Rightarrow> json" where
  "stamp_claim_phase body =
     on_object
       (entry_mut ''status'' (JObject [])
         (\<lambda>status. on_object
            (\<lambda>st. if field_unset (map_of st ''phase'')
                  then bm_insert ''phase'' (JString ''Pending'') st else st)
            (force_object status)))
       body"

definition add_kubernetes_finalizer :: "json \<Rightarrow> json" where
  "add_kubernetes_finalizer v =
     (case v of
        JArray fs \<Rightarrow>
          (if \<exists>f \<in> set fs. as_str f = Some ''kubernetes'' then v
           else JArray (fs @ [JString ''kubernetes'']))
      | _ \<Rightarrow> v)"

definition stamp_namespace_defaults :: "json \<Rightarrow> json" where
  "stamp_namespace_defaults body =
     (let nm = Option.bind (member2 ''metadata'' ''name'' body) as_str
      in on_object
           (\<lambda>obj.
              let obj1 = entry_mut ''status'' (JObject [])
                           (on_object (entry_or ''phase'' (JString ''Active''))) obj;
                  obj2 = entry_mut ''spec'' (JObject [])
                           (on_object (entry_mut ''finalizers'' (JArray []) add_kubernetes_finalizer)) obj1
              in case nm of
                   None \<Rightarrow> obj2
                 | Some n \<Rightarrow>
                     entry_mut ''metadata'' (JObject [])
                       (on_object (entry_mut ''labels'' (JObject [])
                          (on_object (entry_or ''kubernetes.io/metadata.name'' (JString n))))) obj2)
           body)"

definition stamp_born :: "resource_key \<Rightarrow> string \<Rightarrow> json \<Rightarrow> json" where
  "stamp_born key now body =
     (if \<not> is_object body then body
      else
        (let body1 = metadata_mut
               (\<lambda>meta. let meta1 = fill_if_unset ''name'' (name key) meta
                       in case namespace key of
                            Some ns \<Rightarrow> fill_if_unset ''namespace'' ns meta1
                          | None \<Rightarrow> meta1) body;
             body2 = stamp_creation_timestamp now body1
         in if group key \<noteq> [] then body2
            else if kind key = ''Pod'' then stamp_birth_status body2
            else if kind key = ''Namespace'' then stamp_namespace_defaults body2
            else if kind key = ''PersistentVolumeClaim'' then stamp_claim_phase body2
            else body2))"

section \<open>Proposing a command\<close>

datatype store_error =
    ConfigInvalid string
  | InitializeFailed string
  | ClientWriteFailed string
  | Fatal string
  | PersistFailed string
  | NoLeader
  | LeaderUnreachable nat string
  | SecretUnreadable string seal_fault

fun store_error_kind :: "store_error \<Rightarrow> string" where
  "store_error_kind (ConfigInvalid _) = ''config_invalid''"
| "store_error_kind (InitializeFailed _) = ''initialize_failed''"
| "store_error_kind (ClientWriteFailed _) = ''client_write_failed''"
| "store_error_kind (Fatal _) = ''fatal''"
| "store_error_kind (PersistFailed _) = ''persist_failed''"
| "store_error_kind NoLeader = ''no_leader''"
| "store_error_kind (LeaderUnreachable _ _) = ''leader_unreachable''"
| "store_error_kind (SecretUnreadable _ _) = ''secret_unreadable''"

datatype mesh_store = MemoryStore | FjallStore secret_sealer

definition fjall_write_refusal ::
  "secret_sealer \<Rightarrow> resource_catalog \<Rightarrow> resource_command \<Rightarrow> (string \<times> seal_fault) option" where
  "fjall_write_refusal s cat cmd =
     (case (write_fault s, find is_sealed_kind (command_keys cmd)) of
        (Some fault, Some key) \<Rightarrow> Some (label key, fault)
      | _ \<Rightarrow> map_option (\<lambda>(key, fault). (label key, fault)) (unreadable_touched_by cat cmd))"

definition write_refusal ::
  "mesh_store \<Rightarrow> resource_catalog \<Rightarrow> resource_command \<Rightarrow> (string \<times> seal_fault) option" where
  "write_refusal store cat cmd =
     (case store of MemoryStore \<Rightarrow> None | FjallStore s \<Rightarrow> fjall_write_refusal s cat cmd)"

definition stamp_birth :: "resource_catalog \<Rightarrow> string \<Rightarrow> resource_key \<Rightarrow> json \<Rightarrow> json" where
  "stamp_birth cat now key v =
     (if map_of (resources cat) key = None then stamp_born key now v else v)"

fun stamp_birth_op :: "resource_catalog \<Rightarrow> string \<Rightarrow> txn_op \<Rightarrow> txn_op" where
  "stamp_birth_op cat now (TxnPut key v) = TxnPut key (stamp_birth cat now key v)"
| "stamp_birth_op cat now op = op"

fun stamp_births :: "resource_catalog \<Rightarrow> string \<Rightarrow> resource_command \<Rightarrow> resource_command" where
  "stamp_births cat now (CmdPut key v expected why) = CmdPut key (stamp_birth cat now key v) expected why"
| "stamp_births cat now (CmdTxn compares success failure why) =
     CmdTxn compares (map (stamp_birth_op cat now) success) (map (stamp_birth_op cat now) failure) why"
| "stamp_births cat now cmd = cmd"

datatype raft_answer = Committed nat nat | Failed store_error "(nat \<times> nat) option"

definition propose ::
  "externals \<Rightarrow> mesh_store \<Rightarrow> resource_catalog \<Rightarrow> string \<Rightarrow> resource_command \<Rightarrow> raft_answer
    \<Rightarrow> resource_catalog \<times> (store_error, apply_outcome) result" where
  "propose E store cat now cmd answer =
     (case write_refusal store cat cmd of
        Some (subject, fault) \<Rightarrow> (cat, Inl (SecretUnreadable subject fault))
      | None \<Rightarrow>
          (let entry = proposed (stamp_births cat now cmd)
           in case answer of
                Committed t i \<Rightarrow> (case apply_logged E cat entry t i of (cat', out) \<Rightarrow> (cat', Inr out))
              | Failed e None \<Rightarrow> (cat, Inl e)
              | Failed e (Some (t, i)) \<Rightarrow> (fst (apply_logged E cat entry t i), Inl e)))"

end
