(* ===== verification/Scheduling.thy ===== *)
theory Scheduling
  imports Placement Proposal Reads
begin

text \<open>
  The scheduler over the store: which namespaces it places pods from
  (\<open>engenho-scheduler/src/scope.rs\<close>), its configuration (\<open>config_bridge.rs\<close>, \<open>error.rs\<close>) and
  its reconcile tick (\<open>scheduler.rs\<close>). A tick lists the pods and nodes, opens the ledger
  over every pod, derives each node's readiness from its Lease, and then, pod by pod,
  filters, picks, proposes a patch of the pod and debits the ledger.

  The tick reads the store at one moment. What other writers do to the store before each
  proposal of the tick, and how Raft answers that proposal, are the parameters
  \<open>rf_others\<close> and \<open>rf_answer\<close>.
\<close>

section \<open>Scope and configuration\<close>

datatype namespace_scope = ScopeAll | ScopeOnly string

definition scope_from_name :: "string \<Rightarrow> namespace_scope" where
  "scope_from_name nm = (if nm = [] then ScopeAll else ScopeOnly nm)"

definition list_filter :: "namespace_scope \<Rightarrow> string option" where
  "list_filter sc = (case sc of ScopeAll \<Rightarrow> None | ScopeOnly ns \<Rightarrow> Some ns)"

definition scope_from_option :: "string option \<Rightarrow> namespace_scope" where
  "scope_from_option ns = (case ns of None \<Rightarrow> ScopeAll | Some nm \<Rightarrow> scope_from_name nm)"

datatype strategy_kind = RoundRobin | BinPack | Affinity

datatype scheduler_error =
    SeStore store_error
  | SeNoSchedulableNodes
  | SeInvalidPodMetadata
  | SeUnsupportedStrategy strategy_kind
  | SeZeroTickInterval
  | SeInternal string

fun scheduler_error_kind :: "scheduler_error \<Rightarrow> string" where
  "scheduler_error_kind (SeStore _) = ''store''"
| "scheduler_error_kind SeNoSchedulableNodes = ''no_schedulable_nodes''"
| "scheduler_error_kind SeInvalidPodMetadata = ''invalid_pod_metadata''"
| "scheduler_error_kind (SeUnsupportedStrategy _) = ''unsupported_strategy''"
| "scheduler_error_kind SeZeroTickInterval = ''zero_tick_interval''"
| "scheduler_error_kind (SeInternal _) = ''internal''"

record scheduler_config =
  cfg_strategy :: strategy_kind
  cfg_namespace :: string
  cfg_tick_interval_seconds :: "32 word"

text \<open>The round-robin strategy starts with its cursor at zero.\<close>

definition strategy_for :: "strategy_kind \<Rightarrow> (scheduler_error, 64 word) result" where
  "strategy_for k =
     (case k of
        RoundRobin \<Rightarrow> Inr 0
      | BinPack \<Rightarrow> Inl (SeUnsupportedStrategy BinPack)
      | Affinity \<Rightarrow> Inl (SeUnsupportedStrategy Affinity))"

record configured_scheduler =
  cs_scope :: namespace_scope
  cs_cursor :: "64 word"
  cs_fallback_secs :: nat

definition from_config :: "scheduler_config \<Rightarrow> (scheduler_error, configured_scheduler) result" where
  "from_config cfg =
     (case strategy_for (cfg_strategy cfg) of
        Inl e \<Rightarrow> Inl e
      | Inr cursor \<Rightarrow>
          (let scope = scope_from_name (cfg_namespace cfg)
           in if cfg_tick_interval_seconds cfg = 0 then Inl SeZeroTickInterval
              else Inr \<lparr>cs_scope = scope, cs_cursor = cursor,
                        cs_fallback_secs = unat (cfg_tick_interval_seconds cfg)\<rparr>))"

section \<open>The report of a tick\<close>

record binding =
  bd_key :: resource_key
  bd_node :: string

record tick_report =
  tr_pods_examined :: nat
  tr_nodes_available :: nat
  tr_pending_pods :: nat
  tr_unschedulable :: nat
  tr_unschedulable_written :: nat
  tr_no_nodes_observed :: nat
  tr_bound :: "binding list"

definition left_untouched :: "tick_report \<Rightarrow> nat" where
  "left_untouched r = tr_no_nodes_observed r + (tr_unschedulable r - tr_unschedulable_written r)"

definition tick_report_to_string :: "tick_report \<Rightarrow> string" where
  "tick_report_to_string r =
     show_nat (tr_pending_pods r) @ '' pending '' @ [CHR 0xE2, CHR 0x86, CHR 0x92] @ '' '' @
     show_nat (length (tr_bound r)) @ '' bound, '' @ show_nat (tr_unschedulable r) @
     '' unschedulable ('' @ show_nat (tr_unschedulable_written r) @ '' written), '' @
     show_nat (tr_no_nodes_observed r) @ '' with no node observed''"

record reconcile_report =
  rr_examined :: nat
  rr_changed :: nat
  rr_skipped :: nat
  rr_note :: "string option"

definition controller_report :: "tick_report \<Rightarrow> reconcile_report" where
  "controller_report r =
     \<lparr>rr_examined = tr_pods_examined r,
      rr_changed = length (tr_bound r) + tr_unschedulable_written r,
      rr_skipped = left_untouched r,
      rr_note = (if tr_pending_pods r > 0 then Some (tick_report_to_string r) else None)\<rparr>"

section \<open>The tick\<close>

definition is_pending :: "json \<Rightarrow> bool" where
  "is_pending pod =
     (case ostr (oget (jget pod ''spec'') ''nodeName'') of Some s \<Rightarrow> s = [] | None \<Rightarrow> True)"

definition unschedulable_condition :: "diagnosis \<Rightarrow> json" where
  "unschedulable_condition d =
     JObject [(''message'', JString (diagnosis_to_string d)), (''reason'', JString ''Unschedulable''),
              (''status'', JString ''False''), (''type'', JString ''PodScheduled'')]"

definition already_marked :: "json \<Rightarrow> json \<Rightarrow> bool" where
  "already_marked pod condition \<longleftrightarrow>
     ostr (jpath [''status'', ''phase''] pod) = Some ''Pending'' \<and>
     (case Option.bind (jpath [''status'', ''conditions''] pod) as_array of
        None \<Rightarrow> False
      | Some cs \<Rightarrow>
          list_ex (\<lambda>c. list_all (\<lambda>k. jget c k = jget condition k)
                    [''type'', ''status'', ''reason'', ''message'']) cs)"

definition bind_patch :: "string \<Rightarrow> json" where
  "bind_patch node = JObject [(''spec'', JObject [(''nodeName'', JString node)])]"

definition unschedulable_patch :: "json \<Rightarrow> json" where
  "unschedulable_patch condition =
     JObject [(''status'', JObject [(''conditions'', JArray [condition]), (''phase'', JString ''Pending'')])]"

text \<open>What surrounds a tick: the store's externals and backend, the clock, the age of a timestamp, Raft.\<close>

record tick_env =
  te_ext :: externals
  te_store :: mesh_store
  te_float :: float_text
  te_age :: "string \<Rightarrow> int option"
  te_now :: string
  te_scope :: namespace_scope
  rf_others :: "nat \<Rightarrow> resource_catalog \<Rightarrow> resource_catalog"
  rf_answer :: "nat \<Rightarrow> raft_answer"

record tick_state =
  ts_catalog :: resource_catalog
  ts_ledger :: node_ledger
  ts_cursor :: "64 word"
  ts_report :: tick_report
  ts_calls :: nat

definition store_list :: "resource_catalog \<Rightarrow> string \<Rightarrow> string option \<Rightarrow> (resource_key \<times> json) list" where
  "store_list cat k ns =
     (case list_at_revision cat (scope_new '''' ''v1'' k ns) of Some (items, _) \<Rightarrow> items | None \<Rightarrow> [])"

definition observe :: "tick_env \<Rightarrow> resource_catalog \<Rightarrow> json list \<Rightarrow> json list" where
  "observe env cat nodes =
     map (\<lambda>node. observed_project (te_age env) node
            (case node_name_of node of Some nm \<Rightarrow> cat_get cat (lease_key nm) | None \<Rightarrow> None)
            (te_now env)) nodes"

definition propose_patch ::
  "tick_env \<Rightarrow> resource_key \<Rightarrow> json \<Rightarrow> tick_state \<Rightarrow> tick_state \<times> scheduler_error option" where
  "propose_patch env key patch st =
     (case propose (te_ext env) (te_store env) (rf_others env (ts_calls st) (ts_catalog st)) (te_now env)
             (cmd_patch key patch Scheduler) (rf_answer env (ts_calls st)) of
        (cat', ans) \<Rightarrow>
          (st\<lparr>ts_catalog := cat', ts_calls := ts_calls st + 1\<rparr>,
           case ans of Inl e \<Rightarrow> Some (SeStore e) | Inr _ \<Rightarrow> None))"

definition report_update :: "(tick_report \<Rightarrow> tick_report) \<Rightarrow> tick_state \<Rightarrow> tick_state" where
  "report_update f st = st\<lparr>ts_report := f (ts_report st)\<rparr>"

definition mark_unschedulable ::
  "tick_env \<Rightarrow> resource_key \<Rightarrow> json \<Rightarrow> diagnosis \<Rightarrow> tick_state \<Rightarrow> tick_state \<times> (scheduler_error, bool) result" where
  "mark_unschedulable env key pod d st =
     (let condition = unschedulable_condition d
      in if already_marked pod condition then (st, Inr False)
         else case propose_patch env key (unschedulable_patch condition) st of
                (st', Some e) \<Rightarrow> (st', Inl e)
              | (st', None) \<Rightarrow> (st', Inr True))"

definition bind_pod ::
  "tick_env \<Rightarrow> resource_key \<Rightarrow> pod_requests \<Rightarrow> feasible \<Rightarrow> tick_state \<Rightarrow> tick_state \<times> scheduler_error option" where
  "bind_pod env key req f st =
     (let (node, cursor) = rr_pick (ts_cursor st) f
      in case propose_patch env key (bind_patch node) (st\<lparr>ts_cursor := cursor\<rparr>) of
           (st', Some e) \<Rightarrow> (st', Some e)
         | (st', None) \<Rightarrow>
             (report_update (\<lambda>r. r\<lparr>tr_bound := tr_bound r @ [\<lparr>bd_key = key, bd_node = node\<rparr>]\<rparr>)
                (st'\<lparr>ts_ledger := ledger_debit node req (ts_ledger st')\<rparr>), None))"

definition schedule_pod ::
  "tick_env \<Rightarrow> json list \<Rightarrow> resource_key \<Rightarrow> json \<Rightarrow> tick_state \<Rightarrow> tick_state \<times> scheduler_error option" where
  "schedule_pod env observed key pod st =
     (if \<not> is_pending pod then (st, None)
      else
        (let st0 = report_update (\<lambda>r. r\<lparr>tr_pending_pods := tr_pending_pods r + 1\<rparr>) st;
             req = pod_requests_of (te_float env) pod
         in case filter_nodes pod req observed (ts_ledger st) of
              FFeasible f \<Rightarrow> bind_pod env key req f st0
            | FInfeasible d \<Rightarrow>
                (case mark_unschedulable env key pod d
                        (report_update (\<lambda>r. r\<lparr>tr_unschedulable := tr_unschedulable r + 1\<rparr>) st0) of
                   (st', Inl e) \<Rightarrow> (st', Some e)
                 | (st', Inr written) \<Rightarrow>
                     ((if written
                       then report_update (\<lambda>r. r\<lparr>tr_unschedulable_written := tr_unschedulable_written r + 1\<rparr>) st'
                       else st'), None))
            | FNoNodesObserved \<Rightarrow>
                (report_update (\<lambda>r. r\<lparr>tr_no_nodes_observed := tr_no_nodes_observed r + 1\<rparr>) st0, None)))"

fun tick_loop ::
  "tick_env \<Rightarrow> json list \<Rightarrow> (resource_key \<times> json) list \<Rightarrow> tick_state \<Rightarrow> tick_state \<times> scheduler_error option" where
  "tick_loop env observed [] st = (st, None)"
| "tick_loop env observed ((key, pod) # pods) st =
     (case schedule_pod env observed key pod st of
        (st', Some e) \<Rightarrow> (st', Some e)
      | (st', None) \<Rightarrow> tick_loop env observed pods st')"

definition node_values :: "resource_catalog \<Rightarrow> json list" where
  "node_values cat = map snd (store_list cat ''Node'' None)"

text \<open>The books over every pod of the cluster, whatever the scope.\<close>

definition cluster_ledger :: "float_text \<Rightarrow> resource_catalog \<Rightarrow> node_ledger" where
  "cluster_ledger ft cat = ledger_seed ft (node_values cat) (map snd (store_list cat ''Pod'' None))"

definition scope_pods :: "tick_env \<Rightarrow> resource_catalog \<Rightarrow> (resource_key \<times> json) list" where
  "scope_pods env cat = store_list cat ''Pod'' (list_filter (te_scope env))"

definition tick_start :: "tick_env \<Rightarrow> resource_catalog \<Rightarrow> 64 word \<Rightarrow> tick_state" where
  "tick_start env cat cursor =
     \<lparr>ts_catalog = cat, ts_ledger = cluster_ledger (te_float env) cat, ts_cursor = cursor,
      ts_report = \<lparr>tr_pods_examined = length (scope_pods env cat),
        tr_nodes_available = length (node_values cat), tr_pending_pods = 0, tr_unschedulable = 0,
        tr_unschedulable_written = 0, tr_no_nodes_observed = 0, tr_bound = []\<rparr>,
      ts_calls = 0\<rparr>"

definition tick ::
  "tick_env \<Rightarrow> resource_catalog \<Rightarrow> 64 word \<Rightarrow> tick_state \<times> (scheduler_error, tick_report) result" where
  "tick env cat cursor =
     (case tick_loop env (observe env cat (node_values cat)) (scope_pods env cat) (tick_start env cat cursor) of
        (st, Some e) \<Rightarrow> (st, Inl e)
      | (st, None) \<Rightarrow> (st, Inr (ts_report st)))"

section \<open>Listing\<close>

lemma store_list_items:
  "store_list cat k ns =
    filter (\<lambda>(key, _). scope_contains (scope_new '''' ''v1'' k ns) key) (map item_of (resources cat))"
  by (simp add: store_list_def list_at_revision_def scope_range_filter filter_map_items)

lemma store_list_mem:
  assumes "bm_ok (resources cat)"
  shows "(key, v) \<in> set (store_list cat k ns) \<longleftrightarrow>
    scope_contains (scope_new '''' ''v1'' k ns) key \<and> cat_get cat key = Some v"
proof -
  have "(key, v) \<in> set (map item_of (resources cat)) \<longleftrightarrow> (\<exists>vm. (key, v, vm) \<in> set (resources cat))"
    by (force simp: item_of_def)
  also have "\<dots> \<longleftrightarrow> cat_get cat key = Some v"
    using bm_get_mem [OF assms, of key] by (auto simp: cat_get_def)
  finally show ?thesis by (auto simp: store_list_items)
qed

lemma store_list_distinct:
  assumes "bm_ok (resources cat)"
  shows "distinct (map fst (store_list cat k ns))"
proof -
  have "distinct (map fst (map item_of (resources cat)))"
    using bm_ok_distinct [OF assms] by (simp add: item_of_def case_prod_beta' comp_def)
  then show ?thesis
    unfolding store_list_items by (rule distinct_map_filter)
qed

section \<open>What a merge patch does to the store\<close>

definition stored_patch :: "revision \<Rightarrow> json \<Rightarrow> json \<Rightarrow> json" where
  "stored_patch r v p =
     stamp_revision r (compute_generation_on_put (Some v) (merge_rfc7396 v p)) (merge_rfc7396 v p)"

definition patch_entry :: "revision \<Rightarrow> json \<Rightarrow> stored \<Rightarrow> resource_key \<Rightarrow> stored" where
  "patch_entry r p m key =
     (case map_of m key of
        None \<Rightarrow> m
      | Some (v, vm) \<Rightarrow>
          (if skips OnSkip (Some v) (merge_rfc7396 v p) None then m
           else if finalizers_released (merge_rfc7396 v p) then bm_remove key m
           else bm_insert key (stored_patch r v p, bumped_at vm r) m))"

lemma unreadable_touched_put_patch [simp]:
  "unreadable_touched_by cat (cmd_patch key p why) = map_option (Pair key) (secret_fault cat key)"
  by (auto simp: unreadable_touched_by_def cmd_patch_def cmd_patch_typed_def secret_fault_def
      split: option.split)

lemma patch_dispatched:
  "resources (fst (dispatch E cat (cmd_patch key p why) OnSkip r)) = patch_entry r p (resources cat) key"
  "unreadable (fst (dispatch E cat (cmd_patch key p why) OnSkip r)) = unreadable cat"
proof -
  have "dispatch E cat (cmd_patch key p why) OnSkip r =
      (case map_of (resources cat) key of
         None \<Rightarrow> (cat, no_change NoOp)
       | Some (v, vm) \<Rightarrow>
           (if skips OnSkip (Some v) (merge_rfc7396 v p) None then (cat, no_change Unchanged)
            else (case finalizer_release_removal cat key (stored_patch r v p) (Some v) r of
                    Some out \<Rightarrow> out
                  | None \<Rightarrow> store_and_emit cat key (stored_patch r v p) (Some v) (bumped_at vm r) Patched r)))"
    by (simp add: dispatch_def cmd_patch_def cmd_patch_typed_def apply_patch_def patch_body_from_raw_def
        patch_apply_def check_precondition_def stored_patch_def Let_def split: option.split)
  then show "resources (fst (dispatch E cat (cmd_patch key p why) OnSkip r)) = patch_entry r p (resources cat) key"
    "unreadable (fst (dispatch E cat (cmd_patch key p why) OnSkip r)) = unreadable cat"
    by (simp_all add: patch_entry_def finalizer_release_removal_def store_and_emit_def put_entry_def
        remove_entry_def stored_patch_def split: option.split)
qed

lemma patch_applied:
  assumes "apply_logged E cat (proposed (cmd_patch key p why)) t i = (cat', out)"
  shows "unreadable cat' = unreadable cat"
    and "resources cat' = (if secret_fault cat key \<noteq> None then resources cat
      else patch_entry (cat_revision cat + 1) p (resources cat) key)"
  using assms patch_dispatched [of E cat key p why "cat_revision cat + 1"]
  by (auto simp: apply_logged_def apply_under_def proposed_def current_semantics_def Let_def
      cat_revision_def wh_next_revision_def next_rev_def split: prod.splits option.splits)

section \<open>Reading a patched pod\<close>

lemma jpath_fun: "jpath [] = Some" "jpath (k # ks) = (\<lambda>v. Option.bind (jget v k) (jpath ks))"
  by (rule ext, simp)+

lemma jget_stored_patch:
  "k \<noteq> ''metadata'' \<Longrightarrow> jget (stored_patch r v p) k = jget (merge_rfc7396 v p) k"
  by (simp add: stored_patch_def stamp_revision_def stamp_resource_version_def jget_update_metadata_other)

lemma jget_merge_bind:
  "jget (merge_rfc7396 v (bind_patch n)) k =
    (if k = ''spec''
     then Some (merge_rfc7396 (or_null (jget v ''spec'')) (JObject [(''nodeName'', JString n)]))
     else jget v k)"
  by (cases v) (auto simp: bind_patch_def or_null_def split: option.split)

lemma jget_merge_node_name:
  "jget (merge_rfc7396 (or_null s) (JObject [(''nodeName'', JString n)])) k =
    (if k = ''nodeName'' then Some (JString n) else oget s k)"
  by (cases s; cases "the s") (auto simp: or_null_def)

lemma jget_merge_mark:
  "k \<noteq> ''status'' \<Longrightarrow> jget (merge_rfc7396 v (unschedulable_patch c)) k = jget v k"
  by (cases v) (auto simp: unschedulable_patch_def)

lemma annotations_stored_patch:
  assumes "jget (merge_rfc7396 v p) ''metadata'' = jget v ''metadata''"
  shows "jpath [''metadata'', ''annotations''] (stored_patch r v p) = jpath [''metadata'', ''annotations''] v"
proof -
  have "member2 ''metadata'' ''annotations'' (stored_patch r v p) =
      member2 ''metadata'' ''annotations'' (merge_rfc7396 v p)"
    by (simp add: stored_patch_def)
  also have "\<dots> = member2 ''metadata'' ''annotations'' v"
    using assms by (simp add: member2_def)
  finally show ?thesis by (simp add: member2_def jpath_fun)
qed

lemma is_pending_unbound: "is_pending pod \<longleftrightarrow> bound_node_of pod = None"
  by (auto simp: is_pending_def bound_node_of_def split: option.splits if_splits)

lemma bound_node_of_spec: "jget v ''spec'' = jget w ''spec'' \<Longrightarrow> bound_node_of v = bound_node_of w"
  by (simp add: bound_node_of_def)

lemma pod_requests_cong:
  assumes "\<And>k. k \<noteq> ''nodeName'' \<Longrightarrow> oget (jget v ''spec'') k = oget (jget w ''spec'') k"
  shows "pod_requests_of ft v = pod_requests_of ft w"
proof -
  have lists: "listed (jget v ''spec'') k = listed (jget w ''spec'') k" if "k \<noteq> ''nodeName''" for k
    using assms [OF that] by (simp add: listed_def del: Option.bind_assoc)
  have level: "Option.bind (jget u ''spec'') (jpath [''resources'', ''requests'']) =
      Option.bind (oget (jget u ''spec'') ''resources'') (jpath [''requests''])" for u
    by (simp add: jpath_fun)
  show ?thesis
    using assms [of "''resources''"] assms [of "''overhead''"] lists [of "''containers''"]
      lists [of "''initContainers''"]
    by (simp only: pod_requests_of_def Let_def level) simp
qed

lemma bound_pod:
  "pod_requests_of ft (stored_patch r v (bind_patch n)) = pod_requests_of ft v"
  "bound_node_of (stored_patch r v (bind_patch n)) = (if n = [] then None else Some n)"
  "k \<noteq> ''spec'' \<Longrightarrow> k \<noteq> ''metadata'' \<Longrightarrow> jget (stored_patch r v (bind_patch n)) k = jget v k"
proof -
  show "pod_requests_of ft (stored_patch r v (bind_patch n)) = pod_requests_of ft v"
    by (rule pod_requests_cong)
      (simp add: jget_stored_patch jget_merge_bind jget_merge_node_name del: merge_rfc7396.simps)
  show "bound_node_of (stored_patch r v (bind_patch n)) = (if n = [] then None else Some n)"
    by (simp add: bound_node_of_def jget_stored_patch jget_merge_bind jget_merge_node_name
        del: merge_rfc7396.simps)
qed (simp add: jget_stored_patch jget_merge_bind)

lemma marked_pod:
  "jget (stored_patch r v (unschedulable_patch c)) ''spec'' = jget v ''spec''"
  "jpath [''metadata'', ''annotations''] (stored_patch r v (unschedulable_patch c)) =
    jpath [''metadata'', ''annotations''] v"
  "already_marked (stored_patch r v (unschedulable_patch c)) c"
proof -
  have status: "\<exists>s. jget (merge_rfc7396 v (unschedulable_patch c)) ''status'' = Some s \<and>
      jget s ''phase'' = Some (JString ''Pending'') \<and> jget s ''conditions'' = Some (JArray [c])"
    by (cases v) (auto simp: unschedulable_patch_def split: option.split json.split)
  then show "already_marked (stored_patch r v (unschedulable_patch c)) c"
    by (auto simp: already_marked_def jget_stored_patch)
  show "jpath [''metadata'', ''annotations''] (stored_patch r v (unschedulable_patch c)) =
      jpath [''metadata'', ''annotations''] v"
    by (rule annotations_stored_patch) (simp add: jget_merge_mark)
qed (simp add: jget_stored_patch jget_merge_mark)

text \<open>The filter reads of a pod its specification and its annotations.\<close>

definition same_needs :: "json \<Rightarrow> json \<Rightarrow> bool" where
  "same_needs v w \<longleftrightarrow> jget v ''spec'' = jget w ''spec'' \<and>
     jpath [''metadata'', ''annotations''] v = jpath [''metadata'', ''annotations''] w"

lemma same_needs_filter:
  assumes "same_needs v w"
  shows "filter_nodes v req nodes ledger = filter_nodes w req nodes ledger"
proof -
  have spec: "jget v ''spec'' = jget w ''spec''"
    and labels: "labelled v [''metadata'', ''annotations''] = labelled w [''metadata'', ''annotations'']"
    using assms by (auto simp: same_needs_def labelled_def fun_eq_iff)
  have bindable: "bindable_name v node = bindable_name w node" for node
    using spec by (simp add: bindable_name_def node_name_matches_def split: option.split)
  have "plugin_check p v req node ledger = plugin_check p w req node ledger" for p node
    using spec labels bindable
    by (cases p) (simp_all add: matches_node_selector_def
        infer_requirements_def container_images_def untolerated_taint_def tolerates_def Let_def split: option.split)
  then have "check_all ps v req node ledger = check_all ps w req node ledger" for ps node
    by (induction ps) (simp_all split: sum.split)
  then have "admit v req node ledger = admit w req node ledger" for node
    by (simp add: admit_def bindable split: sum.split)
  then have "filter_loop v req ledger nodes acc = filter_loop w req ledger nodes acc" for acc
    by (induction nodes arbitrary: acc) (auto split: sum.split)
  then show ?thesis by (simp add: filter_nodes_def)
qed

lemma same_needs_requests: "same_needs v w \<Longrightarrow> pod_requests_of ft v = pod_requests_of ft w"
  by (rule pod_requests_cong) (simp add: same_needs_def)

end
