(* ===== verification/Ticks.thy ===== *)
theory Ticks
  imports Scheduling
begin

text \<open>
  What the scheduler's ticks achieve: the books of the cluster over a tick, the outcome of a
  tick whose proposals commit, the report, and that repeated ticks come to rest. The cases of
  one pod's turn (\<open>schedule_podE\<close>) carry the proofs.
\<close>

section \<open>The books of the store\<close>

abbreviation pod_scope :: list_scope where
  "pod_scope \<equiv> scope_new '''' ''v1'' ''Pod'' None"

definition entry_load :: "float_text \<Rightarrow> (pod_requests \<Rightarrow> int) \<Rightarrow> string \<Rightarrow> resource_key \<times> json \<times> version_meta \<Rightarrow> int" where
  "entry_load ft d n e =
     (case e of (key, v, _) \<Rightarrow>
        if scope_contains pod_scope key \<and> occupies n v then d (pod_requests_of ft v) else 0)"

definition node_load :: "float_text \<Rightarrow> (pod_requests \<Rightarrow> int) \<Rightarrow> string \<Rightarrow> stored \<Rightarrow> int" where
  "node_load ft d n m = sum_list (map (entry_load ft d n) m)"

lemma charged_load:
  "sum_list (map d (charged ft n (map snd (store_list cat ''Pod'' None)))) = node_load ft d n (resources cat)"
proof -
  have "sum_list (map d (map (pod_requests_of ft) (filter (occupies n)
      (map snd (filter (\<lambda>(key, _). scope_contains pod_scope key) (map item_of m)))))) = node_load ft d n m" for m
    by (induction m) (auto simp: node_load_def entry_load_def item_of_def)
  then show ?thesis by (simp add: store_list_items charged_def)
qed

lemma sum_bm_insert:
  fixes f :: "'k::linorder \<times> 'v \<Rightarrow> int"
  assumes "bm_ok m" and "map_of m k = Some v"
  shows "sum_list (map f (bm_insert k w m)) = sum_list (map f m) - f (k, v) + f (k, w)"
  using assms
proof (induction m)
  case (Cons x m)
  obtain k' v' where x: "x = (k', v')" by (cases x)
  show ?case
  proof (cases "k = k'")
    case False
    then have "(k, v) \<in> set m" using Cons.prems(2) x by (auto dest: map_of_SomeD)
    then have "k' < k" using Cons.prems(1) x by (auto simp: bm_ok_Cons)
    then have "\<not> k < k'" by simp
    with Cons False x show ?thesis by (simp add: bm_ok_Cons)
  qed (use Cons x in simp)
qed simp

lemma sum_bm_remove:
  fixes f :: "'k::linorder \<times> 'v \<Rightarrow> int"
  assumes "bm_ok m" and "map_of m k = Some v"
  shows "sum_list (map f (bm_remove k m)) = sum_list (map f m) - f (k, v)"
  using assms
proof (induction m)
  case (Cons x m)
  obtain k' v' where x: "x = (k', v')" by (cases x)
  show ?case
  proof (cases "k = k'")
    case True
    then have "bm_remove k m = m"
      using Cons.prems x by (induction m) (auto simp: bm_remove_def bm_ok_Cons)
    with True Cons.prems x show ?thesis by (simp add: bm_remove_def)
  qed (use Cons x in \<open>auto simp: bm_remove_def bm_ok_Cons\<close>)
qed simp

definition pod_dims :: "(pod_requests \<Rightarrow> int) set" where
  "pod_dims = {pr_cpu_milli, pr_mem_milli}"

lemma pod_dim_nonneg: "d \<in> pod_dims \<Longrightarrow> 0 \<le> d (pod_requests_of ft v)"
  by (auto simp: pod_dims_def pod_requests_nonneg)

lemma unbound_no_load: "is_pending v \<Longrightarrow> entry_load ft d n (key, v, vm) = 0"
  by (simp add: entry_load_def occupies_def is_pending_unbound)

lemma bm_ok_patch_entry: "bm_ok m \<Longrightarrow> bm_ok (patch_entry r p m key)"
  by (auto simp: patch_entry_def split: option.split)

lemma patch_entry_other: "k \<noteq> key \<Longrightarrow> map_of (patch_entry r p m key) k = map_of m k"
  by (auto simp: patch_entry_def split: option.split)

lemma node_load_patch:
  assumes "bm_ok m" and "map_of m key = Some (v, vm)" and "is_pending v"
  shows "node_load ft d n (patch_entry r p m key) = node_load ft d n m \<or>
    node_load ft d n (patch_entry r p m key) =
      node_load ft d n m + entry_load ft d n (key, stored_patch r v p, bumped_at vm r)"
  using sum_bm_insert [OF assms(1,2), of "entry_load ft d n" "(stored_patch r v p, bumped_at vm r)"]
    sum_bm_remove [OF assms(1,2), of "entry_load ft d n"] unbound_no_load [OF assms(3), of ft d n key vm]
  by (auto simp: patch_entry_def assms(2) node_load_def)

lemma node_load_bind:
  assumes "bm_ok m" and "map_of m key = Some (v, vm)" and "is_pending v" and "d \<in> pod_dims"
  shows "node_load ft d n (patch_entry r (bind_patch nd) m key) \<le>
    node_load ft d n m + (if n = nd then d (pod_requests_of ft v) else 0)"
  using node_load_patch [OF assms(1-3), of ft d n r "bind_patch nd"] pod_dim_nonneg [OF assms(4), of ft v]
  by (auto simp: entry_load_def occupies_def bound_pod split: if_splits)

lemma node_load_mark:
  assumes "bm_ok m" and "map_of m key = Some (v, vm)" and "is_pending v"
  shows "node_load ft d n (patch_entry r (unschedulable_patch c) m key) = node_load ft d n m"
proof -
  have "is_pending (stored_patch r v (unschedulable_patch c))"
    using assms(3) bound_node_of_spec [OF marked_pod(1)] by (simp add: is_pending_unbound)
  then show ?thesis
    using node_load_patch [OF assms, of ft d n r "unschedulable_patch c"] by (auto simp: unbound_no_load)
qed

text \<open>A balance of the books is what the node has, less the load of the stored pods.\<close>

lemma cluster_ledger_get:
  "map_of (cluster_ledger ft cat) n =
    map_option (\<lambda>nd.
      \<lparr>b_cpu_milli = max i128_min (nr_cpu_milli (node_allocatable nd) - node_load ft pr_cpu_milli n (resources cat)),
       b_mem_milli = max i128_min (nr_mem_milli (node_allocatable nd) - node_load ft pr_mem_milli n (resources cat))\<rparr>)
      (node_named (node_values cat) n)"
  by (simp add: cluster_ledger_def ledger_seed_get less_requests_def opening_balance_def charged_load)

lemma cluster_ledger_ok: "ledger_ok (cluster_ledger ft cat)"
  unfolding cluster_ledger_def by (rule ledger_seed_ok)

section \<open>One proposal of the tick\<close>

lemma propose_patch_effect:
  assumes "propose_patch env key p st = (st', err)"
    and "rf_others env (ts_calls st) (ts_catalog st) = ts_catalog st"
  shows "st' = st\<lparr>ts_catalog := ts_catalog st', ts_calls := ts_calls st + 1\<rparr>"
    and "unreadable (ts_catalog st') = unreadable (ts_catalog st)"
    and "resources (ts_catalog st') = resources (ts_catalog st) \<or>
      resources (ts_catalog st') =
        patch_entry (cat_revision (ts_catalog st) + 1) p (resources (ts_catalog st)) key"
proof -
  let ?cat = "ts_catalog st"
  let ?entry = "proposed (cmd_patch key p Scheduler)"
  obtain cat' ans where pr: "propose (te_ext env) (te_store env) ?cat (te_now env)
      (cmd_patch key p Scheduler) (rf_answer env (ts_calls st)) = (cat', ans)" by fastforce
  then have st': "st' = st\<lparr>ts_catalog := cat', ts_calls := ts_calls st + 1\<rparr>"
    using assms by (auto simp: propose_patch_def)
  have births: "stamp_births ?cat (te_now env) (cmd_patch key p Scheduler) = cmd_patch key p Scheduler"
    by (simp add: cmd_patch_def cmd_patch_typed_def)
  have "cat' = ?cat \<or> (\<exists>t i. cat' = fst (apply_logged (te_ext env) ?cat ?entry t i))"
    using pr births
    by (auto simp: propose_def Let_def split_beta split: option.splits raft_answer.splits)
  then have "unreadable cat' = unreadable ?cat \<and> (resources cat' = resources ?cat \<or>
      resources cat' = patch_entry (cat_revision ?cat + 1) p (resources ?cat) key)"
    using patch_applied [of "te_ext env" ?cat key p Scheduler] by (metis prod.collapse)
  with st' show "st' = st\<lparr>ts_catalog := ts_catalog st', ts_calls := ts_calls st + 1\<rparr>"
    "unreadable (ts_catalog st') = unreadable ?cat"
    "resources (ts_catalog st') = resources ?cat \<or>
      resources (ts_catalog st') = patch_entry (cat_revision ?cat + 1) p (resources ?cat) key"
    by simp_all
qed

definition is_pod_key :: "resource_key \<Rightarrow> bool" where
  "is_pod_key key \<longleftrightarrow> scope_contains pod_scope key"

lemma propose_patch_commits:
  assumes "rf_others env (ts_calls st) (ts_catalog st) = ts_catalog st"
    and "rf_answer env (ts_calls st) = Committed t i"
    and "unreadable (ts_catalog st) = []" and "is_pod_key key"
  obtains st' where "propose_patch env key p st = (st', None)"
    and "resources (ts_catalog st') =
      patch_entry (cat_revision (ts_catalog st) + 1) p (resources (ts_catalog st)) key"
proof -
  let ?cat = "ts_catalog st"
  obtain cat' out where ap:
    "apply_logged (te_ext env) ?cat (proposed (cmd_patch key p Scheduler)) t i = (cat', out)" by fastforce
  have "\<not> is_sealed_kind key"
    using assms(4)
    by (simp add: is_pod_key_def scope_contains_def scope_new_def is_sealed_kind_def sealed_kinds_def)
  then have "write_refusal (te_store env) ?cat (cmd_patch key p Scheduler) = None"
    using assms(3)
    by (simp add: write_refusal_def fjall_write_refusal_def cmd_patch_def cmd_patch_typed_def
        unreadable_touched_by_def split: mesh_store.split option.split)
  moreover have "stamp_births ?cat (te_now env) (cmd_patch key p Scheduler) = cmd_patch key p Scheduler"
    by (simp add: cmd_patch_def cmd_patch_typed_def)
  ultimately have "propose_patch env key p st = (st\<lparr>ts_catalog := cat', ts_calls := ts_calls st + 1\<rparr>, None)"
    using assms(1,2) ap by (simp add: propose_patch_def propose_def)
  moreover have "resources cat' = patch_entry (cat_revision ?cat + 1) p (resources ?cat) key"
    using patch_applied(2) [OF ap] assms(3) by (simp add: secret_fault_def)
  ultimately show thesis using that by simp
qed

section \<open>What the tick leaves alone\<close>

lemma filter_bm_other:
  assumes "\<not> P k"
  shows "filter (\<lambda>(k, _). P k) (bm_insert k v m) = filter (\<lambda>(k, _). P k) m"
    and "filter (\<lambda>(k, _). P k) (bm_remove k m) = filter (\<lambda>(k, _). P k) m"
proof -
  show "filter (\<lambda>(k, _). P k) (bm_insert k v m) = filter (\<lambda>(k, _). P k) m"
    using assms by (induction m) auto
  show "filter (\<lambda>(k, _). P k) (bm_remove k m) = filter (\<lambda>(k, _). P k) m"
    using assms by (auto simp: bm_remove_def intro!: filter_cong)
qed

lemma filter_patch_entry:
  "\<not> P key \<Longrightarrow> filter (\<lambda>(k, _). P k) (patch_entry r p m key) = filter (\<lambda>(k, _). P k) m"
  by (simp add: patch_entry_def filter_bm_other split: option.split)

definition pod_patched :: "resource_catalog \<Rightarrow> resource_catalog \<Rightarrow> bool" where
  "pod_patched cat cat' \<longleftrightarrow> resources cat' = resources cat \<or>
     (\<exists>r p key. is_pod_key key \<and> resources cat' = patch_entry r p (resources cat) key)"

lemma pod_patched_keeps:
  assumes "pod_patched cat cat'"
  shows "node_values cat' = node_values cat" and "cat_get cat' (lease_key nm) = cat_get cat (lease_key nm)"
    and "observe env cat' nodes = observe env cat nodes"
proof -
  have "store_list cat' ''Node'' None = store_list cat ''Node'' None"
    using assms
    by (auto simp: pod_patched_def is_pod_key_def store_list_items filter_map_items scope_contains_def scope_new_def
        filter_patch_entry)
  then show "node_values cat' = node_values cat" by (simp add: node_values_def)
  show lease: "cat_get cat' (lease_key nm) = cat_get cat (lease_key nm)" for nm
    using assms
    by (auto simp: pod_patched_def is_pod_key_def cat_get_def scope_contains_def scope_new_def lease_key_def
        namespaced_def intro!: arg_cong [where f = "map_option fst"] patch_entry_other)
  show "observe env cat' nodes = observe env cat nodes"
    by (simp add: observe_def lease cong: option.case_cong)
qed

section \<open>The books over a tick\<close>

definition balance_le :: "balance \<Rightarrow> balance \<Rightarrow> bool" where
  "balance_le b b' \<longleftrightarrow> b_cpu_milli b \<le> b_cpu_milli b' \<and> b_mem_milli b \<le> b_mem_milli b'"

definition books_le :: "(string \<Rightarrow> balance option) \<Rightarrow> (string \<Rightarrow> balance option) \<Rightarrow> bool" where
  "books_le f g \<longleftrightarrow> (\<forall>n. rel_option balance_le (f n) (g n))"

lemma books_le_iff:
  "books_le f g \<longleftrightarrow> (\<forall>n. f n = None \<longleftrightarrow> g n = None) \<and>
    (\<forall>n b b'. f n = Some b \<longrightarrow> g n = Some b' \<longrightarrow> balance_le b b')"
proof -
  have rel: "rel_option R x y \<longleftrightarrow> (x = None \<longleftrightarrow> y = None) \<and> (\<forall>b b'. x = Some b \<longrightarrow> y = Some b' \<longrightarrow> R b b')"
    for R :: "balance \<Rightarrow> balance \<Rightarrow> bool" and x y
    by (cases x; cases y) auto
  show ?thesis unfolding books_le_def rel by blast
qed

text \<open>What may be left of a balance: nothing, or the debt it already had.\<close>

definition debt :: "balance \<Rightarrow> balance" where
  "debt b = \<lparr>b_cpu_milli = min 0 (b_cpu_milli b), b_mem_milli = min 0 (b_mem_milli b)\<rparr>"

definition quiet :: "tick_env \<Rightarrow> bool" where
  "quiet env \<longleftrightarrow> (\<forall>i c. rf_others env i c = c)"

lemma quietD [simp]: "quiet env \<Longrightarrow> rf_others env i c = c"
  by (simp add: quiet_def)

abbreviation books :: "'a tick_env_scheme \<Rightarrow> resource_catalog \<Rightarrow> string \<Rightarrow> balance option" where
  "books env cat \<equiv> map_of (cluster_ledger (te_float env) cat)"

definition less_on :: "string \<Rightarrow> pod_requests \<Rightarrow> string \<Rightarrow> balance \<Rightarrow> balance" where
  "less_on nd req n b = (if n = nd then charge req b else b)"

lemma books_cong:
  assumes "node_values cat' = node_values cat"
    and "\<And>d n. node_load (te_float env) d n (resources cat') = node_load (te_float env) d n (resources cat)"
  shows "cluster_ledger (te_float env) cat' = cluster_ledger (te_float env) cat"
proof (rule bm_ok_ext)
  show "books env cat' = books env cat" by (simp add: fun_eq_iff cluster_ledger_get assms)
qed (use cluster_ledger_ok in \<open>simp_all add: ledger_ok_def\<close>)

lemma books_mark:
  assumes "bm_ok (resources cat)" and "map_of (resources cat) key = Some (v, vm)" and "is_pending v"
    and "is_pod_key key" and "resources cat' = patch_entry r (unschedulable_patch c) (resources cat) key"
  shows "cluster_ledger (te_float env) cat' = cluster_ledger (te_float env) cat"
proof (rule books_cong)
  show "node_values cat' = node_values cat"
    using assms(4,5) by (intro pod_patched_keeps) (auto simp: pod_patched_def)
qed (simp add: assms(5) node_load_mark [OF assms(1-3)])

lemma books_bind:
  assumes "bm_ok (resources cat)" and "map_of (resources cat) key = Some (v, vm)" and "is_pending v"
    and "is_pod_key key" and "resources cat' = patch_entry r (bind_patch nd) (resources cat) key"
  shows "books_le (\<lambda>n. map_option (less_on nd (pod_requests_of (te_float env) v) n) (books env cat n))
    (books env cat')"
proof -
  let ?ft = "te_float env"
  have nodes: "node_values cat' = node_values cat"
    using assms(4,5) by (intro pod_patched_keeps) (auto simp: pod_patched_def)
  have load: "node_load ?ft d n (resources cat') \<le>
      node_load ?ft d n (resources cat) + (if n = nd then d (pod_requests_of ?ft v) else 0)"
    if "d = pr_cpu_milli \<or> d = pr_mem_milli" for d n
    unfolding assms(5) using that by (intro node_load_bind [OF assms(1-3)]) (auto simp: pod_dims_def)
  have le: "sat_i128 (max i128_min (a - l) - x) \<le> max i128_min (a - l')"
    if "l' \<le> l + x" "0 \<le> x" for a l l' x :: int
    using that by (auto simp: sat_i128_def i128_min_def i128_max_def)
  have "balance_le (less_on nd (pod_requests_of ?ft v) n b) b'"
    if "books env cat n = Some b" "books env cat' n = Some b'" for n b b'
  proof (cases "n = nd")
    case True
    with that load [of pr_cpu_milli n] load [of pr_mem_milli n] pod_requests_nonneg [of ?ft v] nodes show ?thesis
      by (auto simp: cluster_ledger_get balance_le_def less_on_def charge_def intro!: le)
  next
    case False
    with that load [of pr_cpu_milli n] load [of pr_mem_milli n] nodes show ?thesis
      by (auto simp: cluster_ledger_get balance_le_def less_on_def)
  qed
  moreover have "books env cat n = None \<longleftrightarrow> books env cat' n = None" for n
    by (simp add: cluster_ledger_get nodes)
  ultimately show ?thesis by (auto simp: books_le_iff)
qed

lemma books_leD: "books_le f g \<Longrightarrow> f n = Some b \<Longrightarrow> g n = Some b' \<Longrightarrow> balance_le b b'"
  by (simp add: books_le_iff)

lemma books_le_trans:
  assumes "books_le f g" and "books_le g h"
  shows "books_le f h"
proof -
  have "rel_option balance_le (f n) (h n)" for n
    using assms unfolding books_le_def
    by (cases "f n"; cases "g n"; cases "h n") (auto simp: balance_le_def dest!: spec [of _ n])
  then show ?thesis by (simp add: books_le_def)
qed

lemma balance_le_trans: "balance_le a b \<Longrightarrow> balance_le b c \<Longrightarrow> balance_le a c"
  by (auto simp: balance_le_def)

lemma sat_i128_mono: "a \<le> b \<Longrightarrow> sat_i128 a \<le> sat_i128 b"
  unfolding sat_i128_def by (intro max.mono min.mono) simp_all

lemma charge_mono: "balance_le l b \<Longrightarrow> balance_le (charge req l) (charge req b)"
  by (simp add: balance_le_def charge_def sat_i128_mono)

lemma debt_refl: "balance_le (debt b) b"
  by (simp add: balance_le_def debt_def)

lemma charge_axis:
  fixes r l b b0 :: int
  assumes "0 \<le> r" and "r \<le> max l 0" and "l \<le> b" and "i128_ok b" and "min 0 b0 \<le> b"
  shows "min 0 b0 \<le> sat_i128 (b - max r 0)"
proof (cases "r = 0")
  case True
  with assms(4,5) show ?thesis by (simp add: i128_ok_def sat_i128_def)
next
  case False
  with assms(1-3) have "0 \<le> b - r" by linarith
  then have "0 \<le> sat_i128 (b - r)" by (simp add: sat_i128_def i128_max_def)
  with assms(1) show ?thesis by simp
qed

lemma charge_within:
  assumes "fits (balance_free l) req" and "request_ok req" and "balance_le l b" and "balance_ok b"
    and "balance_le (debt b0) b"
  shows "balance_le (debt b0) (charge req b)"
  unfolding balance_le_def debt_def charge_def
  using charge_axis [of "pr_cpu_milli req" "b_cpu_milli l" "b_cpu_milli b" "b_cpu_milli b0"]
    charge_axis [of "pr_mem_milli req" "b_mem_milli l" "b_mem_milli b" "b_mem_milli b0"] assms
  by (simp add: fits_def balance_free_def request_ok_def balance_le_def balance_ok_def debt_def split: if_splits)

definition no_new_debt :: "tick_env \<Rightarrow> resource_catalog \<Rightarrow> resource_catalog \<Rightarrow> bool" where
  "no_new_debt env cat0 cat \<longleftrightarrow> books_le (\<lambda>n. map_option debt (books env cat0 n)) (books env cat)"

definition tick_inv :: "tick_env \<Rightarrow> resource_catalog \<Rightarrow> (resource_key \<times> json) list \<Rightarrow> tick_state \<Rightarrow> bool" where
  "tick_inv env cat0 pods st \<longleftrightarrow>
     bm_ok (resources (ts_catalog st)) \<and> ledger_ok (ts_ledger st) \<and>
     books_le (map_of (ts_ledger st)) (books env (ts_catalog st)) \<and>
     no_new_debt env cat0 (ts_catalog st) \<and> distinct (map fst pods) \<and>
     (\<forall>(key, pod) \<in> set pods. is_pod_key key \<and> (is_pending pod \<longrightarrow> cat_get (ts_catalog st) key = Some pod))"

lemma pick_fits:
  assumes "filter_nodes pod req observed ledger = FFeasible f" and "rr_pick c f = (nd, c')"
  shows "nd \<noteq> []" and "ledger_fits ledger nd req"
    and "\<exists>node \<in> set observed. schedulable_on pod req ledger node \<and> node_name_of node = Some nd"
proof -
  have fl: "feasible_list f = map candidate_of (filter (schedulable_on pod req ledger) observed)"
    using filter_nodes_cases [where pod = pod and req = req and nodes = observed and ledger = ledger] assms(1)
    by simp
  have "nth_wrapping f (unat c) \<in> set (feasible_list f)"
    unfolding nth_wrapping_nth by (rule nth_mem) (simp add: feasible_list_def)
  then obtain node where node: "node \<in> set observed" "schedulable_on pod req ledger node"
      "nth_wrapping f (unat c) = candidate_of node"
    by (auto simp: fl)
  moreover obtain nm where "node_name_of node = Some nm" "nm \<noteq> []" "ledger_fits ledger nm req"
    using node(2) by (auto simp: schedulable_on_def)
  ultimately show "nd \<noteq> []" "ledger_fits ledger nd req"
    "\<exists>node \<in> set observed. schedulable_on pod req ledger node \<and> node_name_of node = Some nd"
    using assms(2) by (auto simp: rr_pick_def candidate_of_def)
qed

lemma books_after_bind:
  assumes "ledger_ok l" and "books_le (map_of l) (books env cat)" and "no_new_debt env cat0 cat"
    and "ledger_fits l nd req" and "request_ok req"
    and "books_le (\<lambda>n. map_option (less_on nd req n) (books env cat n)) (books env cat')"
  shows "no_new_debt env cat0 cat'" and "books_le (map_of (ledger_debit nd req l)) (books env cat')"
proof -
  have dom: "map_of l n = None \<longleftrightarrow> books env cat n = None" "books env cat0 n = None \<longleftrightarrow> books env cat n = None"
      "books env cat n = None \<longleftrightarrow> books env cat' n = None" for n
    using assms(2,3,6) by (auto simp: books_le_iff no_new_debt_def)
  have le: "balance_le (debt b0) b' \<and> balance_le (less_on nd req n bl) b'"
    if s: "books env cat' n = Some b'" "books env cat0 n = Some b0" "map_of l n = Some bl" for n b0 bl b'
  proof -
    obtain b where b: "books env cat n = Some b" using s(1) dom(3) [of n] by (cases "books env cat n") simp_all
    have lb: "balance_le bl b" and db: "balance_le (debt b0) b" and bb': "balance_le (less_on nd req n b) b'"
      using books_leD [OF assms(2) s(3) b] books_leD [OF assms(3) [unfolded no_new_debt_def] _ b]
        books_leD [OF assms(6) _ s(1)] s(2) b by simp_all
    have "balance_ok b" using cluster_ledger_ok b by (auto simp: ledger_ok_def)
    then have "balance_le (debt b0) (less_on nd req n b)"
      using charge_within [OF _ assms(5) lb _ db] assms(4) s(3) db
      by (auto simp: less_on_def ledger_fits_def ledger_free_def)
    moreover have "balance_le (less_on nd req n bl) (less_on nd req n b)"
      using lb by (simp add: less_on_def charge_mono)
    ultimately show ?thesis using bb' by (auto intro: balance_le_trans)
  qed
  show "no_new_debt env cat0 cat'"
    unfolding no_new_debt_def books_le_iff
  proof (intro conjI allI impI)
    show "(map_option debt (books env cat0 n) = None) = (books env cat' n = None)" for n
      using dom(2,3) [of n] by simp
    fix n b b'
    assume "map_option debt (books env cat0 n) = Some b" and b': "books env cat' n = Some b'"
    then obtain b0 where "books env cat0 n = Some b0" "b = debt b0" by auto
    moreover obtain bl where "map_of l n = Some bl"
      using b' dom(1,3) [of n] by (cases "map_of l n") simp_all
    ultimately show "balance_le b b'" using le [OF b'] by simp
  qed
  show "books_le (map_of (ledger_debit nd req l)) (books env cat')"
    unfolding books_le_iff ledger_debit_get
  proof (intro conjI allI impI)
    show "((if n = nd then map_option (charge req) (map_of l n) else map_of l n) = None) =
        (books env cat' n = None)" for n
      using dom(1,3) [of n] by (cases "n = nd") simp_all
    fix n b b'
    assume "(if n = nd then map_option (charge req) (map_of l n) else map_of l n) = Some b"
    then obtain bl where bl: "map_of l n = Some bl" "b = less_on nd req n bl"
      by (auto simp: less_on_def split: if_splits)
    moreover assume b': "books env cat' n = Some b'"
    moreover obtain b0 where "books env cat0 n = Some b0"
      using bl(1) dom(1,2) [of n] by (cases "books env cat0 n") simp_all
    ultimately show "balance_le b b'" using le [OF b'] by simp
  qed
qed

section \<open>One pod of the tick\<close>

definition commits :: "tick_env \<Rightarrow> bool" where
  "commits env \<longleftrightarrow> (\<forall>i. \<exists>t n. rf_answer env i = Committed t n)"

definition patched_by ::
  "tick_env \<Rightarrow> resource_key \<Rightarrow> json \<Rightarrow> tick_state \<Rightarrow> tick_state \<Rightarrow> scheduler_error option \<Rightarrow> bool" where
  "patched_by env key p st st' err \<longleftrightarrow>
     unreadable (ts_catalog st') = unreadable (ts_catalog st) \<and>
     (\<exists>r. (resources (ts_catalog st') = resources (ts_catalog st) \<or>
           resources (ts_catalog st') = patch_entry r p (resources (ts_catalog st)) key) \<and>
          (commits env \<and> unreadable (ts_catalog st) = [] \<and> is_pod_key key \<longrightarrow>
             err = None \<and> resources (ts_catalog st') = patch_entry r p (resources (ts_catalog st)) key))"

lemma patched_by_cong:
  "ts_catalog sx = ts_catalog st \<Longrightarrow> ts_catalog sx' = ts_catalog st' \<Longrightarrow>
    patched_by env key p sx sx' e = patched_by env key p st st' e"
  by (simp add: patched_by_def)

lemma propose_patched_by:
  assumes "quiet env" and "propose_patch env key p st = (st', err)"
  shows "patched_by env key p st st' err"
    and "st' = st\<lparr>ts_catalog := ts_catalog st', ts_calls := ts_calls st + 1\<rparr>"
proof -
  have q: "rf_others env (ts_calls st) (ts_catalog st) = ts_catalog st" using assms(1) by simp
  show "st' = st\<lparr>ts_catalog := ts_catalog st', ts_calls := ts_calls st + 1\<rparr>"
    by (rule propose_patch_effect(1) [OF assms(2) q])
  have "err = None \<and> resources (ts_catalog st') =
      patch_entry (cat_revision (ts_catalog st) + 1) p (resources (ts_catalog st)) key"
    if c: "commits env" "unreadable (ts_catalog st) = []" "is_pod_key key"
  proof -
    obtain t i where "rf_answer env (ts_calls st) = Committed t i" using c(1) unfolding commits_def by blast
    from propose_patch_commits [OF q this c(2,3), of p] assms(2) show ?thesis by auto
  qed
  then show "patched_by env key p st st' err"
    using propose_patch_effect(2,3) [OF assms(2) q] by (auto simp: patched_by_def)
qed

text \<open>A pod the tick has nothing to write for.\<close>

definition settled :: "tick_env \<Rightarrow> json list \<Rightarrow> node_ledger \<Rightarrow> json \<Rightarrow> bool" where
  "settled env observed ledger pod \<longleftrightarrow>
     (is_pending pod \<longrightarrow>
        (case filter_nodes pod (pod_requests_of (te_float env) pod) observed ledger of
           FFeasible f \<Rightarrow> False
         | FInfeasible d \<Rightarrow> already_marked pod (unschedulable_condition d)
         | FNoNodesObserved \<Rightarrow> True))"

lemmas report_simps = report_update_def tick_state.simps tick_report.simps

lemma schedule_podE:
  assumes "quiet env" and "schedule_pod env observed key pod st = (st', err)"
  obtains
    (idle) "settled env observed (ts_ledger st) pod" "err = None"
      "st' = st\<lparr>ts_report := ts_report st'\<rparr>" "tr_bound (ts_report st') = tr_bound (ts_report st)"
  | (mark) d where "is_pending pod"
      "filter_nodes pod (pod_requests_of (te_float env) pod) observed (ts_ledger st) = FInfeasible d"
      "\<not> already_marked pod (unschedulable_condition d)"
      "patched_by env key (unschedulable_patch (unschedulable_condition d)) st st' err"
      "ts_ledger st' = ts_ledger st" "ts_cursor st' = ts_cursor st"
      "tr_bound (ts_report st') = tr_bound (ts_report st)"
  | (bind) f nd c where "is_pending pod"
      "filter_nodes pod (pod_requests_of (te_float env) pod) observed (ts_ledger st) = FFeasible f"
      "rr_pick (ts_cursor st) f = (nd, c)" "patched_by env key (bind_patch nd) st st' err" "ts_cursor st' = c"
      "err = None \<longrightarrow> ts_ledger st' = ledger_debit nd (pod_requests_of (te_float env) pod) (ts_ledger st)"
      "tr_bound (ts_report st') = tr_bound (ts_report st) @ (if err = None then [\<lparr>bd_key = key, bd_node = nd\<rparr>] else [])"
proof (cases "is_pending pod")
  case False
  with assms(2) show thesis by (intro idle) (auto simp: schedule_pod_def settled_def)
next
  case pending: True
  let ?req = "pod_requests_of (te_float env) pod"
  let ?st0 = "report_update (\<lambda>r. r\<lparr>tr_pending_pods := tr_pending_pods r + 1\<rparr>) st"
  let ?st1 = "report_update (\<lambda>r. r\<lparr>tr_unschedulable := tr_unschedulable r + 1\<rparr>) ?st0"
  show thesis
  proof (cases "filter_nodes pod ?req observed (ts_ledger st)")
    case FNoNodesObserved
    with assms(2) pending show thesis
      by (intro idle) (auto simp: schedule_pod_def settled_def report_update_def)
  next
    case (FInfeasible d)
    let ?c = "unschedulable_condition d"
    show thesis
    proof (cases "already_marked pod ?c")
      case True
      with assms(2) pending FInfeasible show thesis
        by (intro idle) (auto simp: schedule_pod_def settled_def mark_unschedulable_def report_update_def)
    next
      case False
      obtain s e where pr: "propose_patch env key (unschedulable_patch ?c) ?st1 = (s, e)" by fastforce
      have s: "s = ?st1\<lparr>ts_catalog := ts_catalog s, ts_calls := ts_calls ?st1 + 1\<rparr>"
        and by_s: "patched_by env key (unschedulable_patch ?c) ?st1 s e"
        using propose_patched_by [OF assms(1) pr] by simp_all
      have e: "e = err" and cat: "ts_catalog st' = ts_catalog s" "ts_ledger st' = ts_ledger s"
          "ts_cursor st' = ts_cursor s" "tr_bound (ts_report st') = tr_bound (ts_report s)"
        using assms(2) pending FInfeasible False pr
        by (auto simp: schedule_pod_def mark_unschedulable_def report_update_def split: option.splits)
      have "ts_ledger s = ts_ledger st" "ts_cursor s = ts_cursor st" "tr_bound (ts_report s) = tr_bound (ts_report st)"
        by (subst s, simp add: report_update_def)+
      moreover have "patched_by env key (unschedulable_patch ?c) st st' err"
        using by_s e cat(1) patched_by_cong [of ?st1 st s st'] by (simp add: report_update_def)
      ultimately show thesis using pending FInfeasible False cat by (intro mark) simp_all
    qed
  next
    case (FFeasible f)
    obtain nd c where rr: "rr_pick (ts_cursor st) f = (nd, c)" by fastforce
    obtain s e where pr: "propose_patch env key (bind_patch nd) (?st0\<lparr>ts_cursor := c\<rparr>) = (s, e)" by fastforce
    have s: "s = ?st0\<lparr>ts_cursor := c, ts_catalog := ts_catalog s, ts_calls := ts_calls ?st0 + 1\<rparr>"
      and by_s: "patched_by env key (bind_patch nd) (?st0\<lparr>ts_cursor := c\<rparr>) s e"
      using propose_patched_by [OF assms(1) pr] by simp_all
    have step: "(st', err) = (case e of
        Some e' \<Rightarrow> (s, Some e')
      | None \<Rightarrow> (report_update (\<lambda>r. r\<lparr>tr_bound := tr_bound r @ [\<lparr>bd_key = key, bd_node = nd\<rparr>]\<rparr>)
                (s\<lparr>ts_ledger := ledger_debit nd ?req (ts_ledger s)\<rparr>), None))"
      using assms(2) pending FFeasible pr rr
      by (auto simp: schedule_pod_def bind_pod_def report_update_def split: option.splits)
    have "ts_ledger s = ts_ledger st" "ts_cursor s = c" "tr_bound (ts_report s) = tr_bound (ts_report st)"
      by (subst s, simp add: report_update_def)+
    moreover have "patched_by env key (bind_patch nd) st st' err"
      using by_s step patched_by_cong [of "?st0\<lparr>ts_cursor := c\<rparr>" st s st']
      by (auto simp: report_update_def split: option.splits)
    ultimately show thesis
      using pending FFeasible rr step by (intro bind) (auto simp: report_update_def split: option.splits)
  qed
qed

section \<open>A patch of the tick is never a rewrite\<close>

lemma length_bm_insert_fresh: "map_of m k = None \<Longrightarrow> length (bm_insert k v m) = Suc (length m)"
  by (induction m) (auto split: if_splits)

lemma unchanged_member:
  assumes "unchanged v (merge_rfc7396 v (JObject [(k, w)])) None" and "k \<noteq> ''metadata''" and "w \<noteq> JNull"
  obtains b where "jget v k = Some b" "merge_rfc7396 b w = b"
proof -
  obtain m where v: "v = JObject m"
    using assms(1,3) by (cases v) (simp_all add: unchanged_def objects_equal_except_def)
  define a where "a = merge_rfc7396 (or_null (map_of m k)) w"
  have doc: "merge_rfc7396 v (JObject [(k, w)]) = JObject (bm_insert k a m)"
    using assms(3) by (simp add: v a_def or_null_def)
  have len: "length m = length (bm_insert k a m)"
    and eq: "list_all (\<lambda>(f, b). case map_of (bm_insert k a m) f of
        Some a' \<Rightarrow> (if f = ''metadata'' then objects_equal_except b a' computed_metadata (\<lambda>f p c.
              if f = ''managedFields'' then managed_fields_unchanged p c None else p = c) else b = a')
      | None \<Rightarrow> False) m"
    using assms(1) [unfolded doc, unfolded v] by (simp_all del: map_of_bm_insert add: unchanged_def objects_equal_except_def [of "JObject m"])
  obtain b where b: "map_of m k = Some b"
    using len length_bm_insert_fresh [of m k a] by (cases "map_of m k") auto
  then have "b = a"
    using eq map_of_SomeD [OF b] assms(2) by (fastforce simp: list_all_iff)
  then have "merge_rfc7396 b w = b" using b by (simp add: a_def or_null_def)
  with b v show thesis by (intro that [of b]) simp_all
qed

lemma bind_not_skipped:
  assumes "is_pending v" and "nd \<noteq> []"
  shows "\<not> skips OnSkip (Some v) (merge_rfc7396 v (bind_patch nd)) None"
proof
  assume "skips OnSkip (Some v) (merge_rfc7396 v (bind_patch nd)) None"
  then have "unchanged v (merge_rfc7396 v (JObject [(''spec'', JObject [(''nodeName'', JString nd)])])) None"
    by (simp add: skips_def bind_patch_def del: merge_rfc7396.simps)
  then obtain b where b: "jget v ''spec'' = Some b" "merge_rfc7396 b (JObject [(''nodeName'', JString nd)]) = b"
    by (rule unchanged_member) simp_all
  then have "jget b ''nodeName'' = Some (JString nd)"
    using jget_merge_node_name [of "Some b" nd "''nodeName''"] by (simp add: or_null_def)
  with assms b(1) show False by (simp add: is_pending_def)
qed

lemma mark_not_skipped:
  assumes "\<not> already_marked v c"
  shows "\<not> skips OnSkip (Some v) (merge_rfc7396 v (unschedulable_patch c)) None"
proof
  let ?w = "JObject [(''conditions'', JArray [c]), (''phase'', JString ''Pending'')]"
  assume "skips OnSkip (Some v) (merge_rfc7396 v (unschedulable_patch c)) None"
  then have "unchanged v (merge_rfc7396 v (JObject [(''status'', ?w)])) None"
    by (simp add: skips_def unschedulable_patch_def del: merge_rfc7396.simps)
  then obtain b where b: "jget v ''status'' = Some b" "merge_rfc7396 b ?w = b"
    by (rule unchanged_member) simp_all
  have "jget (merge_rfc7396 b ?w) ''phase'' = Some (JString ''Pending'') \<and>
      jget (merge_rfc7396 b ?w) ''conditions'' = Some (JArray [c])"
    by (cases b) simp_all
  with b(2) have "jget b ''phase'' = Some (JString ''Pending'')" "jget b ''conditions'' = Some (JArray [c])"
    by simp_all
  with assms b(1) show False by (simp add: already_marked_def)
qed

text \<open>What is stored under the key after a committed patch: the patched pod, or nothing when it was being deleted.\<close>

lemma patch_entry_get:
  assumes "map_of m key = Some (v, vm)" and "\<not> skips OnSkip (Some v) (merge_rfc7396 v p) None"
  shows "map_of (patch_entry r p m key) key =
    (if finalizers_released (merge_rfc7396 v p) then None else Some (stored_patch r v p, bumped_at vm r))"
  using assms by (simp add: patch_entry_def)

lemma bound_in_store:
  assumes "map_of m key = Some (v, vm)" and "is_pending v" and "nd \<noteq> []"
    and "map_of (patch_entry r (bind_patch nd) m key) key = Some (v', vm')"
  shows "bound_node_of v' = Some nd"
  using patch_entry_get [OF assms(1) bind_not_skipped [OF assms(2,3)], of r] assms(3,4)
  by (auto simp: bound_pod split: if_splits)

lemma bind_keeps_release: "finalizers_released (merge_rfc7396 v (bind_patch nd)) = finalizers_released v"
  by (simp add: finalizers_released_def deletion_timestamp_of_def has_finalizers_def member2_def jget_merge_bind)

lemma bound_removed:
  assumes "map_of m key = Some (v, vm)" and "is_pending v" and "nd \<noteq> []"
    and "map_of (patch_entry r (bind_patch nd) m key) key = None"
  shows "finalizers_released v"
  using patch_entry_get [OF assms(1) bind_not_skipped [OF assms(2,3)], of r] assms(4)
  by (auto simp: bind_keeps_release split: if_splits)

lemma marked_in_store:
  assumes "map_of m key = Some (v, vm)" and "\<not> already_marked v c"
    and "map_of (patch_entry r (unschedulable_patch c) m key) key = Some (v', vm')"
  shows "same_needs v' v" and "already_marked v' c"
  using patch_entry_get [OF assms(1) mark_not_skipped [OF assms(2)], of r] assms(3) marked_pod [of r v c]
  by (auto simp: same_needs_def split: if_splits)

section \<open>The loop\<close>

lemma patched_byE:
  assumes "patched_by env key p st st' err"
  obtains "resources (ts_catalog st') = resources (ts_catalog st)"
  | r where "resources (ts_catalog st') = patch_entry r p (resources (ts_catalog st)) key"
  using assms unfolding patched_by_def by blast

lemma books_same: "resources cat' = resources cat \<Longrightarrow> cluster_ledger ft cat' = cluster_ledger ft cat"
  by (simp add: cluster_ledger_def node_values_def store_list_items)

lemma patched_by_ok: "patched_by env key p st st' err \<Longrightarrow> bm_ok (resources (ts_catalog st)) \<Longrightarrow>
    bm_ok (resources (ts_catalog st'))"
  by (auto simp: patched_by_def bm_ok_patch_entry)

lemma patched_by_other: "patched_by env key p st st' err \<Longrightarrow> k \<noteq> key \<Longrightarrow>
    map_of (resources (ts_catalog st')) k = map_of (resources (ts_catalog st)) k"
  by (auto simp: patched_by_def patch_entry_other)

lemma patched_by_pod: "patched_by env key p st st' err \<Longrightarrow> is_pod_key key \<Longrightarrow>
    pod_patched (ts_catalog st) (ts_catalog st')"
  by (auto simp: patched_by_def pod_patched_def)

lemma tick_inv_Cons:
  assumes "tick_inv env cat0 ((key, pod) # pods) st"
  shows "is_pod_key key" and "is_pending pod \<Longrightarrow> \<exists>vm. map_of (resources (ts_catalog st)) key = Some (pod, vm)"
    and "key \<notin> fst ` set pods"
  using assms by (auto simp: tick_inv_def cat_get_def)

lemma tick_inv_next:
  assumes "tick_inv env cat0 ((key, pod) # pods) st"
    and "\<And>k. k \<noteq> key \<Longrightarrow> map_of (resources (ts_catalog st')) k = map_of (resources (ts_catalog st)) k"
    and "bm_ok (resources (ts_catalog st'))" and "ledger_ok (ts_ledger st')"
    and "books_le (map_of (ts_ledger st')) (books env (ts_catalog st'))" and "no_new_debt env cat0 (ts_catalog st')"
  shows "tick_inv env cat0 pods st'"
proof -
  have "cat_get (ts_catalog st') k = Some v" if "(k, v) \<in> set pods" "is_pending v" for k v
  proof -
    have "k \<noteq> key" using that(1) tick_inv_Cons(3) [OF assms(1)] by force
    moreover have "cat_get (ts_catalog st) k = Some v" using that assms(1) by (auto simp: tick_inv_def)
    ultimately show ?thesis using assms(2) by (simp add: cat_get_def)
  qed
  moreover have "\<forall>(k, v) \<in> set pods. is_pod_key k" "distinct (map fst pods)"
    using assms(1) by (auto simp: tick_inv_def)
  ultimately show ?thesis using assms(3-6) by (auto simp: tick_inv_def)
qed

lemma less_on_le: "request_ok req \<Longrightarrow> balance_ok b \<Longrightarrow> balance_le (less_on nd req n b) b"
  by (auto simp: less_on_def charge_less balance_le_def less_requests_def request_ok_def balance_ok_def i128_ok_def)

lemma tick_inv_step:
  assumes "quiet env" and inv: "tick_inv env cat0 ((key, pod) # pods) st"
    and step: "schedule_pod env observed key pod st = (st', err)"
  shows "no_new_debt env cat0 (ts_catalog st') \<and> (err = None \<longrightarrow> tick_inv env cat0 pods st')"
proof -
  let ?cat = "ts_catalog st" and ?cat' = "ts_catalog st'"
  have ok: "bm_ok (resources ?cat)" "ledger_ok (ts_ledger st)" "books_le (map_of (ts_ledger st)) (books env ?cat)"
      "no_new_debt env cat0 ?cat"
    using inv by (simp_all add: tick_inv_def)
  note pod_key = tick_inv_Cons(1) [OF inv]
  note nxt = tick_inv_next [OF inv]
  show ?thesis
    using assms(1) step
  proof (cases rule: schedule_podE)
    case idle
    have "?cat' = ?cat" "ts_ledger st' = ts_ledger st" by (subst idle(3), simp)+
    with ok nxt [of st'] show ?thesis by simp
  next
    case (mark d)
    obtain vm where stored: "map_of (resources ?cat) key = Some (pod, vm)"
      using tick_inv_Cons(2) [OF inv mark(1)] by blast
    have "cluster_ledger (te_float env) ?cat' = cluster_ledger (te_float env) ?cat"
      using mark(4) by (rule patched_byE) (rule books_same books_mark [OF ok(1) stored mark(1) pod_key], assumption)+
    then have "no_new_debt env cat0 ?cat'" "books_le (map_of (ts_ledger st')) (books env ?cat')"
      using ok mark(5) by (simp_all add: no_new_debt_def)
    with ok mark(5) nxt [of st'] patched_by_ok [OF mark(4)] patched_by_other [OF mark(4)] show ?thesis by simp
  next
    case (bind f nd c)
    let ?req = "pod_requests_of (te_float env) pod"
    obtain vm where stored: "map_of (resources ?cat) key = Some (pod, vm)"
      using tick_inv_Cons(2) [OF inv bind(1)] by blast
    note fit = pick_fits [OF bind(2,3)]
    have "books_le (\<lambda>n. map_option (less_on nd ?req n) (books env ?cat n)) (books env ?cat') \<or>
        cluster_ledger (te_float env) ?cat' = cluster_ledger (te_float env) ?cat"
      using bind(4) by (rule patched_byE) (auto dest: books_same books_bind [OF ok(1) stored bind(1) pod_key])
    then have "no_new_debt env cat0 ?cat' \<and>
        books_le (map_of (ledger_debit nd ?req (ts_ledger st))) (books env ?cat')"
    proof
      assume "books_le (\<lambda>n. map_option (less_on nd ?req n) (books env ?cat n)) (books env ?cat')"
      from books_after_bind [OF ok(2-4) fit(2) request_ok_pod this] show ?thesis by simp
    next
      assume same: "cluster_ledger (te_float env) ?cat' = cluster_ledger (te_float env) ?cat"
      have "books_le (\<lambda>n. map_option (less_on nd ?req n) (books env ?cat n)) (books env ?cat)"
        using cluster_ledger_ok [of "te_float env" ?cat] less_on_le
        by (auto simp: books_le_iff ledger_ok_def)
      from books_after_bind [OF ok(2-4) fit(2) request_ok_pod this] same ok(4) show ?thesis by (simp add: no_new_debt_def)
    qed
    with ok bind(6) nxt [of st'] patched_by_ok [OF bind(4)] patched_by_other [OF bind(4)] ledger_debit_ok
    show ?thesis by simp
  qed
qed

text \<open>
  What the tick relies on of the other writers while it runs: they leave the pods that are still
  pending as they are, and take nothing from the books of a node. They may create, finish and
  delete pods, and write any other object.
\<close>

definition spares :: "tick_env \<Rightarrow> bool" where
  "spares env \<longleftrightarrow>
     (\<forall>i c. bm_ok (resources c) \<longrightarrow>
        bm_ok (resources (rf_others env i c)) \<and> books_le (books env c) (books env (rf_others env i c)) \<and>
        (\<forall>key pod. is_pod_key key \<longrightarrow> is_pending pod \<longrightarrow> cat_get c key = Some pod \<longrightarrow>
           cat_get (rf_others env i c) key = Some pod))"

lemma quiet_spares: "quiet env \<Longrightarrow> spares env"
  by (simp add: spares_def books_le_iff balance_le_def)

text \<open>
  A pod's turn beside other writers is its turn in a quiet environment, from the store as it is or
  as the other writers have left it when the proposal is applied.
\<close>

definition hush :: "tick_env \<Rightarrow> tick_env" where
  "hush env = env\<lparr>rf_others := \<lambda>_ c. c\<rparr>"

definition overtaken :: "tick_env \<Rightarrow> tick_state \<Rightarrow> tick_state" where
  "overtaken env st = st\<lparr>ts_catalog := rf_others env (ts_calls st) (ts_catalog st)\<rparr>"

lemma hush_quiet: "quiet (hush env)"
  by (simp add: quiet_def hush_def)

lemma hush_inv: "tick_inv (hush env) cat0 pods st = tick_inv env cat0 pods st"
    "no_new_debt (hush env) cat0 cat = no_new_debt env cat0 cat"
  by (simp_all add: tick_inv_def no_new_debt_def hush_def)

lemma hush_propose: "propose_patch env key p st = propose_patch (hush env) key p (overtaken env st)"
  by (simp add: propose_patch_def hush_def overtaken_def split: prod.split)

lemma overtaken_report:
  "overtaken env (report_update f st) = report_update f (overtaken env st)"
  "overtaken env (st\<lparr>ts_cursor := c\<rparr>) = overtaken env st\<lparr>ts_cursor := c\<rparr>"
  "ts_ledger (overtaken env st) = ts_ledger st" "ts_cursor (overtaken env st) = ts_cursor st"
  "ts_cursor (report_update f st) = ts_cursor st"
  by (simp_all add: overtaken_def report_update_def)

lemma hush_schedule_pod:
  "schedule_pod env observed key pod st = schedule_pod (hush env) observed key pod st \<or>
   schedule_pod env observed key pod st = schedule_pod (hush env) observed key pod (overtaken env st)"
  by (simp add: schedule_pod_def bind_pod_def mark_unschedulable_def Let_def hush_propose [of env] overtaken_report
      split: filtered.split)
    (simp add: hush_def)

lemma overtaken_inv:
  assumes "spares env" and "tick_inv env cat0 pods st"
  shows "tick_inv env cat0 pods (overtaken env st)"
proof -
  have ok: "bm_ok (resources (ts_catalog st))" using assms(2) by (simp add: tick_inv_def)
  note kept = assms(1) [unfolded spares_def, rule_format, OF ok, of "ts_calls st"]
  have "books_le f (books env (rf_others env (ts_calls st) (ts_catalog st)))"
    if "books_le f (books env (ts_catalog st))" for f
    using that kept by (auto intro: books_le_trans)
  with assms(2) kept show ?thesis by (auto simp: tick_inv_def overtaken_def no_new_debt_def)
qed

lemma tick_inv_turn:
  assumes "spares env" and "tick_inv env cat0 ((key, pod) # pods) st"
    and "schedule_pod env observed key pod st = (st', err)"
  shows "no_new_debt env cat0 (ts_catalog st') \<and> (err = None \<longrightarrow> tick_inv env cat0 pods st')"
proof -
  obtain s where s: "tick_inv env cat0 ((key, pod) # pods) s"
      "schedule_pod (hush env) observed key pod s = (st', err)"
    using hush_schedule_pod [of env observed key pod st] assms(2,3) overtaken_inv [OF assms(1,2)] by metis
  show ?thesis
    using tick_inv_step [OF hush_quiet, of env cat0 key pod pods s observed st' err] s by (simp add: hush_inv)
qed

lemma tick_loop_debt:
  assumes "spares env" and "tick_inv env cat0 pods st" and "tick_loop env observed pods st = (st', err)"
  shows "no_new_debt env cat0 (ts_catalog st')"
  using assms(2,3)
proof (induction pods arbitrary: st)
  case Nil
  then show ?case by (simp add: tick_inv_def)
next
  case (Cons kp pods)
  obtain key pod where kp: "kp = (key, pod)" by (cases kp)
  obtain s e where step: "schedule_pod env observed key pod st = (s, e)" by fastforce
  note inv = tick_inv_turn [OF assms(1) Cons.prems(1) [unfolded kp] step]
  show ?case
    using Cons.IH [of s] Cons.prems(2) inv step by (cases e) (simp_all add: kp)
qed

lemma tick_inv_start:
  assumes "bm_ok (resources cat)"
  shows "tick_inv env cat (scope_pods env cat) (tick_start env cat cursor)"
proof -
  have "is_pod_key key" if "scope_contains (scope_new '''' ''v1'' ''Pod'' ns) key" for key ns
    using that by (simp add: is_pod_key_def scope_contains_def scope_new_def)
  moreover have "books_le (\<lambda>n. map_option debt (books env cat n)) (books env cat)" "books_le (books env cat) (books env cat)"
    using debt_refl by (auto simp: books_le_iff balance_le_def)
  ultimately show ?thesis
    using assms store_list_distinct [OF assms]
    by (auto simp: tick_inv_def tick_start_def cluster_ledger_ok no_new_debt_def scope_pods_def store_list_mem)
qed

section \<open>What a tick that commits does\<close>

text \<open>The pods of a list that are still stored as listed.\<close>

definition stored_pods :: "(resource_key \<times> json) list \<Rightarrow> tick_state \<Rightarrow> bool" where
  "stored_pods pods st \<longleftrightarrow>
     bm_ok (resources (ts_catalog st)) \<and> unreadable (ts_catalog st) = [] \<and> distinct (map fst pods) \<and>
     (\<forall>(key, pod) \<in> set pods. is_pod_key key \<and> cat_get (ts_catalog st) key = Some pod)"

lemma stored_pods_Cons:
  assumes "stored_pods ((key, pod) # pods) st"
  shows "is_pod_key key" and "\<exists>vm. map_of (resources (ts_catalog st)) key = Some (pod, vm)"
    and "unreadable (ts_catalog st) = []" and "key \<notin> fst ` set pods" and "bm_ok (resources (ts_catalog st))"
  using assms by (auto simp: stored_pods_def cat_get_def)

lemma stored_pods_next:
  assumes "stored_pods ((key, pod) # pods) st"
    and "\<And>k. k \<noteq> key \<Longrightarrow> map_of (resources (ts_catalog st')) k = map_of (resources (ts_catalog st)) k"
    and "unreadable (ts_catalog st') = []" and "bm_ok (resources (ts_catalog st'))"
  shows "stored_pods pods st'"
proof -
  have "cat_get (ts_catalog st') k = Some v" if "(k, v) \<in> set pods" for k v
  proof -
    have "k \<noteq> key" using that stored_pods_Cons(4) [OF assms(1)] by force
    moreover have "cat_get (ts_catalog st) k = Some v" using that assms(1) by (auto simp: stored_pods_def)
    ultimately show ?thesis using assms(2) by (simp add: cat_get_def)
  qed
  with assms(1,3,4) show ?thesis by (auto simp: stored_pods_def)
qed

text \<open>
  A binding of a pending pod that the store records. A pod that is being deleted and has no
  finalizers left is removed by any write to it, the binding one included.
\<close>

definition bound_well :: "(resource_key \<times> json) list \<Rightarrow> resource_catalog \<Rightarrow> binding \<Rightarrow> bool" where
  "bound_well pods cat bd \<longleftrightarrow>
     (\<exists>(key, pod) \<in> set pods. key = bd_key bd \<and> is_pending pod \<and>
        (case cat_get cat key of
           Some v \<Rightarrow> bound_node_of v = Some (bd_node bd)
         | None \<Rightarrow> finalizers_released pod))"

text \<open>
  The bindings a walk over the pods has to make, from the free capacity it starts with: a pending
  pod is bound exactly when some observed node passes every filter for it, to such a node, and
  what it requests is taken from that node before the next pod is looked at.
\<close>

definition placeable :: "float_text \<Rightarrow> json list \<Rightarrow> node_ledger \<Rightarrow> json \<Rightarrow> string \<Rightarrow> bool" where
  "placeable ft observed ledger pod nd \<longleftrightarrow>
     (\<exists>node \<in> set observed. node_name_of node = Some nd \<and>
        schedulable_on pod (pod_requests_of ft pod) ledger node)"

fun bound_in_turn ::
  "float_text \<Rightarrow> json list \<Rightarrow> node_ledger \<Rightarrow> (resource_key \<times> json) list \<Rightarrow> binding list \<Rightarrow> bool" where
  "bound_in_turn ft observed ledger [] bs \<longleftrightarrow> bs = []"
| "bound_in_turn ft observed ledger ((key, pod) # pods) bs \<longleftrightarrow>
     (if is_pending pod \<and> (\<exists>node \<in> set observed. schedulable_on pod (pod_requests_of ft pod) ledger node)
      then (case bs of
              [] \<Rightarrow> False
            | bd # bs' \<Rightarrow>
                bd_key bd = key \<and> placeable ft observed ledger pod (bd_node bd) \<and>
                bound_in_turn ft observed (ledger_debit (bd_node bd) (pod_requests_of ft pod) ledger) pods bs')
      else bound_in_turn ft observed ledger pods bs)"

lemma not_placeable:
  assumes "\<And>f. filter_nodes pod (pod_requests_of ft pod) observed ledger \<noteq> FFeasible f"
  shows "\<not> (\<exists>node \<in> set observed. schedulable_on pod (pod_requests_of ft pod) ledger node)"
  using filter_nodes_cases [where pod = pod and req = "pod_requests_of ft pod" and nodes = observed and ledger = ledger] assms
  by (auto simp: filter_empty_conv split: filtered.splits)

lemma commits_patched:
  assumes "patched_by env key p st st' err" and "commits env" and "unreadable (ts_catalog st) = []"
    and "is_pod_key key"
  obtains r where "err = None" "resources (ts_catalog st') = patch_entry r p (resources (ts_catalog st)) key"
    "unreadable (ts_catalog st') = []"
  using assms unfolding patched_by_def by auto

text \<open>What one pod's turn leaves behind.\<close>

definition turn_result ::
  "tick_env \<Rightarrow> json list \<Rightarrow> resource_key \<Rightarrow> json \<Rightarrow> tick_state \<Rightarrow> tick_state \<Rightarrow> bool" where
  "turn_result env observed key pod st st' \<longleftrightarrow>
     (\<forall>k. k \<noteq> key \<or> \<not> is_pending pod \<longrightarrow>
        map_of (resources (ts_catalog st')) k = map_of (resources (ts_catalog st)) k) \<and>
     unreadable (ts_catalog st') = [] \<and> bm_ok (resources (ts_catalog st')) \<and>
     (\<forall>nodes. observe env (ts_catalog st') nodes = observe env (ts_catalog st) nodes) \<and>
     node_values (ts_catalog st') = node_values (ts_catalog st) \<and>
     (tr_bound (ts_report st') = tr_bound (ts_report st) \<and> ts_ledger st' = ts_ledger st \<and>
      ts_cursor st' = ts_cursor st \<and>
      cluster_ledger (te_float env) (ts_catalog st') = cluster_ledger (te_float env) (ts_catalog st) \<and>
      (\<forall>v. cat_get (ts_catalog st') key = Some v \<longrightarrow>
         settled env observed (ts_ledger st) v \<and> is_pending v = is_pending pod) \<and>
      \<not> (is_pending pod \<and>
         (\<exists>node \<in> set observed. schedulable_on pod (pod_requests_of (te_float env) pod) (ts_ledger st) node)) \<or>
      (\<exists>nd. tr_bound (ts_report st') = tr_bound (ts_report st) @ [\<lparr>bd_key = key, bd_node = nd\<rparr>] \<and>
         is_pending pod \<and> placeable (te_float env) observed (ts_ledger st) pod nd \<and>
         ts_ledger st' = ledger_debit nd (pod_requests_of (te_float env) pod) (ts_ledger st) \<and>
         bound_well [(key, pod)] (ts_catalog st') \<lparr>bd_key = key, bd_node = nd\<rparr>))"

lemma settled_same_needs:
  assumes "same_needs v' v" and "already_marked v' (unschedulable_condition d)"
    and "filter_nodes v (pod_requests_of (te_float env) v) observed ledger = FInfeasible d"
  shows "settled env observed ledger v'"
  using assms same_needs_filter [OF assms(1)] same_needs_requests [OF assms(1)] by (simp add: settled_def)

lemma turn_commits:
  assumes "quiet env" and "commits env" and "stored_pods ((key, pod) # pods) st"
    and step: "schedule_pod env observed key pod st = (st', err)"
  shows "err = None \<and> turn_result env observed key pod st st'"
proof -
  obtain vm where stored: "is_pod_key key" "map_of (resources (ts_catalog st)) key = Some (pod, vm)"
      "unreadable (ts_catalog st) = []" "bm_ok (resources (ts_catalog st))"
    using stored_pods_Cons [OF assms(3)] by auto
  show ?thesis
    using assms(1) step
  proof (cases rule: schedule_podE)
    case idle
    have "ts_catalog st' = ts_catalog st" "ts_ledger st' = ts_ledger st" "ts_cursor st' = ts_cursor st"
      by (subst idle(3), simp)+
    moreover have "\<not> (\<exists>node \<in> set observed.
        schedulable_on pod (pod_requests_of (te_float env) pod) (ts_ledger st) node)" if "is_pending pod"
      using idle(1) that by (intro not_placeable) (auto simp: settled_def split: filtered.splits)
    ultimately show ?thesis using idle stored by (simp add: turn_result_def cat_get_def)
  next
    case (mark d)
    let ?c = "unschedulable_condition d"
    have "\<not> (\<exists>node \<in> set observed.
        schedulable_on pod (pod_requests_of (te_float env) pod) (ts_ledger st) node)"
      by (rule not_placeable) (simp add: mark(2))
    moreover obtain r where r: "err = None" "unreadable (ts_catalog st') = []"
        "resources (ts_catalog st') = patch_entry r (unschedulable_patch ?c) (resources (ts_catalog st)) key"
      using commits_patched [OF mark(4) assms(2) stored(3,1)] by blast
    have "settled env observed (ts_ledger st) v \<and> is_pending v = is_pending pod"
      if v: "cat_get (ts_catalog st') key = Some v" for v
    proof -
      obtain vm' where "map_of (resources (ts_catalog st')) key = Some (v, vm')"
        using v by (auto simp: cat_get_def)
      from marked_in_store [OF stored(2) mark(3) this [unfolded r(3)]]
      have "same_needs v pod" "already_marked v ?c" by simp_all
      then show ?thesis
        using settled_same_needs [OF _ _ mark(2)] by (simp add: same_needs_def is_pending_def)
    qed
    moreover have "map_of (resources (ts_catalog st')) k = map_of (resources (ts_catalog st)) k" if "k \<noteq> key" for k
      using patched_by_other [OF mark(4) that] .
    moreover have "cluster_ledger (te_float env) (ts_catalog st') = cluster_ledger (te_float env) (ts_catalog st)"
      by (rule books_mark [OF stored(4,2) mark(1) stored(1) r(3)])
    ultimately show ?thesis
      using r(1,2) mark(1,5-7) patched_by_ok [OF mark(4) stored(4)]
        pod_patched_keeps [OF patched_by_pod [OF mark(4) stored(1)]] by (simp add: turn_result_def)
  next
    case (bind f nd c)
    obtain r where r: "err = None" "unreadable (ts_catalog st') = []"
        "resources (ts_catalog st') = patch_entry r (bind_patch nd) (resources (ts_catalog st)) key"
      using commits_patched [OF bind(4) assms(2) stored(3,1)] by blast
    note fit = pick_fits [OF bind(2,3)]
    have "bound_node_of v = Some nd" if v: "cat_get (ts_catalog st') key = Some v" for v
    proof -
      obtain vm' where "map_of (resources (ts_catalog st')) key = Some (v, vm')"
        using v by (auto simp: cat_get_def)
      from bound_in_store [OF stored(2) bind(1) fit(1) this [unfolded r(3)]] show ?thesis .
    qed
    then have "bound_well [(key, pod)] (ts_catalog st') \<lparr>bd_key = key, bd_node = nd\<rparr>"
      using bind(1) bound_removed [OF stored(2) bind(1) fit(1), of r]
      by (auto simp: bound_well_def cat_get_def r(3) split: option.split)
    moreover have "placeable (te_float env) observed (ts_ledger st) pod nd"
      using fit(3) by (auto simp: placeable_def)
    moreover have "map_of (resources (ts_catalog st')) k = map_of (resources (ts_catalog st)) k" if "k \<noteq> key" for k
      using patched_by_other [OF bind(4) that] .
    ultimately show ?thesis
      using r(1,2) bind(1,6,7) patched_by_ok [OF bind(4) stored(4)]
        pod_patched_keeps [OF patched_by_pod [OF bind(4) stored(1)]] by (simp add: turn_result_def)
  qed
qed

definition untouched :: "(resource_key \<times> json) list \<Rightarrow> resource_catalog \<Rightarrow> resource_catalog \<Rightarrow> bool" where
  "untouched pods cat cat' \<longleftrightarrow>
     (\<forall>k. (\<forall>pod. (k, pod) \<in> set pods \<longrightarrow> \<not> is_pending pod) \<longrightarrow>
        map_of (resources cat') k = map_of (resources cat) k)"

definition loop_result ::
  "tick_env \<Rightarrow> json list \<Rightarrow> (resource_key \<times> json) list \<Rightarrow> tick_state \<Rightarrow> tick_state \<Rightarrow> binding list \<Rightarrow> bool" where
  "loop_result env observed pods st st' bs \<longleftrightarrow>
     untouched pods (ts_catalog st) (ts_catalog st') \<and>
     unreadable (ts_catalog st') = [] \<and> bm_ok (resources (ts_catalog st')) \<and>
     (\<forall>nodes. observe env (ts_catalog st') nodes = observe env (ts_catalog st) nodes) \<and>
     node_values (ts_catalog st') = node_values (ts_catalog st) \<and>
     tr_bound (ts_report st') = tr_bound (ts_report st) @ bs \<and>
     (\<forall>bd \<in> set bs. bound_well pods (ts_catalog st') bd) \<and>
     bound_in_turn (te_float env) observed (ts_ledger st) pods bs \<and>
     (bs = [] \<longrightarrow>
        ts_ledger st' = ts_ledger st \<and> ts_cursor st' = ts_cursor st \<and>
        cluster_ledger (te_float env) (ts_catalog st') = cluster_ledger (te_float env) (ts_catalog st) \<and>
        (\<forall>(key, pod) \<in> set pods. \<forall>v. cat_get (ts_catalog st') key = Some v \<longrightarrow>
           settled env observed (ts_ledger st) v))"

lemma untouched_Cons:
  assumes "\<And>k. k \<noteq> key \<or> \<not> is_pending pod \<Longrightarrow> map_of (resources c1) k = map_of (resources c) k"
    and "untouched pods c1 c2"
  shows "untouched ((key, pod) # pods) c c2"
  unfolding untouched_def
proof (intro allI impI)
  fix k assume np: "\<forall>p. (k, p) \<in> set ((key, pod) # pods) \<longrightarrow> \<not> is_pending p"
  have "map_of (resources c1) k = map_of (resources c) k" using np by (intro assms(1)) auto
  moreover have "map_of (resources c2) k = map_of (resources c1) k" using assms(2) np by (simp add: untouched_def)
  ultimately show "map_of (resources c2) k = map_of (resources c) k" by simp
qed

lemma bound_well_mono:
  assumes "bound_well pods cat bd" and "set pods \<subseteq> set pods'"
    and "cat_get cat' (bd_key bd) = cat_get cat (bd_key bd)"
  shows "bound_well pods' cat' bd"
  using assms by (auto simp: bound_well_def)

lemma loop_result_Cons:
  assumes turn: "turn_result env observed key pod st s"
    and rest: "loop_result env observed pods s st' bs"
    and fresh: "key \<notin> fst ` set pods"
  shows "\<exists>bs'. loop_result env observed ((key, pod) # pods) st st' bs'"
proof -
  have kept: "cat_get (ts_catalog st') key = cat_get (ts_catalog s) key"
  proof -
    have "\<forall>p. (key, p) \<in> set pods \<longrightarrow> \<not> is_pending p" using fresh by force
    with rest show ?thesis by (simp add: loop_result_def untouched_def cat_get_def)
  qed
  have later: "\<forall>bd \<in> set bs. bound_well ((key, pod) # pods) (ts_catalog st') bd"
  proof
    fix bd assume "bd \<in> set bs"
    then have "bound_well pods (ts_catalog st') bd" using rest by (simp add: loop_result_def)
    then show "bound_well ((key, pod) # pods) (ts_catalog st') bd" by (rule bound_well_mono) auto
  qed
  have frame: "untouched ((key, pod) # pods) (ts_catalog st) (ts_catalog st')"
    using turn rest by (intro untouched_Cons [of key pod "ts_catalog s"]) (simp_all add: turn_result_def loop_result_def)
  consider (idle) "tr_bound (ts_report s) = tr_bound (ts_report st)" "ts_ledger s = ts_ledger st"
      "ts_cursor s = ts_cursor st"
      "cluster_ledger (te_float env) (ts_catalog s) = cluster_ledger (te_float env) (ts_catalog st)"
      "\<forall>v. cat_get (ts_catalog s) key = Some v \<longrightarrow> settled env observed (ts_ledger st) v"
      "\<not> (is_pending pod \<and>
        (\<exists>node \<in> set observed. schedulable_on pod (pod_requests_of (te_float env) pod) (ts_ledger st) node))"
    | (bound) nd where "tr_bound (ts_report s) = tr_bound (ts_report st) @ [\<lparr>bd_key = key, bd_node = nd\<rparr>]"
      "bound_well [(key, pod)] (ts_catalog s) \<lparr>bd_key = key, bd_node = nd\<rparr>"
      "is_pending pod" "placeable (te_float env) observed (ts_ledger st) pod nd"
      "ts_ledger s = ledger_debit nd (pod_requests_of (te_float env) pod) (ts_ledger st)"
    using turn unfolding turn_result_def by (elim conjE disjE exE) simp_all
  then show ?thesis
  proof cases
    case idle
    have "bound_in_turn (te_float env) observed (ts_ledger st) ((key, pod) # pods) bs"
      using rest idle(2,6) by (simp only: bound_in_turn.simps if_False loop_result_def simp_thms)
    with idle(1-5) turn rest frame later kept have "loop_result env observed ((key, pod) # pods) st st' bs"
      by (simp add: loop_result_def turn_result_def del: bound_in_turn.simps)
    then show ?thesis ..
  next
    case bound
    have "bound_well ((key, pod) # pods) (ts_catalog st') \<lparr>bd_key = key, bd_node = nd\<rparr>"
      using bound(2) by (rule bound_well_mono) (simp_all add: kept)
    moreover have "bound_in_turn (te_float env) observed (ts_ledger st) ((key, pod) # pods)
        (\<lparr>bd_key = key, bd_node = nd\<rparr> # bs)"
      using bound(3-5) rest by (simp add: loop_result_def) (auto simp: placeable_def)
    ultimately
    have "loop_result env observed ((key, pod) # pods) st st' (\<lparr>bd_key = key, bd_node = nd\<rparr> # bs)"
      using bound(1) turn rest frame later
      by (simp add: loop_result_def turn_result_def del: bound_in_turn.simps)
    then show ?thesis ..
  qed
qed

lemma tick_loop_commits:
  assumes "quiet env" and "commits env" and "stored_pods pods st"
    and "tick_loop env observed pods st = (st', err)"
  shows "err = None \<and> (\<exists>bs. loop_result env observed pods st st' bs)"
  using assms(3,4)
proof (induction pods arbitrary: st)
  case Nil
  then show ?case by (simp add: loop_result_def untouched_def stored_pods_def)
next
  case (Cons kp pods)
  obtain key pod where kp: "kp = (key, pod)" by (cases kp)
  note stored = Cons.prems(1) [unfolded kp]
  obtain s e where step: "schedule_pod env observed key pod st = (s, e)" by fastforce
  have turn: "e = None" "turn_result env observed key pod st s"
    using turn_commits [OF assms(1,2) stored step] by simp_all
  have "stored_pods pods s"
    using stored turn(2) by (intro stored_pods_next [of key pod pods st]) (simp_all add: turn_result_def)
  moreover have "tick_loop env observed pods s = (st', err)"
    using Cons.prems(2) step turn(1) by (simp add: kp)
  ultimately obtain bs where "err = None" "loop_result env observed pods s st' bs"
    using Cons.IH by blast
  with loop_result_Cons [OF turn(2) _ stored_pods_Cons(4) [OF stored]] show ?case by (simp add: kp)
qed

section \<open>Accounting\<close>

definition accounted :: "tick_report \<Rightarrow> bool" where
  "accounted r \<longleftrightarrow>
     tr_pending_pods r = length (tr_bound r) + tr_unschedulable r + tr_no_nodes_observed r \<and>
     tr_unschedulable_written r \<le> tr_unschedulable r"

lemma propose_patch_report: "propose_patch env key p st = (st', err) \<Longrightarrow> ts_report st' = ts_report st"
  by (auto simp: propose_patch_def split: prod.splits)

lemma schedule_pod_report:
  assumes "schedule_pod env observed key pod st = (st', None)" and "accounted (ts_report st)"
  shows "accounted (ts_report st') \<and>
    tr_pending_pods (ts_report st') = tr_pending_pods (ts_report st) + (if is_pending pod then 1 else 0) \<and>
    tr_pods_examined (ts_report st') = tr_pods_examined (ts_report st) \<and>
    tr_nodes_available (ts_report st') = tr_nodes_available (ts_report st)"
  using assms
  by (auto simp: schedule_pod_def bind_pod_def mark_unschedulable_def accounted_def report_update_def Let_def
      dest!: propose_patch_report split: if_splits filtered.splits prod.splits option.splits sum.splits)

lemma tick_loop_report:
  assumes "tick_loop env observed pods st = (st', None)" and "accounted (ts_report st)"
  shows "accounted (ts_report st') \<and>
    tr_pending_pods (ts_report st') =
      tr_pending_pods (ts_report st) + length (filter (\<lambda>(_, pod). is_pending pod) pods)"
  using assms
proof (induction pods arbitrary: st)
  case (Cons kp pods)
  obtain key pod where kp: "kp = (key, pod)" by (cases kp)
  obtain s where step: "schedule_pod env observed key pod st = (s, None)"
    using Cons.prems(1) by (auto simp: kp split: prod.splits option.splits)
  then show ?case
    using schedule_pod_report [OF step Cons.prems(2)] Cons.IH [of s] Cons.prems(1) by (simp add: kp)
qed simp

lemma accounted_start: "accounted (ts_report (tick_start env cat cursor))"
  by (simp add: tick_start_def accounted_def)

section \<open>Ticks that settle\<close>

lemma schedule_settled:
  assumes "settled env observed (ts_ledger st) pod"
  shows "\<exists>r. schedule_pod env observed key pod st = (st\<lparr>ts_report := r\<rparr>, None)"
proof (cases "is_pending pod")
  case True
  with assms show ?thesis
    by (auto simp: settled_def schedule_pod_def mark_unschedulable_def report_update_def split: filtered.splits)
next
  case False
  then have "schedule_pod env observed key pod st = (st\<lparr>ts_report := ts_report st\<rparr>, None)"
    by (simp add: schedule_pod_def)
  then show ?thesis ..
qed

lemma tick_loop_settled:
  assumes "\<forall>(key, pod) \<in> set pods. settled env observed (ts_ledger st) pod"
  shows "\<exists>r. tick_loop env observed pods st = (st\<lparr>ts_report := r\<rparr>, None)"
  using assms
proof (induction pods arbitrary: st)
  case Nil
  have "tick_loop env observed [] st = (st\<lparr>ts_report := ts_report st\<rparr>, None)" by simp
  then show ?case ..
next
  case (Cons kp pods)
  obtain key pod where kp: "kp = (key, pod)" by (cases kp)
  obtain r where "schedule_pod env observed key pod st = (st\<lparr>ts_report := r\<rparr>, None)"
    using schedule_settled [of env observed st pod key] Cons.prems by (auto simp: kp)
  moreover obtain r' where "tick_loop env observed pods (st\<lparr>ts_report := r\<rparr>) =
      (st\<lparr>ts_report := r\<rparr>\<lparr>ts_report := r'\<rparr>, None)"
    using Cons.IH [of "st\<lparr>ts_report := r\<rparr>"] Cons.prems by auto
  ultimately show ?case by (auto simp: kp)
qed

text \<open>The store and the cursor after a tick, and after a number of ticks.\<close>

definition next_tick :: "tick_env \<Rightarrow> resource_catalog \<times> 64 word \<Rightarrow> resource_catalog \<times> 64 word" where
  "next_tick env s = (let st = fst (tick env (fst s) (snd s)) in (ts_catalog st, ts_cursor st))"

fun after_ticks :: "tick_env \<Rightarrow> nat \<Rightarrow> resource_catalog \<times> 64 word \<Rightarrow> resource_catalog \<times> 64 word" where
  "after_ticks env 0 s = s"
| "after_ticks env (Suc k) s = after_ticks env k (next_tick env s)"

definition store_ok :: "resource_catalog \<Rightarrow> bool" where
  "store_ok cat \<longleftrightarrow> bm_ok (resources cat) \<and> unreadable cat = []"

lemma stored_start:
  assumes "store_ok cat"
  shows "stored_pods (scope_pods env cat) (tick_start env cat cursor)"
proof -
  have ok: "bm_ok (resources cat)" using assms by (simp add: store_ok_def)
  have "is_pod_key key \<and> cat_get cat key = Some pod" if "(key, pod) \<in> set (scope_pods env cat)" for key pod
    using that store_list_mem [OF ok]
    by (auto simp: scope_pods_def is_pod_key_def scope_contains_def scope_new_def)
  then show ?thesis
    using assms store_list_distinct [OF ok] by (auto simp: stored_pods_def store_ok_def tick_start_def scope_pods_def)
qed

lemma tick_commits:
  assumes "quiet env" and "commits env" and "store_ok cat"
  obtains st bs where "tick env cat cursor = (st, Inr (ts_report st))"
    "loop_result env (observe env cat (node_values cat)) (scope_pods env cat) (tick_start env cat cursor) st bs"
    "tr_bound (ts_report st) = bs" "accounted (ts_report st)"
    "tr_pending_pods (ts_report st) = length (filter (\<lambda>(_, pod). is_pending pod) (scope_pods env cat))"
proof -
  obtain st err where loop: "tick_loop env (observe env cat (node_values cat)) (scope_pods env cat)
      (tick_start env cat cursor) = (st, err)" by fastforce
  obtain bs where bs: "err = None" "loop_result env (observe env cat (node_values cat)) (scope_pods env cat)
      (tick_start env cat cursor) st bs"
    using tick_loop_commits [OF assms(1,2) stored_start [OF assms(3)] loop] by blast
  have "tr_bound (ts_report st) = bs"
    using bs(2) by (simp add: loop_result_def tick_start_def)
  moreover have "accounted (ts_report st) \<and>
      tr_pending_pods (ts_report st) = length (filter (\<lambda>(_, pod). is_pending pod) (scope_pods env cat))"
    using tick_loop_report [OF loop [unfolded bs(1)] accounted_start] by (simp add: tick_start_def)
  ultimately show thesis using that [of st bs] bs loop by (simp add: tick_def)
qed

definition pending_keys :: "tick_env \<Rightarrow> resource_catalog \<Rightarrow> resource_key set" where
  "pending_keys env cat = fst ` set (filter (\<lambda>(_, pod). is_pending pod) (scope_pods env cat))"

lemma pending_keys_iff:
  assumes "bm_ok (resources cat)"
  shows "k \<in> pending_keys env cat \<longleftrightarrow>
    scope_contains (scope_new '''' ''v1'' ''Pod'' (list_filter (te_scope env))) k \<and>
    (\<exists>v. cat_get cat k = Some v \<and> is_pending v)"
  using store_list_mem [OF assms, of k] by (force simp: pending_keys_def scope_pods_def)

lemma tick_pending:
  assumes "store_ok cat" and "loop_result env observed (scope_pods env cat) (tick_start env cat cursor) st bs"
  shows "pending_keys env (ts_catalog st) \<subseteq> pending_keys env cat"
    and "bs \<noteq> [] \<Longrightarrow> pending_keys env (ts_catalog st) \<noteq> pending_keys env cat"
proof -
  have ok: "bm_ok (resources cat)" "bm_ok (resources (ts_catalog st))"
    using assms by (simp_all add: store_ok_def loop_result_def)
  have frame: "untouched (scope_pods env cat) cat (ts_catalog st)"
    using assms(2) by (simp add: loop_result_def tick_start_def)
  have scoped: "(k, v) \<in> set (scope_pods env cat) \<longleftrightarrow>
      scope_contains (scope_new '''' ''v1'' ''Pod'' (list_filter (te_scope env))) k \<and> cat_get cat k = Some v" for k v
    unfolding scope_pods_def by (rule store_list_mem [OF ok(1)])
  show "pending_keys env (ts_catalog st) \<subseteq> pending_keys env cat"
  proof
    fix k assume k: "k \<in> pending_keys env (ts_catalog st)"
    show "k \<in> pending_keys env cat"
    proof (rule ccontr)
      assume not: "k \<notin> pending_keys env cat"
      then have "\<forall>pod. (k, pod) \<in> set (scope_pods env cat) \<longrightarrow> \<not> is_pending pod"
        by (force simp: pending_keys_def)
      then have "cat_get (ts_catalog st) k = cat_get cat k"
        using frame by (simp add: untouched_def cat_get_def)
      with k not show False by (simp add: pending_keys_iff ok)
    qed
  qed
  assume "bs \<noteq> []"
  then obtain bd where bd: "bd \<in> set bs" by (cases bs) auto
  then have well: "bound_well (scope_pods env cat) (ts_catalog st) bd"
    using assms(2) by (simp add: loop_result_def)
  then have "bd_key bd \<in> pending_keys env cat" by (force simp: bound_well_def pending_keys_def)
  moreover have "bd_key bd \<notin> pending_keys env (ts_catalog st)"
    using well by (auto simp: pending_keys_iff ok bound_well_def is_pending_unbound)
  ultimately show "pending_keys env (ts_catalog st) \<noteq> pending_keys env cat" by blast
qed

lemma tick_store_ok:
  assumes "quiet env" and "commits env" and "store_ok cat"
  shows "store_ok (fst (next_tick env (cat, cursor)))"
  by (rule tick_commits [OF assms, of cursor])
    (auto simp: next_tick_def store_ok_def loop_result_def)

text \<open>After a tick that binds nothing, the next one writes nothing.\<close>

lemma quiescent:
  assumes "quiet env" and "store_ok cat" and "bs = []"
    and "tick env cat cursor = (st, Inr (ts_report st))"
    and "loop_result env (observe env cat (node_values cat)) (scope_pods env cat) (tick_start env cat cursor) st bs"
  shows "next_tick env (ts_catalog st, ts_cursor st) = (ts_catalog st, ts_cursor st)"
proof -
  let ?cat = "ts_catalog st"
  let ?obs = "observe env cat (node_values cat)"
  have same: "observe env ?cat (node_values ?cat) = ?obs"
      "cluster_ledger (te_float env) ?cat = cluster_ledger (te_float env) cat"
    and ok: "bm_ok (resources cat)" "bm_ok (resources ?cat)"
    using assms(2,3,5) by (simp_all add: loop_result_def tick_start_def store_ok_def)
  have "settled env ?obs (cluster_ledger (te_float env) cat) v" if kv: "(k, v) \<in> set (scope_pods env ?cat)" for k v
  proof (cases "is_pending v")
    case True
    have "k \<in> pending_keys env ?cat" using kv True by (force simp: pending_keys_def)
    then have "k \<in> pending_keys env cat" using tick_pending(1) [OF assms(2,5)] by blast
    then obtain pod where "(k, pod) \<in> set (scope_pods env cat)" by (auto simp: pending_keys_def)
    moreover have "cat_get ?cat k = Some v"
      using kv ok(2) by (simp add: scope_pods_def store_list_mem)
    moreover have "\<forall>(key, pod) \<in> set (scope_pods env cat). \<forall>v. cat_get ?cat key = Some v \<longrightarrow>
        settled env ?obs (cluster_ledger (te_float env) cat) v"
      using assms(3,5) by (simp add: loop_result_def tick_start_def)
    ultimately show ?thesis by blast
  qed (simp add: settled_def)
  then have "\<forall>(k, v) \<in> set (scope_pods env ?cat). settled env ?obs
      (ts_ledger (tick_start env ?cat (ts_cursor st))) v"
    by (auto simp: tick_start_def same)
  from tick_loop_settled [OF this]
  obtain r where "tick_loop env ?obs (scope_pods env ?cat) (tick_start env ?cat (ts_cursor st)) =
      (tick_start env ?cat (ts_cursor st)\<lparr>ts_report := r\<rparr>, None)" by blast
  then show ?thesis by (simp add: next_tick_def tick_def same) (simp add: tick_start_def)
qed

lemma ticks_settle:
  assumes "quiet env" and "commits env" and "store_ok (fst s)"
  shows "\<exists>k \<le> card (pending_keys env (fst s)) + 1. next_tick env (after_ticks env k s) = after_ticks env k s"
  using assms(3)
proof (induction "card (pending_keys env (fst s))" arbitrary: s rule: less_induct)
  case less
  obtain cat cursor where s: "s = (cat, cursor)" by (cases s)
  have ok: "store_ok cat" using less.prems by (simp add: s)
  obtain st bs where t: "tick env cat cursor = (st, Inr (ts_report st))"
      "loop_result env (observe env cat (node_values cat)) (scope_pods env cat) (tick_start env cat cursor) st bs"
    by (rule tick_commits [OF assms(1,2) ok, of cursor])
  have nxt: "next_tick env s = (ts_catalog st, ts_cursor st)" by (simp add: next_tick_def s t(1))
  show ?case
  proof (cases "bs = []")
    case True
    then have "next_tick env (after_ticks env 1 s) = after_ticks env 1 s"
      using quiescent [OF assms(1) ok _ t] nxt by simp
    then show ?thesis by (intro exI [of _ 1]) simp
  next
    case False
    have "finite (pending_keys env cat)" by (simp add: pending_keys_def)
    then have lt: "card (pending_keys env (ts_catalog st)) < card (pending_keys env cat)"
      using tick_pending [OF ok t(2)] False by (intro psubset_card_mono) auto
    have "store_ok (ts_catalog st)" using tick_store_ok [OF assms(1,2) ok, of cursor] nxt s by simp
    with less.hyps [of "(ts_catalog st, ts_cursor st)"] lt
    obtain k where "k \<le> card (pending_keys env (ts_catalog st)) + 1"
        "next_tick env (after_ticks env k (ts_catalog st, ts_cursor st)) =
          after_ticks env k (ts_catalog st, ts_cursor st)"
      by (auto simp: s)
    with lt nxt show ?thesis by (intro exI [of _ "Suc k"]) (simp add: s)
  qed
qed

lemma after_ticks_Suc: "after_ticks env (Suc k) s = next_tick env (after_ticks env k s)"
  by (induction k arbitrary: s) simp_all

lemma after_ticks_fixed: "next_tick env (after_ticks env k s) = after_ticks env k s \<Longrightarrow> k \<le> j \<Longrightarrow>
    after_ticks env j s = after_ticks env k s"
proof (induction j)
  case (Suc j)
  then show ?case by (cases "k = Suc j") (simp_all add: after_ticks_Suc del: after_ticks.simps)
qed simp

section \<open>Properties of the scheduler\<close>

text \<open>
  C7. A tick never overcommits a node, as long as the other writers, while it runs, leave the pods
  that are still pending as they are and take nothing from the books of a node (they may create,
  finish and delete pods, and write anything else). Whatever Raft answers to the tick's proposals,
  and even when the tick is cut short by a failed one, the books drawn up from the resulting store
  show, for every node and in each dimension, no less than what the books showed when the tick
  began, or no less than zero: the tick binds pods only to capacity that was free, counting the
  pods it has bound itself. Without the hypothesis this is not so: the tick judges by what it
  listed when it began, at one moment, and a pod bound by another writer meanwhile is not
  counted.
\<close>

theorem tick_never_overcommits:
  assumes "spares env" and "bm_ok (resources cat)" and "tick env cat cursor = (st, res)"
    and "map_of (cluster_ledger (te_float env) cat) n = Some b"
  shows "\<exists>b'. map_of (cluster_ledger (te_float env) (ts_catalog st)) n = Some b' \<and>
    min 0 (b_cpu_milli b) \<le> b_cpu_milli b' \<and> min 0 (b_mem_milli b) \<le> b_mem_milli b'"
proof -
  obtain err where "tick_loop env (observe env cat (node_values cat)) (scope_pods env cat)
      (tick_start env cat cursor) = (st, err)"
    using assms(3) by (auto simp: tick_def split: prod.splits option.splits)
  then have debt: "no_new_debt env cat (ts_catalog st)"
    by (rule tick_loop_debt [OF assms(1) tick_inv_start [OF assms(2)]])
  then have "books env cat n = None \<longleftrightarrow> books env (ts_catalog st) n = None"
    by (simp add: no_new_debt_def books_le_iff)
  then obtain b' where "books env (ts_catalog st) n = Some b'" 
    using assms(4) by (cases "books env (ts_catalog st) n") simp_all
  with books_leD [OF debt [unfolded no_new_debt_def], of n "debt b" b'] assms(4) show ?thesis
    by (simp add: balance_le_def debt_def)
qed

text \<open>
  C9. What a tick does, on a store with no unreadable entry, when every proposal of it commits and
  nobody else writes meanwhile. It ends with a report. Walking the pods of the scheduler's scope in
  the order of the store, starting from the free capacity the stored pods leave on each node, the
  tick binds a pending pod exactly when some observed node passes every filter for it, capacity
  included; it binds it to such a node, and the pod's requests are taken from that node before the
  next pod is looked at. The store then has each of these pods bound to its node (or no longer has
  it, when it was being deleted without finalizers). Nothing but pending pods of the scope is
  written. Every pending pod is counted once: bound, unschedulable, or without an observed node.
\<close>

theorem tick_exact:
  assumes "quiet env" and "commits env" and "store_ok cat" and "tick env cat cursor = (st, res)"
  shows "\<exists>rep. res = Inr rep \<and>
    bound_in_turn (te_float env) (observe env cat (node_values cat)) (cluster_ledger (te_float env) cat)
      (scope_pods env cat) (tr_bound rep) \<and>
    (\<forall>bd \<in> set (tr_bound rep). bound_well (scope_pods env cat) (ts_catalog st) bd) \<and>
    untouched (scope_pods env cat) cat (ts_catalog st) \<and>
    tr_pending_pods rep = length (filter (\<lambda>(_, pod). is_pending pod) (scope_pods env cat)) \<and>
    tr_pending_pods rep = length (tr_bound rep) + tr_unschedulable rep + tr_no_nodes_observed rep"
proof -
  obtain st' bs where t: "tick env cat cursor = (st', Inr (ts_report st'))"
      "loop_result env (observe env cat (node_values cat)) (scope_pods env cat) (tick_start env cat cursor) st' bs"
      "tr_bound (ts_report st') = bs" "accounted (ts_report st')"
      "tr_pending_pods (ts_report st') = length (filter (\<lambda>(_, pod). is_pending pod) (scope_pods env cat))"
    by (rule tick_commits [OF assms(1-3), of cursor])
  have "st' = st" "res = Inr (ts_report st')" using t(1) assms(4) by simp_all
  with t show ?thesis
    by (intro exI [of _ "ts_report st'"]) (simp add: loop_result_def accounted_def tick_start_def)
qed

text \<open>
  C8. The scheduler settles, on a store with no unreadable entry, while nobody else writes, every
  proposal commits, and the readings of the clock (the age of each heartbeat, the present time)
  stay the same from tick to tick: repeated ticks then reach a state of the store and of the
  cursor that no further tick changes, after at most as many ticks as there are pending pods in
  scope at the beginning, and one more.
\<close>

theorem scheduler_settles:
  assumes "quiet env" and "commits env" and "store_ok cat"
  shows "\<exists>k \<le> length (filter (\<lambda>(_, pod). is_pending pod) (scope_pods env cat)) + 1.
    \<forall>j \<ge> k. after_ticks env j (cat, cursor) = after_ticks env k (cat, cursor)"
proof -
  obtain k where k: "k \<le> card (pending_keys env cat) + 1"
      "next_tick env (after_ticks env k (cat, cursor)) = after_ticks env k (cat, cursor)"
    using ticks_settle [OF assms(1,2), of "(cat, cursor)", unfolded fst_conv, OF assms(3)] by blast
  moreover have "card (pending_keys env cat) \<le> length (filter (\<lambda>(_, pod). is_pending pod) (scope_pods env cat))"
    unfolding pending_keys_def by (rule order.trans [OF card_image_le card_length]) simp
  ultimately have "k \<le> length (filter (\<lambda>(_, pod). is_pending pod) (scope_pods env cat)) + 1" by linarith
  with after_ticks_fixed [OF k(2)] show ?thesis by blast
qed

section \<open>An example cluster\<close>

definition example_pod :: "string \<Rightarrow> string \<Rightarrow> json" where
  "example_pod nm cpu =
     JObject
       [(''metadata'', JObject [(''name'', JString nm)]),
        (''spec'', JObject
           [(''containers'', JArray [JObject
              [(''name'', JString ''c''),
               (''resources'', JObject [(''requests'', JObject [(''cpu'', JString cpu)])])]])])]"

definition example_cluster :: resource_catalog where
  "example_cluster =
     (catalog_new 4 (\<lambda>_ _. LReplace))\<lparr>resources :=
        fold (\<lambda>(k, v). bm_insert k (v, created_at 1))
          [(cluster_scoped [] ''v1'' ''Node'' ''n1'',
            JObject [(''metadata'', JObject [(''name'', JString ''n1'')]),
                     (''status'', JObject [(''allocatable'',
                        JObject [(''cpu'', JString ''2''), (''memory'', JString ''1Gi'')])])]),
           (lease_key ''n1'', lease_value ''n1'' ''now'' 0),
           (namespaced [] ''v1'' ''Pod'' ''default'' ''a'', example_pod ''a'' ''1500m''),
           (namespaced [] ''v1'' ''Pod'' ''default'' ''b'', example_pod ''b'' ''1'')] []\<rparr>"

definition example_tick_env :: tick_env where
  "example_tick_env =
     \<lparr>te_ext = example_ext, te_store = MemoryStore, te_float = (\<lambda>_. []), te_age = (\<lambda>_. Some 0),
      te_now = ''now'', te_scope = ScopeAll, rf_others = (\<lambda>_ c. c), rf_answer = (\<lambda>i. Committed 1 i)\<rparr>"

definition example_key :: resource_key where
  "example_key = namespaced [] ''v1'' ''Pod'' ''default'' ''a''"

lemma example_cluster_ok:
  "quiet example_tick_env" "commits example_tick_env" "store_ok example_cluster" "bm_ok (resources example_cluster)"
proof -
  show "quiet example_tick_env" "commits example_tick_env"
    by (simp_all add: quiet_def commits_def example_tick_env_def)
  show "bm_ok (resources example_cluster)"
    by code_simp
  then show "store_ok example_cluster" by (simp add: store_ok_def example_cluster_def catalog_new_def)
qed

lemma example_balance:
  "map_of (cluster_ledger (te_float example_tick_env) example_cluster) ''n1'' =
    Some \<lparr>b_cpu_milli = 2000, b_mem_milli = 1073741824000\<rparr>"
  by code_simp

text \<open>An environment with another writer, who rewrites a ConfigMap before each proposal.\<close>

definition busy_env :: tick_env where
  "busy_env = example_tick_env\<lparr>rf_others := \<lambda>_ c.
     c\<lparr>resources := bm_insert (namespaced [] ''v1'' ''ConfigMap'' ''default'' ''c'') (JObject [], created_at 1)
       (resources c)\<rparr>\<rparr>"

lemma books_other_key:
  assumes "\<not> scope_contains (scope_new [] ''v1'' ''Pod'' None) k"
    and "\<not> scope_contains (scope_new [] ''v1'' ''Node'' None) k"
  shows "cluster_ledger ft (c\<lparr>resources := bm_insert k e (resources c)\<rparr>) = cluster_ledger ft c"
  using assms by (simp add: cluster_ledger_def node_values_def store_list_items filter_map_items filter_bm_other)

lemma busy_env_spares: "spares busy_env"
  by (auto simp: spares_def busy_env_def is_pod_key_def cat_get_def books_other_key scope_contains_def scope_new_def
      namespaced_def books_le_iff balance_le_def)

theorem tick_never_overcommits_witness:
  "\<exists>b'. map_of (cluster_ledger (te_float busy_env)
      (ts_catalog (fst (tick busy_env example_cluster 0)))) ''n1'' = Some b' \<and>
    0 \<le> b_cpu_milli b' \<and> 0 \<le> b_mem_milli b'"
proof -
  have "map_of (cluster_ledger (te_float busy_env) example_cluster) ''n1'' =
      Some \<lparr>b_cpu_milli = 2000, b_mem_milli = 1073741824000\<rparr>"
    using example_balance by (simp add: busy_env_def)
  from tick_never_overcommits [OF busy_env_spares example_cluster_ok(4) prod.collapse [symmetric] this, of 0]
  show ?thesis by simp
qed

text \<open>The tick of the example binds the pod that fits and marks the other unschedulable.\<close>

lemma example_tick:
  "(case snd (tick example_tick_env example_cluster 0) of
      Inr r \<Rightarrow> tr_bound r = [\<lparr>bd_key = example_key, bd_node = ''n1''\<rparr>] \<and> tr_unschedulable_written r = 1
    | Inl _ \<Rightarrow> False)"
  by code_simp

theorem tick_exact_witness:
  "\<exists>rep. snd (tick example_tick_env example_cluster 0) = Inr rep \<and>
    tr_bound rep = [\<lparr>bd_key = example_key, bd_node = ''n1''\<rparr>] \<and>
    untouched (scope_pods example_tick_env example_cluster) example_cluster
      (ts_catalog (fst (tick example_tick_env example_cluster 0)))"
  using tick_exact [OF example_cluster_ok(1-3) prod.collapse [symmetric], of 0] example_tick by auto

theorem scheduler_settles_witness:
  "\<exists>k \<le> 3. \<forall>j \<ge> k. after_ticks example_tick_env j (example_cluster, 0) =
    after_ticks example_tick_env k (example_cluster, 0)"
proof -
  have "length (filter (\<lambda>(_, pod). is_pending pod) (scope_pods example_tick_env example_cluster)) = 2"
    by code_simp
  then show ?thesis using scheduler_settles [OF example_cluster_ok(1-3), of 0] by simp
qed

end
