(* ===== verification/ObjectMeta.thy ===== *)
theory ObjectMeta
  imports Proposal Reads
begin

text \<open>
  What every controller reads and writes of an opaque object: integer fields in their three
  states (\<open>engenho-types/src/spec_int.rs\<close>), the metadata accessors and the total writers
  \<open>object_mut\<close> and \<open>array_mut\<close> with their shape errors (\<open>engenho-controllers/src/meta.rs\<close>),
  owner references (\<open>owner.rs\<close>) and label selectors (\<open>selector.rs\<close>).

  A writer that returns a mutable reference is modelled as the update made through it, so
  it takes the update as an argument and returns the document. When a step of the path has
  the wrong type nothing was created above it either, because it was reached through
  objects that were there: the document of the error case is the old one.
\<close>

section \<open>Integers in their three states\<close>

datatype spec_int = SiAbsent | SiInt int | SiMalformed json

definition spec_int_of :: "json option \<Rightarrow> spec_int" where
  "spec_int_of field =
     (case field of
        None \<Rightarrow> SiAbsent
      | Some JNull \<Rightarrow> SiAbsent
      | Some v \<Rightarrow> (case as_i64 v of None \<Rightarrow> SiMalformed v | Some n \<Rightarrow> SiInt n))"

fun spec_int_at :: "json \<Rightarrow> string list \<Rightarrow> spec_int" where
  "spec_int_at here [] = spec_int_of (Some here)"
| "spec_int_at here (k # path) =
     (case here of
        JNull \<Rightarrow> SiAbsent
      | JObject m \<Rightarrow> (case map_of m k of Some nxt \<Rightarrow> spec_int_at nxt path | None \<Rightarrow> SiAbsent)
      | _ \<Rightarrow> SiMalformed here)"

section \<open>Shapes and their errors\<close>

datatype container = ObjectShape | ArrayShape

datatype json_kind = BoolKind | NumberKind | StringKind | ArrayKind | ObjectKind

fun json_kind_of :: "json \<Rightarrow> json_kind option" where
  "json_kind_of JNull = None"
| "json_kind_of (JBool _) = Some BoolKind"
| "json_kind_of (JNumber _) = Some NumberKind"
| "json_kind_of (JString _) = Some StringKind"
| "json_kind_of (JArray _) = Some ArrayKind"
| "json_kind_of (JObject _) = Some ObjectKind"

datatype shape_error =
    Wrong "string list" container json_kind
  | NotAnInteger "string list" json_kind

fun container_to_string :: "container \<Rightarrow> string" where
  "container_to_string ObjectShape = ''an object''"
| "container_to_string ArrayShape = ''an array''"

fun json_kind_to_string :: "json_kind \<Rightarrow> string" where
  "json_kind_to_string BoolKind = ''a boolean''"
| "json_kind_to_string NumberKind = ''a number''"
| "json_kind_to_string StringKind = ''a string''"
| "json_kind_to_string ArrayKind = ''an array''"
| "json_kind_to_string ObjectKind = ''an object''"

definition field_path_to_string :: "string list \<Rightarrow> string" where
  "field_path_to_string path =
     (if path = [] then ''the object itself'' else join_with ''.'' path)"

fun shape_error_to_string :: "shape_error \<Rightarrow> string" where
  "shape_error_to_string (Wrong path expected found) =
     field_path_to_string path @ '' is '' @ json_kind_to_string found @ '', expected '' @
     container_to_string expected"
| "shape_error_to_string (NotAnInteger path found) =
     field_path_to_string path @ '' is not an integer (found '' @ json_kind_to_string found @ '')''"

fun under :: "string list \<Rightarrow> shape_error \<Rightarrow> shape_error" where
  "under anchor (Wrong path expected found) = Wrong (anchor @ path) expected found"
| "under anchor (NotAnInteger path found) = NotAnInteger (anchor @ path) found"

fun shape_error_path :: "shape_error \<Rightarrow> string list" where
  "shape_error_path (Wrong path _ _) = path"
| "shape_error_path (NotAnInteger path _) = path"

definition int_at :: "json \<Rightarrow> string list \<Rightarrow> (shape_error, int option) result" where
  "int_at v path =
     (case spec_int_at v path of
        SiAbsent \<Rightarrow> Inr None
      | SiInt n \<Rightarrow> Inr (Some n)
      | SiMalformed found \<Rightarrow>
          (case json_kind_of found of
             None \<Rightarrow> Inr None
           | Some k \<Rightarrow> Inl (NotAnInteger path k)))"

record defaulted_int =
  di_path :: "string list"
  di_absent :: int

definition replicas_field :: defaulted_int where
  "replicas_field = \<lparr>di_path = [''spec'', ''replicas''], di_absent = 1\<rparr>"

definition generation_field :: defaulted_int where
  "generation_field = \<lparr>di_path = [''metadata'', ''generation''], di_absent = 0\<rparr>"

definition defaulted_read :: "defaulted_int \<Rightarrow> json \<Rightarrow> (shape_error, int) result" where
  "defaulted_read d v =
     (case int_at v (di_path d) of
        Inl e \<Rightarrow> Inl e
      | Inr None \<Rightarrow> Inr (di_absent d)
      | Inr (Some n) \<Rightarrow> Inr n)"

definition defaulted_read_count :: "defaulted_int \<Rightarrow> json \<Rightarrow> (shape_error, nat) result" where
  "defaulted_read_count d v =
     (case defaulted_read d v of Inl e \<Rightarrow> Inl e | Inr n \<Rightarrow> Inr (nat (max n 0)))"

section \<open>Metadata accessors\<close>

definition meta_uid :: "json \<Rightarrow> string option" where
  "meta_uid v =
     (case Option.bind (member2 ''metadata'' ''uid'' v) as_str of
        Some u \<Rightarrow> (if u = [] then None else Some u)
      | None \<Rightarrow> None)"

definition meta_name :: "json \<Rightarrow> string option" where
  "meta_name v = Option.bind (member2 ''metadata'' ''name'' v) as_str"

definition meta_namespace :: "json \<Rightarrow> string option" where
  "meta_namespace v = Option.bind (member2 ''metadata'' ''namespace'' v) as_str"

definition is_terminating :: "json \<Rightarrow> bool" where
  "is_terminating v \<longleftrightarrow> deletion_timestamp_of v \<noteq> None"

definition has_finalizer :: "string \<Rightarrow> json \<Rightarrow> bool" where
  "has_finalizer f v =
     (case Option.bind (member2 ''metadata'' ''finalizers'' v) as_array of
        Some fs \<Rightarrow> list_ex (\<lambda>x. as_str x = Some f) fs
      | None \<Rightarrow> False)"

definition resource_version_of :: "json \<Rightarrow> nat option" where
  "resource_version_of v =
     Option.bind (Option.bind (member2 ''metadata'' ''resourceVersion'' v) as_str) parse_usize"

section \<open>Total writers\<close>

definition object_slot :: "string list \<Rightarrow> json \<Rightarrow> (shape_error, json_map) result" where
  "object_slot path slot =
     (case slot of
        JObject m \<Rightarrow> Inr m
      | JNull \<Rightarrow> Inr []
      | JBool _ \<Rightarrow> Inl (Wrong path ObjectShape BoolKind)
      | JNumber _ \<Rightarrow> Inl (Wrong path ObjectShape NumberKind)
      | JString _ \<Rightarrow> Inl (Wrong path ObjectShape StringKind)
      | JArray _ \<Rightarrow> Inl (Wrong path ObjectShape ArrayKind))"

definition array_slot :: "string list \<Rightarrow> json \<Rightarrow> (shape_error, json list) result" where
  "array_slot path slot =
     (case slot of
        JArray xs \<Rightarrow> Inr xs
      | JNull \<Rightarrow> Inr []
      | JBool _ \<Rightarrow> Inl (Wrong path ArrayShape BoolKind)
      | JNumber _ \<Rightarrow> Inl (Wrong path ArrayShape NumberKind)
      | JString _ \<Rightarrow> Inl (Wrong path ArrayShape StringKind)
      | JObject _ \<Rightarrow> Inl (Wrong path ArrayShape ObjectKind))"

text \<open>The walk both writers share: every step above the leaf is an object, the leaf is the caller's.\<close>

fun value_mut ::
  "(string list \<Rightarrow> json \<Rightarrow> (shape_error, json \<times> 'a) result) \<Rightarrow> string list \<Rightarrow> string list \<Rightarrow> json
    \<Rightarrow> (shape_error, json \<times> 'a) result" where
  "value_mut leaf walked [] v = leaf walked v"
| "value_mut leaf walked (k # path) v =
     (case object_slot walked v of
        Inl e \<Rightarrow> Inl e
      | Inr m \<Rightarrow>
          (case value_mut leaf (walked @ [k]) path (case map_of m k of Some w \<Rightarrow> w | None \<Rightarrow> JNull) of
             Inl e \<Rightarrow> Inl e
           | Inr (w, a) \<Rightarrow> Inr (JObject (bm_insert k w m), a)))"

definition object_mut ::
  "string list \<Rightarrow> (json_map \<Rightarrow> json_map) \<Rightarrow> json \<Rightarrow> (shape_error, json) result" where
  "object_mut path f v =
     (case value_mut (\<lambda>p slot. case object_slot p slot of Inl e \<Rightarrow> Inl e | Inr m \<Rightarrow> Inr (JObject (f m), ()))
             [] path v of
        Inl e \<Rightarrow> Inl e
      | Inr (w, _) \<Rightarrow> Inr w)"

definition array_mut ::
  "string list \<Rightarrow> (json list \<Rightarrow> json list \<times> 'a) \<Rightarrow> json \<Rightarrow> (shape_error, json \<times> 'a) result" where
  "array_mut path f v =
     value_mut (\<lambda>p slot. case array_slot p slot of
                           Inl e \<Rightarrow> Inl e
                         | Inr xs \<Rightarrow> (case f xs of (ys, a) \<Rightarrow> Inr (JArray ys, a)))
       [] path v"

section \<open>Owner references\<close>

record owner_reference =
  or_api_version :: string
  or_kind :: string
  or_name :: string
  or_uid :: string
  or_controller :: bool
  or_block_owner_deletion :: bool

definition owner_reference_to_value :: "owner_reference \<Rightarrow> json" where
  "owner_reference_to_value o' =
     (let m = bm_insert ''uid'' (JString (or_uid o'))
                (bm_insert ''name'' (JString (or_name o'))
                  (bm_insert ''kind'' (JString (or_kind o'))
                    (bm_insert ''apiVersion'' (JString (or_api_version o')) [])));
          m1 = (if or_controller o' then bm_insert ''controller'' (JBool True) m else m);
          m2 = (if or_block_owner_deletion o' then bm_insert ''blockOwnerDeletion'' (JBool True) m1 else m1)
      in JObject m2)"

text \<open>
  The derived deserializer: the two flags default when they are missing, and an array of
  the fields in order reads too, as serde reads every struct.
\<close>

definition read_flag :: "json option \<Rightarrow> bool option" where
  "read_flag slot =
     (case slot of None \<Rightarrow> Some False | Some (JBool b) \<Rightarrow> Some b | Some _ \<Rightarrow> None)"

definition owner_reference_parts ::
  "json option \<Rightarrow> json option \<Rightarrow> json option \<Rightarrow> json option \<Rightarrow> json option \<Rightarrow> json option
    \<Rightarrow> owner_reference option" where
  "owner_reference_parts a k n u c b =
     (case (Option.bind a as_str, Option.bind k as_str, Option.bind n as_str, Option.bind u as_str,
            read_flag c, read_flag b) of
        (Some a', Some k', Some n', Some u', Some c', Some b') \<Rightarrow>
          Some \<lparr>or_api_version = a', or_kind = k', or_name = n', or_uid = u', or_controller = c',
                or_block_owner_deletion = b'\<rparr>
      | _ \<Rightarrow> None)"

definition nth_opt :: "'a list \<Rightarrow> nat \<Rightarrow> 'a option" where
  "nth_opt xs i = (if i < length xs then Some (xs ! i) else None)"

definition owner_reference_from_value :: "json \<Rightarrow> owner_reference option" where
  "owner_reference_from_value v =
     (case v of
        JObject m \<Rightarrow>
          owner_reference_parts (map_of m ''apiVersion'') (map_of m ''kind'') (map_of m ''name'')
            (map_of m ''uid'') (map_of m ''controller'') (map_of m ''blockOwnerDeletion'')
      | JArray xs \<Rightarrow>
          (if length xs \<le> 6
           then owner_reference_parts (nth_opt xs 0) (nth_opt xs 1) (nth_opt xs 2) (nth_opt xs 3)
                  (nth_opt xs 4) (nth_opt xs 5)
           else None)
      | _ \<Rightarrow> None)"

definition owner_references_path :: "string list" where
  "owner_references_path = [''metadata'', ''ownerReferences'']"

definition set_owner_reference ::
  "owner_reference \<Rightarrow> json \<Rightarrow> (shape_error, json \<times> bool) result" where
  "set_owner_reference owner child =
     array_mut owner_references_path
       (\<lambda>refs. if list_ex (\<lambda>r. Option.bind (jget r ''uid'') as_str = Some (or_uid owner)) refs
               then (refs, False)
               else (refs @ [owner_reference_to_value owner], True))
       child"

definition is_controller_ref :: "json \<Rightarrow> bool" where
  "is_controller_ref r = (case jget r ''controller'' of Some (JBool b) \<Rightarrow> b | _ \<Rightarrow> False)"

definition controller_of_ref :: "json \<Rightarrow> owner_reference option" where
  "controller_of_ref r =
     (if is_controller_ref r
      then (case owner_reference_from_value r of
              Some o' \<Rightarrow> (if or_uid o' = [] then None else Some o')
            | None \<Rightarrow> None)
      else None)"

definition controlling_owner :: "json \<Rightarrow> owner_reference option" where
  "controlling_owner child =
     (case Option.bind (member2 ''metadata'' ''ownerReferences'' child) as_array of
        Some refs \<Rightarrow> find_map controller_of_ref refs
      | None \<Rightarrow> None)"

definition is_owned_by :: "json \<Rightarrow> string \<Rightarrow> bool" where
  "is_owned_by child uid =
     (case controlling_owner child of Some o' \<Rightarrow> or_uid o' = uid | None \<Rightarrow> False)"

definition owner_ref_for :: "json \<Rightarrow> string \<Rightarrow> string \<Rightarrow> owner_reference option" where
  "owner_ref_for parent api_version kind_name =
     (case (meta_name parent, meta_uid parent) of
        (Some n, Some u) \<Rightarrow>
          Some \<lparr>or_api_version = api_version, or_kind = kind_name, or_name = n, or_uid = u,
                or_controller = True, or_block_owner_deletion = True\<rparr>
      | _ \<Rightarrow> None)"

section \<open>Label selectors\<close>

definition matches_labels :: "json \<Rightarrow> json \<Rightarrow> bool" where
  "matches_labels v match_labels =
     (case as_object match_labels of
        None \<Rightarrow> False
      | Some want \<Rightarrow>
          (if want = [] then False
           else case Option.bind (member2 ''metadata'' ''labels'' v) as_object of
                  None \<Rightarrow> False
                | Some have_labels \<Rightarrow> list_all (\<lambda>(k, x). map_of have_labels k = Some x) want))"

definition selector_match_labels :: "json \<Rightarrow> json option" where
  "selector_match_labels parent =
     (case member2 ''spec'' ''selector'' parent of
        None \<Rightarrow> None
      | Some sel \<Rightarrow> (case jget sel ''matchLabels'' of Some ml \<Rightarrow> Some ml | None \<Rightarrow> Some sel))"

definition service_selector :: "json \<Rightarrow> json option" where
  "service_selector service = member2 ''spec'' ''selector'' service"


section \<open>Reading back what the writers wrote\<close>

lemma owner_reference_roundtrip:
  "owner_reference_from_value (owner_reference_to_value o') = Some o'"
  by (simp add: owner_reference_from_value_def owner_reference_to_value_def owner_reference_parts_def
      read_flag_def Let_def)

lemma controller_of_written_ref:
  assumes "or_controller o'" "or_uid o' \<noteq> []"
  shows "controller_of_ref (owner_reference_to_value o') = Some o'"
proof -
  have "is_controller_ref (owner_reference_to_value o')"
    using assms by (simp add: is_controller_ref_def owner_reference_to_value_def Let_def)
  then show ?thesis
    using assms by (simp add: controller_of_ref_def owner_reference_roundtrip)
qed

lemma owner_ref_for_Some:
  "owner_ref_for p api k = Some o' \<longleftrightarrow>
    (\<exists>n u. meta_name p = Some n \<and> meta_uid p = Some u \<and>
      o' = \<lparr>or_api_version = api, or_kind = k, or_name = n, or_uid = u, or_controller = True,
            or_block_owner_deletion = True\<rparr>)"
  by (auto simp: owner_ref_for_def split: option.splits)

lemma meta_uid_nonempty: "meta_uid v = Some u \<Longrightarrow> u \<noteq> []"
  by (auto simp: meta_uid_def split: option.splits if_splits)

end
