(* ===== verification/Client.thy ===== *)
theory Client
  imports ObjectMeta Scheduling Runs
begin

text \<open>
  How a controller talks to the store: the retry curve (\<open>engenho-controllers/src/curve.rs\<close>),
  what a write did (\<open>effect.rs\<close>), how far an error reaches (\<open>error.rs\<close>), conditions set by
  type (\<open>condition.rs\<close>) and the two compare-and-swap status writers (\<open>status.rs\<close>).

  A controller runs beside every other writer of the store. Each of its reads and proposals
  is a call; what the others did to the store before the \<open>i\<close>-th call, how Raft answered it
  and what the clock said are the functions of a \<open>store_env\<close>.
\<close>

section \<open>Retry curves\<close>

record curve =
  cv_base_ms :: nat
  cv_cap_ms :: nat

text \<open>The compile-time assertion of \<open>from_millis\<close>, on 64-bit bounds.\<close>

definition curve_ok :: "curve \<Rightarrow> bool" where
  "curve_ok c \<longleftrightarrow> 0 < cv_base_ms c \<and> cv_base_ms c < cv_cap_ms c \<and> cv_cap_ms c < 2 ^ 64"

definition curve_delay :: "curve \<Rightarrow> nat \<Rightarrow> nat" where
  "curve_delay c n =
     (if n < 64
      then (let ms = cv_base_ms c * 2 ^ n
            in if ms < 2 ^ 64 \<and> ms < cv_cap_ms c then ms else cv_cap_ms c)
      else cv_cap_ms c)"

record streak =
  sk_curve :: curve
  sk_misses :: "32 word"

definition streak_new :: "curve \<Rightarrow> streak" where
  "streak_new c = \<lparr>sk_curve = c, sk_misses = 0\<rparr>"

definition streak_miss :: "streak \<Rightarrow> nat \<times> streak" where
  "streak_miss s =
     (curve_delay (sk_curve s) (unat (sk_misses s)),
      s\<lparr>sk_misses := (if sk_misses s = - 1 then - 1 else sk_misses s + 1)\<rparr>)"

definition streak_reset :: "streak \<Rightarrow> streak" where
  "streak_reset s = s\<lparr>sk_misses := 0\<rparr>"

definition transient_retry :: curve where
  "transient_retry = \<lparr>cv_base_ms = 1000, cv_cap_ms = 60000\<rparr>"

section \<open>What a write did\<close>

datatype refusal = RefusedConflict | RefusedPatch | RefusedApply

datatype effect = EffWritten | EffUnchanged | EffRejected refusal

fun refusal_note :: "refusal \<Rightarrow> string" where
  "refusal_note RefusedConflict = ''the store refused the write: the object changed since it was read''"
| "refusal_note RefusedPatch = ''the store refused the write: the patch body was rejected''"
| "refusal_note RefusedApply = ''the store refused the write: a field is owned by another manager''"

fun effect_of :: "resource_op \<Rightarrow> effect" where
  "effect_of Created = EffWritten"
| "effect_of Replaced = EffWritten"
| "effect_of Patched = EffWritten"
| "effect_of Deleted = EffWritten"
| "effect_of DeletionPending = EffWritten"
| "effect_of NoOp = EffUnchanged"
| "effect_of Unchanged = EffUnchanged"
| "effect_of Conflict = EffRejected RefusedConflict"
| "effect_of PatchRejected = EffRejected RefusedPatch"
| "effect_of ApplyConflict = EffRejected RefusedApply"

fun effect_and :: "effect \<Rightarrow> effect \<Rightarrow> effect" where
  "effect_and EffWritten _ = EffWritten"
| "effect_and _ EffWritten = EffWritten"
| "effect_and (EffRejected r) _ = EffRejected r"
| "effect_and _ (EffRejected r) = EffRejected r"
| "effect_and EffUnchanged EffUnchanged = EffUnchanged"

definition effect_answered :: "bool \<Rightarrow> effect" where
  "effect_answered changed = (if changed then EffWritten else EffUnchanged)"

definition effect_landed :: "effect \<Rightarrow> bool" where
  "effect_landed e \<longleftrightarrow> e = EffWritten"

section \<open>How far an error reaches\<close>

datatype unreclaimable = UnsupportedPolicy | NoDeleter | ForeignDirectory

datatype reclaim_error =
    Unreclaimable unreclaimable
  | RemoveDir string
  | CsiDelete string string

datatype controller_error =
    CeStore store_error
  | CeInvalidResource string
  | CeShape shape_error
  | CeInternal string
  | CeReclaim reclaim_error
  | CePanicked string

fun controller_error_kind :: "controller_error \<Rightarrow> string" where
  "controller_error_kind (CeStore _) = ''store''"
| "controller_error_kind (CeInvalidResource _) = ''invalid_resource''"
| "controller_error_kind (CeShape _) = ''shape''"
| "controller_error_kind (CeInternal _) = ''internal''"
| "controller_error_kind (CeReclaim _) = ''reclaim''"
| "controller_error_kind (CePanicked _) = ''panicked''"

text \<open>The two classes of the fleet's failure vocabulary the controllers use.\<close>

datatype failure_kind = Transient | Declarative

fun reclaim_class :: "reclaim_error \<Rightarrow> failure_kind" where
  "reclaim_class (Unreclaimable _) = Declarative"
| "reclaim_class (RemoveDir _) = Transient"
| "reclaim_class (CsiDelete _ _) = Transient"

fun store_class :: "store_error \<Rightarrow> failure_kind" where
  "store_class (ClientWriteFailed _) = Transient"
| "store_class (PersistFailed _) = Transient"
| "store_class NoLeader = Transient"
| "store_class (LeaderUnreachable _ _) = Transient"
| "store_class (ConfigInvalid _) = Declarative"
| "store_class (InitializeFailed _) = Declarative"
| "store_class (Fatal _) = Declarative"
| "store_class (store_error.SecretUnreadable _ _) = Declarative"

fun classify_error :: "controller_error \<Rightarrow> failure_kind" where
  "classify_error (CeStore e) = store_class e"
| "classify_error (CeInvalidResource _) = Declarative"
| "classify_error (CeShape _) = Declarative"
| "classify_error (CePanicked _) = Declarative"
| "classify_error (CeInternal _) = Transient"
| "classify_error (CeReclaim e) = reclaim_class e"

datatype error_scope = ItemScope | SweepScope

fun store_scope :: "store_error \<Rightarrow> error_scope" where
  "store_scope (store_error.SecretUnreadable _ _) = ItemScope"
| "store_scope _ = SweepScope"

fun scope_of_error :: "controller_error \<Rightarrow> error_scope" where
  "scope_of_error (CeStore e) = store_scope e"
| "scope_of_error (CePanicked _) = SweepScope"
| "scope_of_error _ = ItemScope"

section \<open>Calls to the store\<close>

record store_env =
  se_ext :: externals
  se_store :: mesh_store
  se_clock :: "nat \<Rightarrow> string"
  se_others :: "nat \<Rightarrow> resource_catalog \<Rightarrow> resource_catalog"
  se_answer :: "nat \<Rightarrow> raft_answer"

record store_state =
  ss_catalog :: resource_catalog
  ss_calls :: nat

text \<open>The store as the next call finds it.\<close>

definition found :: "store_env \<Rightarrow> store_state \<Rightarrow> resource_catalog" where
  "found env st = se_others env (ss_calls st) (ss_catalog st)"

definition called :: "resource_catalog \<Rightarrow> store_state \<Rightarrow> store_state" where
  "called cat st = \<lparr>ss_catalog = cat, ss_calls = ss_calls st + 1\<rparr>"

definition store_get :: "store_env \<Rightarrow> resource_key \<Rightarrow> store_state \<Rightarrow> store_state \<times> json option" where
  "store_get env key st = (called (found env st) st, cat_get (found env st) key)"

definition mesh_list ::
  "resource_catalog \<Rightarrow> string \<Rightarrow> string \<Rightarrow> string \<Rightarrow> string option \<Rightarrow> (resource_key \<times> json) list" where
  "mesh_list cat g v k ns =
     (case list_at_revision cat (scope_new g v k ns) of Some (items, _) \<Rightarrow> items | None \<Rightarrow> [])"

definition store_list_call ::
  "store_env \<Rightarrow> string \<Rightarrow> string \<Rightarrow> string \<Rightarrow> string option \<Rightarrow> store_state
    \<Rightarrow> store_state \<times> (resource_key \<times> json) list" where
  "store_list_call env g v k ns st = (called (found env st) st, mesh_list (found env st) g v k ns)"

definition store_propose ::
  "store_env \<Rightarrow> resource_command \<Rightarrow> store_state \<Rightarrow> store_state \<times> (controller_error, apply_outcome) result" where
  "store_propose env cmd st =
     (case propose (se_ext env) (se_store env) (found env st) (se_clock env (ss_calls st)) cmd
             (se_answer env (ss_calls st)) of
        (cat', ans) \<Rightarrow>
          (called cat' st, case ans of Inl e \<Rightarrow> Inl (CeStore e) | Inr out \<Rightarrow> Inr out))"

section \<open>Conditions\<close>

datatype cond_status = CsTrue | CsFalse | CsUnknown

fun cond_status_str :: "cond_status \<Rightarrow> string" where
  "cond_status_str CsTrue = ''True''"
| "cond_status_str CsFalse = ''False''"
| "cond_status_str CsUnknown = ''Unknown''"

record desired_condition =
  dc_type :: string
  dc_status :: cond_status
  dc_reason :: string
  dc_message :: string

definition condition_text :: "json \<Rightarrow> string \<Rightarrow> string" where
  "condition_text c field =
     (case Option.bind (jget c field) as_str of Some s \<Rightarrow> s | None \<Rightarrow> [])"

definition is_recorded_by :: "desired_condition \<Rightarrow> json \<Rightarrow> bool" where
  "is_recorded_by d recorded \<longleftrightarrow>
     condition_text recorded ''status'' = cond_status_str (dc_status d) \<and>
     condition_text recorded ''reason'' = dc_reason d \<and>
     condition_text recorded ''message'' = dc_message d"

definition is_type_of :: "desired_condition \<Rightarrow> json \<Rightarrow> bool" where
  "is_type_of d c \<longleftrightarrow> Option.bind (jget c ''type'') as_str = Some (dc_type d)"

definition write_into :: "desired_condition \<Rightarrow> string \<Rightarrow> json_map \<Rightarrow> json_map" where
  "write_into d transition slot =
     bm_insert ''lastTransitionTime'' (JString transition)
       (bm_insert ''message'' (JString (dc_message d))
         (bm_insert ''reason'' (JString (dc_reason d))
           (bm_insert ''status'' (JString (cond_status_str (dc_status d)))
             (bm_insert ''type'' (JString (dc_type d)) slot))))"

datatype condition_upsert = UpsertUnchanged | UpsertChanged "json list"

definition into_status_fields :: "condition_upsert \<Rightarrow> json_map option" where
  "into_status_fields u =
     (case u of
        UpsertUnchanged \<Rightarrow> None
      | UpsertChanged conditions \<Rightarrow> Some [(''conditions'', JArray conditions)])"

text \<open>The closure of \<open>retain\<close>: drop every later element of the type.\<close>

fun collapse :: "('a \<Rightarrow> bool) \<Rightarrow> bool \<Rightarrow> 'a list \<Rightarrow> 'a list" where
  "collapse p seen [] = []"
| "collapse p seen (c # cs) =
     (if p c \<and> seen then collapse p True cs else c # collapse p (seen \<or> p c) cs)"

fun update_first :: "('a \<Rightarrow> bool) \<Rightarrow> 'a \<Rightarrow> 'a list \<Rightarrow> 'a list" where
  "update_first p x [] = []"
| "update_first p x (y # ys) = (if p y then x # ys else y # update_first p x ys)"

definition transition_time :: "desired_condition \<Rightarrow> string \<Rightarrow> json \<Rightarrow> string" where
  "transition_time d now recorded =
     (case Option.bind (jget recorded ''lastTransitionTime'') as_str of
        Some at \<Rightarrow>
          (if condition_text recorded ''status'' = cond_status_str (dc_status d) then at else now)
      | None \<Rightarrow> now)"

definition upsert_condition ::
  "json \<Rightarrow> desired_condition \<Rightarrow> string \<Rightarrow> (shape_error, condition_upsert) result" where
  "upsert_condition v d now =
     (case array_mut [''conditions''] (\<lambda>xs. (xs, xs)) (case jget v ''status'' of Some s \<Rightarrow> s | None \<Rightarrow> JNull) of
        Inl e \<Rightarrow> Inl (under [''status''] e)
      | Inr (_, conditions) \<Rightarrow>
          (let kept = collapse (is_type_of d) False conditions;
               collapsed = (length kept \<noteq> length conditions)
           in case find (is_type_of d) kept of
                None \<Rightarrow> Inr (UpsertChanged (kept @ [JObject (write_into d now [])]))
              | Some recorded \<Rightarrow>
                  (if \<not> collapsed \<and> is_recorded_by d recorded then Inr UpsertUnchanged
                   else
                     (case object_mut [] (write_into d (transition_time d now recorded)) recorded of
                        Inl e \<Rightarrow> Inl (under [''status'', ''conditions''] e)
                      | Inr new \<Rightarrow> Inr (UpsertChanged (update_first (is_type_of d) new kept))))))"

section \<open>Writing a status\<close>

datatype status_write_outcome = StatusNoChange | StatusProposed effect

fun status_effect :: "status_write_outcome \<Rightarrow> effect" where
  "status_effect StatusNoChange = EffUnchanged"
| "status_effect (StatusProposed e) = e"

definition generation_read :: "json \<Rightarrow> (shape_error, int) result" where
  "generation_read v = defaulted_read generation_field v"

definition live_status :: "json \<Rightarrow> json" where
  "live_status v = (case jget v ''status'' of Some s \<Rightarrow> s | None \<Rightarrow> JObject [])"

definition status_patch :: "json \<Rightarrow> json" where
  "status_patch desired = JObject [(''status'', desired)]"

definition write_status_cas ::
  "store_env \<Rightarrow> resource_key \<Rightarrow> json \<Rightarrow> json \<Rightarrow> store_state
    \<Rightarrow> store_state \<times> (controller_error, status_write_outcome) result" where
  "write_status_cas env key parent desired st =
     (if live_status parent = desired then (st, Inr StatusNoChange)
      else
        (case resource_version_of parent of
           None \<Rightarrow> (st, Inr StatusNoChange)
         | Some expected \<Rightarrow>
             (case store_propose env (cmd_patch_cas key (status_patch desired) (Some expected) Controller) st of
                (st', Inl e) \<Rightarrow> (st', Inl e)
              | (st', Inr out) \<Rightarrow> (st', Inr (StatusProposed (effect_of (out_op out)))))))"

datatype status_edit = EditCurrent | EditSuperseded | EditWrite json_map

datatype status_edit_outcome =
    EditUnchanged
  | EditDropped
  | EditAbsent
  | EditNoRevision
  | EditProposed effect

fun status_edit_effect :: "status_edit_outcome \<Rightarrow> effect" where
  "status_edit_effect (EditProposed e) = e"
| "status_edit_effect _ = EffUnchanged"

definition edit_once ::
  "store_env \<Rightarrow> reason \<Rightarrow> resource_key \<Rightarrow> (json \<Rightarrow> (shape_error, status_edit) result) \<Rightarrow> store_state
    \<Rightarrow> store_state \<times> (controller_error, status_edit_outcome) result" where
  "edit_once env why key edit st =
     (case store_get env key st of
        (st1, None) \<Rightarrow> (st1, Inr EditAbsent)
      | (st1, Some v) \<Rightarrow>
          (case edit v of
             Inl e \<Rightarrow> (st1, Inl (CeShape e))
           | Inr EditCurrent \<Rightarrow> (st1, Inr EditUnchanged)
           | Inr EditSuperseded \<Rightarrow> (st1, Inr EditDropped)
           | Inr (EditWrite entries) \<Rightarrow>
               (case resource_version_of v of
                  None \<Rightarrow> (st1, Inr EditNoRevision)
                | Some pinned \<Rightarrow>
                    (case store_propose env
                            (cmd_patch_cas key (status_patch (JObject entries)) (Some pinned) why) st1 of
                       (st2, Inl e) \<Rightarrow> (st2, Inl e)
                     | (st2, Inr out) \<Rightarrow> (st2, Inr (EditProposed (effect_of (out_op out))))))))"

definition edit_status_cas ::
  "store_env \<Rightarrow> reason \<Rightarrow> resource_key \<Rightarrow> (json \<Rightarrow> (shape_error, status_edit) result) \<Rightarrow> store_state
    \<Rightarrow> store_state \<times> (controller_error, status_edit_outcome) result" where
  "edit_status_cas env why key edit st =
     (case edit_once env why key edit st of
        (st1, Inr (EditProposed (EffRejected RefusedConflict))) \<Rightarrow> edit_once env why key edit st1
      | other \<Rightarrow> other)"

definition condition_edit ::
  "desired_condition \<Rightarrow> string \<Rightarrow> json \<Rightarrow> (shape_error, status_edit) result" where
  "condition_edit d now v =
     (case upsert_condition v d now of
        Inl e \<Rightarrow> Inl e
      | Inr u \<Rightarrow> Inr (case into_status_fields u of None \<Rightarrow> EditCurrent | Some entries \<Rightarrow> EditWrite entries))"

definition upsert_condition_cas ::
  "store_env \<Rightarrow> reason \<Rightarrow> resource_key \<Rightarrow> desired_condition \<Rightarrow> string \<Rightarrow> store_state
    \<Rightarrow> store_state \<times> (controller_error, status_edit_outcome) result" where
  "upsert_condition_cas env why key d now st =
     edit_status_cas env why key (condition_edit d now) st"

definition is_ready_condition :: "json \<Rightarrow> bool" where
  "is_ready_condition c \<longleftrightarrow>
     Option.bind (jget c ''type'') as_str = Some ''Ready'' \<and>
     Option.bind (jget c ''status'') as_str = Some ''True''"

definition pod_is_ready :: "json \<Rightarrow> bool" where
  "pod_is_ready pod =
     (case Option.bind (member2 ''status'' ''conditions'' pod) as_array of
        Some cs \<Rightarrow> list_ex is_ready_condition cs
      | None \<Rightarrow> False)"

section \<open>The retry curve\<close>

lemma curve_delay_min:
  assumes "curve_ok c"
  shows "curve_delay c n = min (cv_base_ms c * 2 ^ n) (cv_cap_ms c)"
proof (cases "n < 64")
  case True
  with assms show ?thesis by (auto simp: curve_delay_def curve_ok_def Let_def min_def)
next
  case False
  then have "(2::nat) ^ 64 \<le> 2 ^ n" by (intro power_increasing) simp_all
  also have "\<dots> \<le> cv_base_ms c * 2 ^ n" using assms by (simp add: curve_ok_def)
  finally show ?thesis using False assms by (simp add: curve_delay_def curve_ok_def min_def)
qed

section \<open>One condition of a type\<close>

lemma filter_collapse_other: "(\<And>x. q x \<Longrightarrow> \<not> p x) \<Longrightarrow> filter q (collapse p seen xs) = filter q xs"
  by (induction xs arbitrary: seen) auto

lemma filter_collapse:
  "filter p (collapse p True xs) = []"
  "filter p (collapse p False xs) = take 1 (filter p xs)"
  by (induction xs) auto

lemma length_collapse_le: "length (collapse p seen xs) \<le> length xs"
  by (induction xs arbitrary: seen) (auto intro: le_SucI)

lemma length_collapse: "length (collapse p seen xs) = length xs \<Longrightarrow> collapse p seen xs = xs"
proof (induction xs arbitrary: seen)
  case (Cons x xs)
  then show ?case
    using length_collapse_le [of p True xs] by (auto split: if_splits)
qed simp

lemma filter_update_first_other:
  "p x \<Longrightarrow> (\<And>y. q y \<Longrightarrow> \<not> p y) \<Longrightarrow> filter q (update_first p x xs) = filter q xs"
  by (induction xs) auto

lemma filter_update_first: "p x \<Longrightarrow> filter p (update_first p x xs) = (case filter p xs of [] \<Rightarrow> [] | y # ys \<Rightarrow> x # ys)"
  by (induction xs) auto

lemma find_filter: "find p xs = (case filter p xs of [] \<Rightarrow> None | x # _ \<Rightarrow> Some x)"
  by (induction xs) auto

lemma write_into_says:
  "is_type_of d (JObject (write_into d t m))"
  "is_recorded_by d (JObject (write_into d t m))"
  "map_of (write_into d t m) ''lastTransitionTime'' = Some (JString t)"
  "k \<notin> {''type'', ''status'', ''reason'', ''message'', ''lastTransitionTime''} \<Longrightarrow>
    map_of (write_into d t m) k = map_of m k"
  by (simp_all add: write_into_def is_type_of_def is_recorded_by_def condition_text_def)

lemma is_type_of_object: "is_type_of d c \<Longrightarrow> \<exists>m. c = JObject m"
  by (cases c) (simp_all add: is_type_of_def)

lemma upsert_list:
  assumes "upsert_condition v d now = Inr u"
  obtains conditions where
    "conditions = [] \<and> member2 ''status'' ''conditions'' v \<in> {None, Some JNull} \<or>
      member2 ''status'' ''conditions'' v = Some (JArray conditions)"
    "u = (let kept = collapse (is_type_of d) False conditions
          in case find (is_type_of d) kept of
               None \<Rightarrow> UpsertChanged (kept @ [JObject (write_into d now [])])
             | Some recorded \<Rightarrow>
                 (if length kept = length conditions \<and> is_recorded_by d recorded then UpsertUnchanged
                  else UpsertChanged (update_first (is_type_of d)
                    (JObject (write_into d (transition_time d now recorded) (the (as_object recorded)))) kept)))"
proof -
  let ?status = "case jget v ''status'' of Some s \<Rightarrow> s | None \<Rightarrow> JNull"
  have mut: "object_mut [] f recorded = Inr (JObject (f (the (as_object recorded))))"
    if hit: "find (is_type_of d) kept = Some recorded" for f kept recorded
  proof -
    have "is_type_of d recorded" using hit by (auto simp: find_Some_iff)
    then obtain m where "recorded = JObject m" using is_type_of_object by blast
    then show ?thesis by (simp add: object_mut_def object_slot_def)
  qed
  obtain w conditions where am: "array_mut [''conditions''] (\<lambda>xs. (xs, xs)) ?status = Inr (w, conditions)"
    using assms by (auto simp: upsert_condition_def split: sum.splits prod.splits)
  have "conditions = [] \<and> member2 ''status'' ''conditions'' v \<in> {None, Some JNull} \<or>
      member2 ''status'' ''conditions'' v = Some (JArray conditions)"
    using am by (auto simp: array_mut_def object_slot_def array_slot_def member2_def
        split: option.splits json.splits)
  moreover have "u = (let kept = collapse (is_type_of d) False conditions
          in case find (is_type_of d) kept of
               None \<Rightarrow> UpsertChanged (kept @ [JObject (write_into d now [])])
             | Some recorded \<Rightarrow>
                 (if length kept = length conditions \<and> is_recorded_by d recorded then UpsertUnchanged
                  else UpsertChanged (update_first (is_type_of d)
                    (JObject (write_into d (transition_time d now recorded) (the (as_object recorded)))) kept)))"
    using assms mut [of "collapse (is_type_of d) False conditions"]
    by (cases "find (is_type_of d) (collapse (is_type_of d) False conditions)")
      (auto simp: upsert_condition_def am Let_def)
  ultimately show thesis by (rule that)
qed

definition stored_conditions :: "json \<Rightarrow> json list" where
  "stored_conditions v =
     (case Option.bind (member2 ''status'' ''conditions'' v) as_array of Some cs \<Rightarrow> cs | None \<Rightarrow> [])"

definition conditions_after :: "json \<Rightarrow> condition_upsert \<Rightarrow> json list" where
  "conditions_after v u = (case u of UpsertChanged cs \<Rightarrow> cs | UpsertUnchanged \<Rightarrow> stored_conditions v)"

lemma upsert_once:
  assumes "member2 ''status'' ''conditions'' v = Some (JArray cs)"
    and "filter (is_type_of d) cs = [c]" and "is_recorded_by d c"
  shows "upsert_condition v d now = Inr UpsertUnchanged"
proof -
  obtain m s where s: "jget v ''status'' = Some s" "s = JObject m" "map_of m ''conditions'' = Some (JArray cs)"
    using assms(1) by (cases "jget v ''status''"; cases "the (jget v ''status'')") (auto simp: member2_def)
  have kept: "collapse (is_type_of d) False cs = cs"
    using assms(2)
  proof (induction cs)
    case (Cons x xs)
    have none: "filter p ys = [] \<Longrightarrow> collapse p b ys = ys" for p :: "json \<Rightarrow> bool" and b ys
      by (induction ys arbitrary: b) (auto split: if_splits)
    show ?case using Cons by (auto simp: none split: if_splits)
  qed simp
  have "find (is_type_of d) cs = Some c" by (simp add: find_filter assms(2))
  with s kept assms(3) show ?thesis
    by (simp add: upsert_condition_def array_mut_def object_slot_def array_slot_def)
qed

lemma upsert_exact:
  assumes "upsert_condition v d now = Inr u"
  obtains c where "filter (is_type_of d) (conditions_after v u) = [c]" "is_recorded_by d c"
    "u = UpsertUnchanged \<or> jget c ''lastTransitionTime'' =
      Some (JString (case find (is_type_of d) (stored_conditions v) of
                       None \<Rightarrow> now | Some recorded \<Rightarrow> transition_time d now recorded))"
    "filter (Not \<circ> is_type_of d) (conditions_after v u) = filter (Not \<circ> is_type_of d) (stored_conditions v)"
  using assms
proof (rule upsert_list)
  fix conditions
  assume cs: "conditions = [] \<and> member2 ''status'' ''conditions'' v \<in> {None, Some JNull} \<or>
      member2 ''status'' ''conditions'' v = Some (JArray conditions)"
    and u: "u = (let kept = collapse (is_type_of d) False conditions
          in case find (is_type_of d) kept of
               None \<Rightarrow> UpsertChanged (kept @ [JObject (write_into d now [])])
             | Some recorded \<Rightarrow>
                 (if length kept = length conditions \<and> is_recorded_by d recorded then UpsertUnchanged
                  else UpsertChanged (update_first (is_type_of d)
                    (JObject (write_into d (transition_time d now recorded) (the (as_object recorded)))) kept)))"
  have stored: "stored_conditions v = conditions" using cs by (auto simp: stored_conditions_def)
  let ?kept = "collapse (is_type_of d) False conditions"
  have others: "filter (Not \<circ> is_type_of d) ?kept = filter (Not \<circ> is_type_of d) conditions"
    by (rule filter_collapse_other) simp
  have mine: "filter (is_type_of d) ?kept = take 1 (filter (is_type_of d) conditions)"
    by (rule filter_collapse)
  show thesis
  proof (cases "filter (is_type_of d) conditions")
    case Nil
    then have "u = UpsertChanged (?kept @ [JObject (write_into d now [])])"
      using u mine by (simp add: find_filter Let_def)
    then show thesis
      using Nil mine others stored
      by (intro that [of "JObject (write_into d now [])"])
        (simp_all add: conditions_after_def write_into_says find_filter)
  next
    case (Cons recorded rest)
    then have find: "find (is_type_of d) ?kept = Some recorded" "find (is_type_of d) conditions = Some recorded"
      using mine by (simp_all add: find_filter)
    let ?new = "JObject (write_into d (transition_time d now recorded) (the (as_object recorded)))"
    show thesis
    proof (cases "length ?kept = length conditions \<and> is_recorded_by d recorded")
      case True
      then have "u = UpsertUnchanged" "?kept = conditions"
        using u find length_collapse [of "is_type_of d" False conditions] by (simp_all add: Let_def)
      with True Cons mine stored show thesis
        by (intro that [of recorded]) (simp_all add: conditions_after_def)
    next
      case False
      then have "u = UpsertChanged (update_first (is_type_of d) ?new ?kept)"
        using u find by (auto simp: Let_def)
      then show thesis
        using Cons mine others stored find(2)
        by (intro that [of ?new])
          (simp_all add: conditions_after_def write_into_says filter_update_first
            filter_update_first_other comp_def)
    qed
  qed
qed

section \<open>A version read twice is the same object\<close>

text \<open>The other writers go through the store: they apply entries, compact and restart it.\<close>

definition lawful :: "store_env \<Rightarrow> bool" where
  "lawful env \<longleftrightarrow> (\<forall>i cat. \<exists>es cs. cat_steps (se_ext env) cat es cs (se_others env i cat))"

definition reached :: "externals \<Rightarrow> resource_catalog \<Rightarrow> bool" where
  "reached E cat \<longleftrightarrow> (\<exists>cap pe es log. cat_steps E (catalog_new cap pe) es log cat)"

lemma reached_steps: "reached E cat \<Longrightarrow> cat_steps E cat es cs cat' \<Longrightarrow> reached E cat'"
  unfolding reached_def using steps_trans by blast

lemma reached_inv: "reached E cat \<Longrightarrow> \<exists>log. cat_inv log cat"
  unfolding reached_def using cat_inv_steps [OF _ cat_inv_new] by fastforce

lemma map_of_replay_other: "key \<notin> ch_key ` set cs \<Longrightarrow> map_of (replay cs m) key = map_of m key"
proof (induction cs arbitrary: m)
  case (Cons c cs)
  then show ?case by (cases "ch_kind c") (auto simp: apply_change_def)
qed simp

lemma kept_or_newer:
  assumes "cat_steps E cat es cs cat'" and "cat_inv log cat" and "n \<le> cat_revision cat"
  shows "map_of (resources cat') key = map_of (resources cat) key \<or> newer key n (resources cat')"
  using assms
proof (induction rule: cat_steps.induct)
  case (steps_snoc cat es log1 cat1 es' cs cat2)
  have sh: "cat_shape cat1" using cat_inv_steps [OF steps_snoc(1,4)] by (simp add: cat_inv_def)
  note st = step_shape [OF steps_snoc(2) sh]
  have n: "n < cat_revision cat1 + 1"
    using steps_resources [OF steps_snoc(1,4)] steps_snoc(5) by simp
  show ?case
  proof (cases "key \<in> ch_key ` set cs")
    case True
    then show ?thesis using st n newer_after_write [of "resources cat1" "cat_revision cat1 + 1" cs n key] by simp
  next
    case False
    then have "map_of (resources cat2) key = map_of (resources cat1) key"
      using st map_of_replay_other [of key cs "resources cat1"] by simp
    with steps_snoc(3) [OF steps_snoc(4,5)] show ?thesis by (simp add: newer_def)
  qed
qed simp

lemma resource_version_stored:
  assumes "reached E cat" and "map_of (resources cat) key = Some (v, vm)"
    and "resource_version_of v = Some n"
  shows "mod_revision vm = n" and "n \<le> cat_revision cat"
proof -
  obtain log where "cat_inv log cat" using reached_inv [OF assms(1)] by blast
  then have ok: "meta_ok (cat_revision cat) (v, vm)"
    using assms(2) by (simp add: cat_inv_def resources_ok_def)
  obtain s where s: "member2 ''metadata'' ''resourceVersion'' v = Some (JString s)" "parse_usize s = Some n"
    using assms(3) by (auto simp: resource_version_of_def split: Option.bind_splits)
  then have "stampable v"
    by (cases v) (auto simp: member2_def stampable_def split: Option.bind_splits option.splits
        elim!: jget.elims)
  with ok s have "s = show_nat (mod_revision vm)" by (simp add: meta_ok_def stamped_def)
  with s(2) show n: "mod_revision vm = n"
    using parse_digits_show_nat [of "mod_revision vm"] hd_show_nat_not_plus [of "mod_revision vm"]
    by (cases "show_nat (mod_revision vm)") (auto simp: parse_usize_def Let_def split: if_splits)
  with ok show "n \<le> cat_revision cat" by (simp add: meta_ok_def)
qed

lemma same_version_same_object:
  assumes "reached E cat" and "cat_steps E cat es cs cat'"
    and "map_of (resources cat) key = Some (v, vm)" and "resource_version_of v = Some n"
    and "map_of (resources cat') key = Some (v', vm')" and "mod_revision vm' = n"
  shows "v' = v"
proof -
  obtain log where "cat_inv log cat" using reached_inv [OF assms(1)] by blast
  from kept_or_newer [OF assms(2) this resource_version_stored(2) [OF assms(1,3,4)], of key] assms(3,5,6)
  show ?thesis by (auto simp: newer_def)
qed

section \<open>A conditional patch\<close>

lemma patch_cas_dispatched:
  assumes "dispatch E cat (cmd_patch_cas key p (Some n) why) OnSkip r = (cat', out)"
  shows "effect_of (out_op out) = EffWritten \<Longrightarrow>
      (\<exists>v vm. map_of (resources cat) key = Some (v, vm) \<and> mod_revision vm = n) \<and>
      resources cat' = patch_entry r p (resources cat) key"
    and "effect_of (out_op out) \<noteq> EffWritten \<Longrightarrow> resources cat' = resources cat"
  using assms
  by (auto simp: dispatch_def cmd_patch_cas_def apply_patch_def patch_body_from_raw_def patch_apply_def
      check_precondition_def patch_entry_def stored_patch_def finalizer_release_removal_def store_and_emit_def
      put_entry_def remove_entry_def no_change_def with_change_def committed_def Let_def
      split: option.splits if_splits)

lemma patch_cas_applied:
  assumes "unreadable cat = []"
    and "apply_logged E cat (proposed (cmd_patch_cas key p (Some n) why)) t i = (cat', out)"
  shows "effect_of (out_op out) = EffWritten \<Longrightarrow>
      (\<exists>v vm. map_of (resources cat) key = Some (v, vm) \<and> mod_revision vm = n) \<and>
      resources cat' = patch_entry (cat_revision cat + 1) p (resources cat) key"
    and "effect_of (out_op out) \<noteq> EffWritten \<Longrightarrow> resources cat' = resources cat"
proof -
  obtain cat1 where d: "dispatch E cat (cmd_patch_cas key p (Some n) why) OnSkip (cat_revision cat + 1) = (cat1, out)"
    and r: "resources cat' = resources cat1"
    using assms
    by (auto simp: apply_logged_def apply_under_def proposed_def current_semantics_def
        unreadable_touched_by_def Let_def cat_revision_def wh_next_revision_def next_rev_def
        split: prod.splits option.splits)
  show "effect_of (out_op out) = EffWritten \<Longrightarrow>
      (\<exists>v vm. map_of (resources cat) key = Some (v, vm) \<and> mod_revision vm = n) \<and>
      resources cat' = patch_entry (cat_revision cat + 1) p (resources cat) key"
    and "effect_of (out_op out) \<noteq> EffWritten \<Longrightarrow> resources cat' = resources cat"
    using patch_cas_dispatched [OF d] r by simp_all
qed

text \<open>A proposal that is answered was applied to the store as the call found it.\<close>

lemma store_propose_applied:
  assumes "store_propose env cmd st = (st', Inr out)"
  obtains t i where
    "apply_logged (se_ext env) (found env st)
       (proposed (stamp_births (found env st) (se_clock env (ss_calls st)) cmd)) t i = (ss_catalog st', out)"
    "ss_calls st' = ss_calls st + 1"
  using assms
  by (auto simp: store_propose_def propose_def called_def Let_def
      split: prod.splits sum.splits option.splits raft_answer.splits)

lemma found_steps:
  assumes "lawful env"
  obtains es cs where "cat_steps (se_ext env) (ss_catalog st) es cs (found env st)"
  using assms unfolding lawful_def found_def by blast

lemma spec_status_patch:
  assumes "cat_get cat key = Some v" and "resources cat' = patch_entry r (status_patch s) (resources cat) key"
    and "cat_get cat' key = Some v'"
  shows "spec_of v' = spec_of v"
proof -
  obtain vm where stored: "map_of (resources cat) key = Some (v, vm)"
    using assms(1) by (auto simp: cat_get_def)
  have "jget (merge_rfc7396 v (status_patch s)) ''spec'' = jget v ''spec''"
    by (cases v) (auto simp: status_patch_def)
  then have "spec_of (stored_patch r v (status_patch s)) = spec_of v"
    by (simp add: spec_of_def jget_stored_patch)
  then show ?thesis
    using assms(2,3) stored by (auto simp: patch_entry_def cat_get_def split: if_splits)
qed

text \<open>A status edit landed: it was merged into an object it was computed from.\<close>

definition edit_landed ::
  "store_env \<Rightarrow> resource_catalog \<Rightarrow> resource_key \<Rightarrow> (json \<Rightarrow> (shape_error, status_edit) result)
    \<Rightarrow> resource_catalog \<Rightarrow> bool" where
  "edit_landed env before key edit after \<longleftrightarrow>
     (\<exists>cat es cs v entries. cat_steps (se_ext env) before es cs cat \<and> cat_get cat key = Some v \<and>
        edit v = Inr (EditWrite entries) \<and>
        resources after =
          patch_entry (cat_revision cat + 1) (status_patch (JObject entries)) (resources cat) key)"

lemma edit_once_outcome:
  assumes "lawful env" and "reached (se_ext env) (ss_catalog st)"
    and "edit_once env why key edit st = (st', Inr out)"
  shows "\<exists>es cs. cat_steps (se_ext env) (ss_catalog st) es cs (ss_catalog st')"
    and "out = EditProposed EffWritten \<Longrightarrow> edit_landed env (ss_catalog st) key edit (ss_catalog st')"
proof -
  let ?E = "se_ext env" and ?read = "found env st"
  let ?st1 = "called ?read st"
  obtain es cs where read: "cat_steps ?E (ss_catalog st) es cs ?read" using found_steps [OF assms(1)] .
  note r1 = reached_steps [OF assms(2) read]
  have "(\<exists>es cs. cat_steps ?E (ss_catalog st) es cs (ss_catalog st')) \<and>
    (out = EditProposed EffWritten \<longrightarrow> edit_landed env (ss_catalog st) key edit (ss_catalog st'))"
  proof (cases "\<exists>v entries pinned. cat_get ?read key = Some v \<and> edit v = Inr (EditWrite entries) \<and>
      resource_version_of v = Some pinned")
    case False
    then have "ss_catalog st' = ?read \<and> out \<noteq> EditProposed EffWritten"
      using assms(3)
      by (auto simp: edit_once_def store_get_def called_def split: option.splits sum.splits status_edit.splits)
    with read show ?thesis by auto
  next
    case True
    then obtain v entries pinned where v: "cat_get ?read key = Some v" "edit v = Inr (EditWrite entries)"
        "resource_version_of v = Some pinned" by blast
    let ?cmd = "cmd_patch_cas key (status_patch (JObject entries)) (Some pinned) why"
    obtain out' where p: "store_propose env ?cmd ?st1 = (st', Inr out')" "out = EditProposed (effect_of (out_op out'))"
      using assms(3) v by (auto simp: edit_once_def store_get_def split: prod.splits sum.splits)
    let ?at = "found env ?st1"
    have same: "stamp_births ?at (se_clock env (ss_calls ?st1)) ?cmd = ?cmd" by (simp add: cmd_patch_cas_def)
    obtain t i where ap: "apply_logged ?E ?at (proposed ?cmd) t i = (ss_catalog st', out')"
      using store_propose_applied [OF p(1)] unfolding same by metis
    obtain es' cs' where at: "cat_steps ?E ?read es' cs' ?at"
      using found_steps [OF assms(1), of ?st1] by (auto simp: called_def)
    note all = steps_trans [OF read at]
    have own: "cat_steps ?E (ss_catalog st) ((es @ es') @ [(proposed ?cmd, t, i)])
        ((cs @ cs') @ out_changes out') (ss_catalog st')"
      using all step_apply [OF ap] by (rule steps_snoc)
    obtain log where "cat_inv log ?at" using reached_inv [OF reached_steps [OF r1 at]] by blast
    then have clear: "unreadable ?at = []" by (simp add: cat_inv_def)
    have landed: "\<exists>v entries. cat_get ?at key = Some v \<and> edit v = Inr (EditWrite entries) \<and>
        resources (ss_catalog st') =
          patch_entry (cat_revision ?at + 1) (status_patch (JObject entries)) (resources ?at) key"
      if w: "effect_of (out_op out') = EffWritten"
    proof -
      obtain vm where vm: "map_of (resources ?read) key = Some (v, vm)" using v(1) by (auto simp: cat_get_def)
      from patch_cas_applied(1) [OF clear ap w] obtain v' vm' where
        "map_of (resources ?at) key = Some (v', vm')" "mod_revision vm' = pinned"
        "resources (ss_catalog st') =
          patch_entry (cat_revision ?at + 1) (status_patch (JObject entries)) (resources ?at) key" by blast
      with same_version_same_object [OF r1 at vm v(3)] v(2) show ?thesis by (auto simp: cat_get_def)
    qed
    show ?thesis
    proof (intro conjI impI)
      assume "out = EditProposed EffWritten"
      then have "effect_of (out_op out') = EffWritten" using p(2) by simp
      from landed [OF this] all show "edit_landed env (ss_catalog st) key edit (ss_catalog st')"
        unfolding edit_landed_def by blast
    qed (use own in blast)
  qed
  then show "\<exists>es cs. cat_steps (se_ext env) (ss_catalog st) es cs (ss_catalog st')"
    and "out = EditProposed EffWritten \<Longrightarrow> edit_landed env (ss_catalog st) key edit (ss_catalog st')"
    by blast+
qed

section \<open>Properties\<close>

text \<open>
  The transition time a condition has to keep: the one the first recorded condition of its type
  carries as a text, if that condition records the desired status already.
\<close>

definition kept_time :: "json \<Rightarrow> desired_condition \<Rightarrow> string \<Rightarrow> bool" where
  "kept_time v d at \<longleftrightarrow>
     (case find (is_type_of d) (stored_conditions v) of
        None \<Rightarrow> False
      | Some recorded \<Rightarrow>
          jget recorded ''status'' = Some (JString (cond_status_str (dc_status d))) \<and>
          jget recorded ''lastTransitionTime'' = Some (JString at))"

lemma bind_as_str_Some: "Option.bind x as_str = Some s \<longleftrightarrow> x = Some (JString s)"
  by (cases x; cases "the x") auto

lemma cond_status_str_ne: "cond_status_str s \<noteq> []"
  by (cases s) simp_all

lemma transition_time_kept:
  "t = (case find (is_type_of d) (stored_conditions v) of
      None \<Rightarrow> now | Some recorded \<Rightarrow> transition_time d now recorded) \<Longrightarrow>
    kept_time v d t \<or> (\<forall>at. \<not> kept_time v d at) \<and> t = now"
  using cond_status_str_ne [of "dc_status d"]
  by (auto simp: kept_time_def transition_time_def condition_text_def bind_as_str_Some split: option.splits if_splits)

text \<open>
  C17. Setting a condition, where the object can hold conditions at all, leaves exactly one
  condition of its type, saying what was desired. When that writes anything, the condition
  carries the transition time of the first condition of the type recorded before, if that one
  had the same status and a time, and the present time otherwise. Every condition of another
  type stays as it was and in order; and setting it again on the result writes nothing.
\<close>

theorem condition_set_exactly:
  assumes "upsert_condition v d now = Inr u"
  shows "(\<exists>c. filter (is_type_of d) (conditions_after v u) = [c] \<and> is_recorded_by d c \<and>
      (u = UpsertUnchanged \<or>
        (\<exists>t. jget c ''lastTransitionTime'' = Some (JString t) \<and>
          (kept_time v d t \<or> (\<forall>at. \<not> kept_time v d at) \<and> t = now)))) \<and>
    filter (Not \<circ> is_type_of d) (conditions_after v u) = filter (Not \<circ> is_type_of d) (stored_conditions v) \<and>
    (\<forall>w later. member2 ''status'' ''conditions'' w = Some (JArray (conditions_after v u)) \<longrightarrow>
      upsert_condition w d later = Inr UpsertUnchanged)"
proof -
  obtain c where c: "filter (is_type_of d) (conditions_after v u) = [c]" "is_recorded_by d c"
    "u = UpsertUnchanged \<or> jget c ''lastTransitionTime'' =
      Some (JString (case find (is_type_of d) (stored_conditions v) of
                       None \<Rightarrow> now | Some recorded \<Rightarrow> transition_time d now recorded))"
    "filter (Not \<circ> is_type_of d) (conditions_after v u) = filter (Not \<circ> is_type_of d) (stored_conditions v)"
    using upsert_exact [OF assms] .
  have "upsert_condition w d later = Inr UpsertUnchanged"
    if "member2 ''status'' ''conditions'' w = Some (JArray (conditions_after v u))" for w later
    using that c(1,2) by (rule upsert_once)
  moreover have "u = UpsertUnchanged \<or> (\<exists>t. jget c ''lastTransitionTime'' = Some (JString t) \<and>
      (kept_time v d t \<or> (\<forall>at. \<not> kept_time v d at) \<and> t = now))"
    using c(3) transition_time_kept [OF refl] by blast
  ultimately show ?thesis using c(1,2,4) by blast
qed

text \<open>
  C11. A status edit that landed was computed from the very object it was merged into. The
  other writers may write between the read and the write, and before the retry: the store
  just before the edit held an object the edit was asked about, what was written is the
  merge of its answer into the status of that object, and the specification is as it was.
\<close>

theorem status_edit_is_atomic:
  assumes "lawful env" and "reached (se_ext env) (ss_catalog st)"
    and "edit_status_cas env why key edit st = (st', Inr (EditProposed EffWritten))"
  shows "\<exists>cat es cs v entries. cat_steps (se_ext env) (ss_catalog st) es cs cat \<and>
    cat_get cat key = Some v \<and> edit v = Inr (EditWrite entries) \<and>
    resources (ss_catalog st') =
      patch_entry (cat_revision cat + 1) (status_patch (JObject entries)) (resources cat) key \<and>
    (\<forall>v'. cat_get (ss_catalog st') key = Some v' \<longrightarrow> spec_of v' = spec_of v)"
proof -
  obtain st1 where st1: "edit_once env why key edit st1 = (st', Inr (EditProposed EffWritten))"
    and run: "\<exists>es cs. cat_steps (se_ext env) (ss_catalog st) es cs (ss_catalog st1)"
  proof (cases "\<exists>s. edit_once env why key edit st = (s, Inr (EditProposed (EffRejected RefusedConflict)))")
    case True
    then obtain s where s: "edit_once env why key edit st = (s, Inr (EditProposed (EffRejected RefusedConflict)))" by blast
    moreover from this have "edit_once env why key edit s = (st', Inr (EditProposed EffWritten))"
      using assms(3) by (simp add: edit_status_cas_def)
    ultimately show thesis using edit_once_outcome(1) [OF assms(1,2) s] that by blast
  next
    case False
    then have "edit_once env why key edit st = (st', Inr (EditProposed EffWritten))"
      using assms(3)
      by (auto simp: edit_status_cas_def split: prod.splits sum.splits status_edit_outcome.splits
          effect.splits refusal.splits)
    then show thesis using that steps_refl by blast
  qed
  obtain es cs where run: "cat_steps (se_ext env) (ss_catalog st) es cs (ss_catalog st1)" using run by blast
  obtain cat es' cs' v entries where e: "cat_steps (se_ext env) (ss_catalog st1) es' cs' cat"
      "cat_get cat key = Some v" "edit v = Inr (EditWrite entries)"
      "resources (ss_catalog st') =
        patch_entry (cat_revision cat + 1) (status_patch (JObject entries)) (resources cat) key"
    using edit_once_outcome(2) [OF assms(1) reached_steps [OF assms(2) run] st1]
    unfolding edit_landed_def by blast
  show ?thesis
    using steps_trans [OF run e(1)] e(2-4) spec_status_patch [OF e(2,4)] by blast
qed

section \<open>Witnesses\<close>

definition example_pod_key :: resource_key where
  "example_pod_key = namespaced '''' ''v1'' ''Pod'' ''ns'' ''p''"

definition example_desired :: desired_condition where
  "example_desired = \<lparr>dc_type = ''Ready'', dc_status = CsTrue, dc_reason = ''r'', dc_message = ''m''\<rparr>"

definition example_conditioned :: json where
  "example_conditioned =
     JObject [(''status'', JObject [(''conditions'', JArray
       [JObject [(''lastTransitionTime'', JString ''t0''), (''status'', JString ''False''), (''type'', JString ''Ready'')],
        JObject [(''type'', JString ''Other'')],
        JObject [(''type'', JString ''Ready'')]])])]"

theorem condition_set_exactly_witness:
  "\<exists>u. upsert_condition example_conditioned example_desired ''t1'' = Inr u \<and>
    (\<exists>c. filter (is_type_of example_desired) (conditions_after example_conditioned u) = [c])"
proof -
  obtain u where u: "upsert_condition example_conditioned example_desired ''t1'' = Inr u"
    by (simp add: upsert_condition_def example_conditioned_def example_desired_def array_mut_def
        object_slot_def array_slot_def is_type_of_def is_recorded_by_def condition_text_def object_mut_def)
  with condition_set_exactly [OF u] show ?thesis by blast
qed

definition example_store_env :: store_env where
  "example_store_env =
     \<lparr>se_ext = example_ext, se_store = MemoryStore, se_clock = (\<lambda>_. ''t''), se_others = (\<lambda>_ cat. cat),
      se_answer = (\<lambda>i. Committed 1 (i + 2))\<rparr>"

definition example_object :: json where
  "example_object = JObject [(''metadata'', JObject [(''uid'', JString ''u'')])]"

definition example_store :: resource_catalog where
  "example_store =
     fst (apply_logged example_ext (catalog_new 4 (\<lambda>_ _. LReplace))
            (proposed (cmd_put example_pod_key example_object Operator)) 1 1)"

lemma example_store_env_lawful: "lawful example_store_env"
  by (auto simp: lawful_def example_store_env_def intro: steps_refl)

lemma example_store_reached: "reached example_ext example_store"
proof -
  have "cat_step example_ext (catalog_new 4 (\<lambda>_ _. LReplace))
      [(proposed (cmd_put example_pod_key example_object Operator), 1, 1)]
      (out_changes (snd (apply_logged example_ext (catalog_new 4 (\<lambda>_ _. LReplace))
            (proposed (cmd_put example_pod_key example_object Operator)) 1 1))) example_store"
    unfolding example_store_def by (intro step_apply) simp
  from steps_snoc [OF steps_refl this] show ?thesis unfolding reached_def by blast
qed

lemma example_store_entry:
  "resources example_store = [(example_pod_key, JObject [(''metadata'',
     JObject [(''generation'', JNumber (PosInt 1)), (''resourceVersion'', JString (show_nat 1)), (''uid'', JString ''u'')])],
     created_at 1)]" "unreadable example_store = []"
  by (code_simp, code_simp)

definition example_stored :: json where
  "example_stored = JObject [(''metadata'',
     JObject [(''generation'', JNumber (PosInt 1)), (''resourceVersion'', JString (show_nat 1)), (''uid'', JString ''u'')])]"

definition example_entries :: json_map where
  "example_entries = [(''conditions'', JArray [JObject (write_into example_desired ''t1'' [])])]"

lemma example_edit:
  "cat_get example_store example_pod_key = Some example_stored"
  "condition_edit example_desired ''t1'' example_stored = Inr (EditWrite example_entries)"
  "resource_version_of example_stored = Some 1"
proof -
  show "cat_get example_store example_pod_key = Some example_stored"
    by (simp add: cat_get_def example_store_entry example_stored_def)
  show "condition_edit example_desired ''t1'' example_stored = Inr (EditWrite example_entries)"
    by (simp add: condition_edit_def upsert_condition_def array_mut_def object_slot_def array_slot_def
        example_stored_def example_entries_def into_status_fields_def)
  show "resource_version_of example_stored = Some 1"
    by (simp add: resource_version_of_def example_stored_def member2_def parse_usize_show_nat)
qed

definition example_state :: store_state where
  "example_state = \<lparr>ss_catalog = example_store, ss_calls = 0\<rparr>"

lemma example_proposed:
  "\<exists>st out. store_propose example_store_env
      (cmd_patch_cas example_pod_key (status_patch (JObject example_entries)) (Some 1) Controller)
      (called example_store example_state) = (st, Inr out) \<and> out_op out = Patched"
proof -
  have "\<not> finalizers_released (JObject [(''metadata'', JObject [(''generation'', g), (''resourceVersion'', r),
      (''uid'', u)]), (''status'', x)])" for g r u x
    by (simp add: finalizers_released_def deletion_timestamp_of_def member2_def)
  then show ?thesis
    by (simp add: store_propose_def propose_def write_refusal_def found_def called_def example_store_env_def
        example_state_def apply_logged_def apply_under_def proposed_def current_semantics_def cmd_patch_cas_def
        unreadable_touched_by_def example_store_entry dispatch_def apply_patch_def check_precondition_def
        created_at_def patch_body_from_raw_def patch_apply_def status_patch_def example_entries_def skips_def
        unchanged_def objects_equal_except_def finalizer_release_removal_def
        store_and_emit_def with_change_def committed_def Let_def)
qed

theorem status_edit_is_atomic_witness:
  "\<exists>st' cat es cs v entries.
    upsert_condition_cas example_store_env Controller example_pod_key example_desired ''t1'' example_state =
      (st', Inr (EditProposed EffWritten)) \<and>
    cat_steps example_ext example_store es cs cat \<and>
    cat_get cat example_pod_key = Some v \<and> condition_edit example_desired ''t1'' v = Inr (EditWrite entries) \<and>
    resources (ss_catalog st') =
      patch_entry (cat_revision cat + 1) (status_patch (JObject entries)) (resources cat) example_pod_key"
proof -
  obtain st' out where p: "store_propose example_store_env
      (cmd_patch_cas example_pod_key (status_patch (JObject example_entries)) (Some 1) Controller)
      (called example_store example_state) = (st', Inr out)" "out_op out = Patched"
    using example_proposed by blast
  have get: "store_get example_store_env example_pod_key example_state =
      (called example_store example_state, Some example_stored)"
    by (simp add: store_get_def found_def example_store_env_def example_state_def example_edit)
  have run: "edit_status_cas example_store_env Controller example_pod_key
      (condition_edit example_desired ''t1'') example_state = (st', Inr (EditProposed EffWritten))"
    by (simp add: edit_status_cas_def edit_once_def get example_edit p del: One_nat_def)
  have "reached (se_ext example_store_env) (ss_catalog example_state)"
    using example_store_reached by (simp add: example_store_env_def example_state_def)
  from status_edit_is_atomic [OF example_store_env_lawful this run] run show ?thesis
    by (simp add: upsert_condition_cas_def example_store_env_def example_state_def) blast
qed

end
