(* ===== verification/Collector.thy ===== *)
theory Collector
  imports Client
begin

text \<open>
  The garbage collector of orphaned dependents (\<open>engenho-controllers/src/gc/collect.rs\<close>,
  \<open>gc/served.rs\<close>, and the pass of \<open>gc.rs\<close>): the kinds served right now as a rest mapper, the
  classification of every owner reference, the decision, and the compare-and-swap write.
  The table of served kinds is an argument of every operation: it is built from a generated
  catalog and the stored custom resource definitions.

  The main result is about a store other writers write at the same time: an object is
  deleted only if every owner it names was seen not to be solid, and only if it still is
  the very object those owners were read from.
\<close>

section \<open>Served kinds\<close>

datatype kind_scope = NamespacedKind | ClusterKind

record served_kind =
  sv_group :: string
  sv_version :: string
  sv_kind :: string
  sv_plural :: string
  sv_scope :: kind_scope

datatype unresolvable =
    NoRestMapping string string
  | NamespacedOwnerOfClusterScoped
  | NotAList
  | Malformed nat

definition parse_group_version :: "string \<Rightarrow> (string \<times> string) option" where
  "parse_group_version api_version =
     (case split_on CHR ''/'' api_version of
        [v] \<Rightarrow> (if v \<noteq> [] then Some ([], v) else None)
      | [g, v] \<Rightarrow> (if v \<noteq> [] then Some (g, v) else None)
      | _ \<Rightarrow> None)"

definition served_find ::
  "served_kind list \<Rightarrow> string \<Rightarrow> string \<Rightarrow> string \<Rightarrow> served_kind option" where
  "served_find served g v k = find (\<lambda>s. sv_group s = g \<and> sv_version s = v \<and> sv_kind s = k) served"

definition is_ascii_uppercase :: "char \<Rightarrow> bool" where
  "is_ascii_uppercase c \<longleftrightarrow> (let n = of_char c :: nat in 65 \<le> n \<and> n \<le> 90)"

definition to_ascii_lowercase :: "char \<Rightarrow> char" where
  "to_ascii_lowercase c = (if is_ascii_uppercase c then char_of (of_char c + (32::nat)) else c)"

definition eq_ignore_ascii_case :: "string \<Rightarrow> string \<Rightarrow> bool" where
  "eq_ignore_ascii_case a b \<longleftrightarrow> map to_ascii_lowercase a = map to_ascii_lowercase b"

definition resolve_kind ::
  "served_kind list \<Rightarrow> string \<Rightarrow> string \<Rightarrow> (unresolvable, served_kind) result" where
  "resolve_kind served api_version k =
     (case parse_group_version api_version of
        None \<Rightarrow> Inl (NoRestMapping api_version k)
      | Some (g, v) \<Rightarrow>
          (let at_version = filter (\<lambda>s. sv_group s = g \<and> sv_version s = v) served;
               lowercase = (\<not> list_ex is_ascii_uppercase k)
           in case find (\<lambda>s. sv_kind s = k) at_version of
                Some s \<Rightarrow> Inr s
              | None \<Rightarrow>
                  (case find (\<lambda>s. lowercase \<and> eq_ignore_ascii_case (sv_kind s) k) at_version of
                     Some s \<Rightarrow> Inr s
                   | None \<Rightarrow> Inl (NoRestMapping api_version k))))"

definition other_versions :: "served_kind list \<Rightarrow> served_kind \<Rightarrow> served_kind list" where
  "other_versions served s =
     filter (\<lambda>k. sv_group k = sv_group s \<and> sv_kind k = sv_kind s \<and> sv_version k \<noteq> sv_version s) served"

section \<open>The state of an owner\<close>

datatype owner_state = Solid | Dangling | WaitingForDependents

definition foreground_deletion :: string where
  "foreground_deletion = ''foregroundDeletion''"

definition state_of_live_owner :: "json \<Rightarrow> owner_state" where
  "state_of_live_owner owner =
     (if is_terminating owner \<and> has_finalizer foreground_deletion owner then WaitingForDependents else Solid)"

definition key_at :: "served_kind \<Rightarrow> string option \<Rightarrow> string \<Rightarrow> resource_key" where
  "key_at s ns nm =
     (case ns of
        Some n \<Rightarrow> namespaced (sv_group s) (sv_version s) (sv_kind s) n nm
      | None \<Rightarrow> cluster_scoped (sv_group s) (sv_version s) (sv_kind s) nm)"

definition owner_namespace :: "served_kind \<Rightarrow> string option \<Rightarrow> (unresolvable, string option) result" where
  "owner_namespace s dependent_ns =
     (case (sv_scope s, dependent_ns) of
        (NamespacedKind, Some ns) \<Rightarrow> Inr (Some ns)
      | (NamespacedKind, None) \<Rightarrow> Inl NamespacedOwnerOfClusterScoped
      | (ClusterKind, _) \<Rightarrow> Inr None)"

fun look_up_owner ::
  "store_env \<Rightarrow> string option \<Rightarrow> owner_reference \<Rightarrow> served_kind list \<Rightarrow> store_state
    \<Rightarrow> store_state \<times> owner_state" where
  "look_up_owner env ns owner [] st = (st, Dangling)"
| "look_up_owner env ns owner (s # ss) st =
     (case store_get env (key_at s ns (or_name owner)) st of
        (st', None) \<Rightarrow> look_up_owner env ns owner ss st'
      | (st', Some v) \<Rightarrow>
          (if meta_uid v = Some (or_uid owner) then (st', state_of_live_owner v)
           else look_up_owner env ns owner ss st'))"

definition owner_state_of ::
  "store_env \<Rightarrow> served_kind list \<Rightarrow> string option \<Rightarrow> owner_reference \<Rightarrow> store_state
    \<Rightarrow> store_state \<times> (unresolvable, owner_state) result" where
  "owner_state_of env served dependent_ns owner st =
     (case resolve_kind served (or_api_version owner) (or_kind owner) of
        Inl why \<Rightarrow> (st, Inl why)
      | Inr s \<Rightarrow>
          (case owner_namespace s dependent_ns of
             Inl why \<Rightarrow> (st, Inl why)
           | Inr ns \<Rightarrow>
               (case look_up_owner env ns owner (s # other_versions served s) st of
                  (st', state) \<Rightarrow> (st', Inr state))))"

section \<open>Classification\<close>

record classified =
  cl_raw :: json
  cl_reference :: owner_reference
  cl_state :: owner_state

datatype decision = Keep | RemoveReferences "json list" "string list" | Delete

definition classified_uids :: "classified list \<Rightarrow> owner_state \<Rightarrow> string list" where
  "classified_uids cs state = map (or_uid \<circ> cl_reference) (filter (\<lambda>c. cl_state c = state) cs)"

definition is_solid :: "classified \<Rightarrow> bool" where
  "is_solid c \<longleftrightarrow> cl_state c = Solid"

definition decide :: "classified list \<Rightarrow> decision" where
  "decide cs =
     (if \<not> list_ex is_solid cs then Delete
      else
        (let keep = filter is_solid cs; remove = filter (Not \<circ> is_solid) cs
         in if remove = [] then Keep
            else RemoveReferences (map cl_raw keep) (map (or_uid \<circ> cl_reference) remove)))"

definition owner_references :: "json \<Rightarrow> (unresolvable, json list) result" where
  "owner_references v =
     (case member2 ''metadata'' ''ownerReferences'' v of
        None \<Rightarrow> Inr []
      | Some JNull \<Rightarrow> Inr []
      | Some (JArray refs) \<Rightarrow> Inr refs
      | Some _ \<Rightarrow> Inl NotAList)"

fun classify_refs ::
  "store_env \<Rightarrow> served_kind list \<Rightarrow> string option \<Rightarrow> nat \<Rightarrow> json list \<Rightarrow> store_state
    \<Rightarrow> store_state \<times> (unresolvable, classified list) result" where
  "classify_refs env served ns index [] st = (st, Inr [])"
| "classify_refs env served ns index (raw # raws) st =
     (case owner_reference_from_value raw of
        None \<Rightarrow> (st, Inl (Malformed index))
      | Some reference \<Rightarrow>
          (case owner_state_of env served ns reference st of
             (st1, Inl why) \<Rightarrow> (st1, Inl why)
           | (st1, Inr state) \<Rightarrow>
               (case classify_refs env served ns (Suc index) raws st1 of
                  (st2, Inl why) \<Rightarrow> (st2, Inl why)
                | (st2, Inr cs) \<Rightarrow>
                    (st2, Inr (\<lparr>cl_raw = raw, cl_reference = reference, cl_state = state\<rparr> # cs)))))"

section \<open>Collecting one dependent\<close>

record gc_candidate =
  gc_key :: resource_key
  gc_uid :: string
  gc_being_deleted :: bool

definition candidate_listed :: "resource_key \<Rightarrow> json \<Rightarrow> gc_candidate option" where
  "candidate_listed key v =
     (if owner_references v = Inr [] then None
      else map_option (\<lambda>u. \<lparr>gc_key = key, gc_uid = u, gc_being_deleted = is_terminating v\<rparr>) (meta_uid v))"

datatype collected =
    BeingDeleted
  | ItemGone
  | NoOwners
  | Unpinned
  | Unresolved unresolvable
  | Kept
  | ReferencesRemoved "string list" effect
  | CollectedDeleted effect

text \<open>The two writes of \<open>StoreEnv\<close>; the clock a delete carries is read when it is proposed.\<close>

definition gc_delete ::
  "store_env \<Rightarrow> resource_key \<Rightarrow> nat \<Rightarrow> store_state \<Rightarrow> store_state \<times> (controller_error, effect) result" where
  "gc_delete env key pinned st =
     (case store_propose env
             (cmd_delete_at key (Some pinned) GarbageCollector (Some (se_clock env (ss_calls st)))) st of
        (st', Inl e) \<Rightarrow> (st', Inl e)
      | (st', Inr out) \<Rightarrow> (st', Inr (effect_of (out_op out))))"

definition references_patch :: "json list \<Rightarrow> json" where
  "references_patch refs = JObject [(''metadata'', JObject [(''ownerReferences'', JArray refs)])]"

definition replace_owner_references ::
  "store_env \<Rightarrow> resource_key \<Rightarrow> json list \<Rightarrow> nat \<Rightarrow> store_state
    \<Rightarrow> store_state \<times> (controller_error, effect) result" where
  "replace_owner_references env key refs pinned st =
     (case store_propose env (cmd_patch_cas key (references_patch refs) (Some pinned) GarbageCollector) st of
        (st', Inl e) \<Rightarrow> (st', Inl e)
      | (st', Inr out) \<Rightarrow> (st', Inr (effect_of (out_op out))))"

definition act_on ::
  "store_env \<Rightarrow> resource_key \<Rightarrow> nat \<Rightarrow> decision \<Rightarrow> store_state
    \<Rightarrow> store_state \<times> (controller_error, collected) result" where
  "act_on env key pinned d st =
     (case d of
        Keep \<Rightarrow> (st, Inr Kept)
      | RemoveReferences keep remove \<Rightarrow>
          (case replace_owner_references env key keep pinned st of
             (st', Inl e) \<Rightarrow> (st', Inl e)
           | (st', Inr eff) \<Rightarrow> (st', Inr (ReferencesRemoved remove eff)))
      | Delete \<Rightarrow>
          (case gc_delete env key pinned st of
             (st', Inl e) \<Rightarrow> (st', Inl e)
           | (st', Inr eff) \<Rightarrow> (st', Inr (CollectedDeleted eff))))"

definition collect_live ::
  "store_env \<Rightarrow> served_kind list \<Rightarrow> gc_candidate \<Rightarrow> json \<Rightarrow> store_state
    \<Rightarrow> store_state \<times> (controller_error, collected) result" where
  "collect_live env served item live st =
     (if meta_uid live \<noteq> Some (gc_uid item) then (st, Inr ItemGone)
      else if is_terminating live then (st, Inr BeingDeleted)
      else
        (case owner_references live of
           Inl why \<Rightarrow> (st, Inr (Unresolved why))
         | Inr [] \<Rightarrow> (st, Inr NoOwners)
         | Inr refs \<Rightarrow>
             (case resource_version_of live of
                None \<Rightarrow> (st, Inr Unpinned)
              | Some pinned \<Rightarrow>
                  (case classify_refs env served (namespace (gc_key item)) 0 refs st of
                     (st', Inl why) \<Rightarrow> (st', Inr (Unresolved why))
                   | (st', Inr cs) \<Rightarrow> act_on env (gc_key item) pinned (decide cs) st'))))"

definition collect ::
  "store_env \<Rightarrow> served_kind list \<Rightarrow> gc_candidate \<Rightarrow> store_state
    \<Rightarrow> store_state \<times> (controller_error, collected) result" where
  "collect env served item st =
     (if gc_being_deleted item then (st, Inr BeingDeleted)
      else
        (case store_get env (gc_key item) st of
           (st', None) \<Rightarrow> (st', Inr ItemGone)
         | (st', Some live) \<Rightarrow> collect_live env served item live st'))"

section \<open>The pass\<close>

definition dependent_kinds :: "(string \<times> string \<times> string) list" where
  "dependent_kinds = [('''', ''v1'', ''Pod''), (''apps'', ''v1'', ''ReplicaSet'')]"

definition report_record :: "effect \<Rightarrow> reconcile_report \<Rightarrow> reconcile_report" where
  "report_record eff r =
     (case eff of
        EffWritten \<Rightarrow> r\<lparr>rr_changed := rr_changed r + 1\<rparr>
      | EffUnchanged \<Rightarrow> r
      | EffRejected _ \<Rightarrow> r\<lparr>rr_skipped := rr_skipped r + 1\<rparr>)"

definition record_collected :: "collected \<Rightarrow> reconcile_report \<Rightarrow> reconcile_report" where
  "record_collected c r =
     (case c of
        CollectedDeleted eff \<Rightarrow> report_record eff r
      | ReferencesRemoved _ eff \<Rightarrow> report_record eff r
      | _ \<Rightarrow> r)"

fun collect_listed ::
  "store_env \<Rightarrow> served_kind list \<Rightarrow> (resource_key \<times> json) list \<Rightarrow> store_state \<Rightarrow> reconcile_report
    \<Rightarrow> store_state \<times> (controller_error, reconcile_report) result" where
  "collect_listed env served [] st r = (st, Inr r)"
| "collect_listed env served ((key, v) # items) st r =
     (case candidate_listed key v of
        None \<Rightarrow> collect_listed env served items st r
      | Some item \<Rightarrow>
          (case collect env served item st of
             (st', Inl e) \<Rightarrow> (st', Inl e)
           | (st', Inr c) \<Rightarrow> collect_listed env served items st' (record_collected c r)))"

fun collect_kinds ::
  "store_env \<Rightarrow> served_kind list \<Rightarrow> string option \<Rightarrow> (string \<times> string \<times> string) list \<Rightarrow> store_state
    \<Rightarrow> reconcile_report \<Rightarrow> store_state \<times> (controller_error, reconcile_report) result" where
  "collect_kinds env served ns [] st r = (st, Inr r)"
| "collect_kinds env served ns ((g, v, k) # kinds) st r =
     (case store_list_call env g v k ns st of
        (st1, items) \<Rightarrow>
          (case collect_listed env served items st1 (r\<lparr>rr_examined := rr_examined r + length items\<rparr>) of
             (st2, Inl e) \<Rightarrow> (st2, Inl e)
           | (st2, Inr r') \<Rightarrow> collect_kinds env served ns kinds st2 r'))"

section \<open>Moments of a pass\<close>

text \<open>A read leaves the store to the other writers; the \<open>i\<close>-th read finds it at the \<open>i\<close>-th moment.\<close>

definition idle :: "store_env \<Rightarrow> store_state \<Rightarrow> store_state" where
  "idle env st = called (found env st) st"

definition moment :: "store_env \<Rightarrow> store_state \<Rightarrow> nat \<Rightarrow> resource_catalog" where
  "moment env st i = found env ((idle env ^^ i) st)"

lemma moment_0: "moment env st 0 = found env st"
  by (simp add: moment_def)

lemma moment_shift: "moment env ((idle env ^^ k) st) i = moment env st (i + k)"
  by (simp add: moment_def funpow_add)

lemma moment_idle: "moment env (idle env st) i = moment env st (Suc i)"
  using moment_shift [of env 1 st i] by simp

lemma idle_idle: "(idle env ^^ j) ((idle env ^^ k) st) = (idle env ^^ (j + k)) st"
  by (simp add: funpow_add)

lemma idle_catalog: "ss_catalog ((idle env ^^ Suc n) st) = moment env st n"
  by (simp add: idle_def called_def moment_def)

lemma moments_steps:
  assumes "lawful env" and "i \<le> j"
  shows "\<exists>es cs. cat_steps (se_ext env) (moment env st i) es cs (moment env st j)"
  using assms(2)
proof (induction j rule: dec_induct)
  case base
  then show ?case using steps_refl by blast
next
  case (step j)
  then obtain es cs where "cat_steps (se_ext env) (moment env st i) es cs (moment env st j)" by blast
  moreover obtain es' cs' where "cat_steps (se_ext env) (moment env st j) es' cs' (moment env st (Suc j))"
    using found_steps [OF assms(1), of "(idle env ^^ Suc j) st"]
    by (auto simp only: idle_catalog moment_def [of env st "Suc j", symmetric])
  ultimately show ?case using steps_trans by blast
qed

lemma moment_reached:
  assumes "lawful env" and "reached (se_ext env) (ss_catalog st)"
  shows "reached (se_ext env) (moment env st i)"
proof -
  have "reached (se_ext env) (moment env st 0)"
    using found_steps [OF assms(1), of st] reached_steps [OF assms(2)] by (metis moment_0)
  then show ?thesis using moments_steps [OF assms(1), of 0 i] reached_steps by blast
qed

lemma same_object_later:
  assumes "lawful env" and "reached (se_ext env) (ss_catalog st)"
    and "cat_get (moment env st 0) key = Some v" and "resource_version_of v = Some n"
    and "map_of (resources (moment env st i)) key = Some (v', vm')" and "mod_revision vm' = n"
  shows "v' = v"
proof -
  obtain vm where vm: "map_of (resources (moment env st 0)) key = Some (v, vm)"
    using assms(3) by (auto simp: cat_get_def)
  obtain es cs where "cat_steps (se_ext env) (moment env st 0) es cs (moment env st i)"
    using moments_steps [OF assms(1)] by blast
  from same_version_same_object [OF moment_reached [OF assms(1,2)] this vm assms(4-6)] show ?thesis .
qed

section \<open>What was seen of an owner\<close>

definition owner_at :: "resource_catalog \<Rightarrow> resource_key \<Rightarrow> string \<Rightarrow> owner_state option" where
  "owner_at cat key uid =
     (case cat_get cat key of
        Some v \<Rightarrow> (if meta_uid v = Some uid then Some (state_of_live_owner v) else None)
      | None \<Rightarrow> None)"

text \<open>
  The reads before moment \<open>n\<close> justify a state: some served version of the owner was found in
  it, or every served version was found missing or under another uid.
\<close>

definition seen ::
  "store_env \<Rightarrow> store_state \<Rightarrow> nat \<Rightarrow> string option \<Rightarrow> owner_reference \<Rightarrow> served_kind list \<Rightarrow> owner_state \<Rightarrow> bool" where
  "seen env st n ns owner ss state \<longleftrightarrow>
     (if state = Dangling
      then \<forall>s \<in> set ss. \<exists>i < n. owner_at (moment env st i) (key_at s ns (or_name owner)) (or_uid owner) = None
      else \<exists>s \<in> set ss. \<exists>i < n. owner_at (moment env st i) (key_at s ns (or_name owner)) (or_uid owner) = Some state)"

definition seen_ref ::
  "store_env \<Rightarrow> store_state \<Rightarrow> nat \<Rightarrow> served_kind list \<Rightarrow> string option \<Rightarrow> owner_reference \<Rightarrow> owner_state \<Rightarrow> bool" where
  "seen_ref env st n served dependent_ns owner state \<longleftrightarrow>
     (\<exists>s ns. resolve_kind served (or_api_version owner) (or_kind owner) = Inr s \<and>
        owner_namespace s dependent_ns = Inr ns \<and> seen env st n ns owner (s # other_versions served s) state)"

lemma seen_later:
  assumes "seen env ((idle env ^^ k) st) n ns owner ss state"
  shows "seen env st (n + k) ns owner ss state"
  using assms unfolding seen_def moment_shift by (meson add_less_cancel_right)

lemma seen_mono: "seen env st n ns owner ss state \<Longrightarrow> n \<le> m \<Longrightarrow> seen env st m ns owner ss state"
  unfolding seen_def by (meson order_less_le_trans)

lemma seen_ref_later:
  "seen_ref env ((idle env ^^ k) st) n served ns owner state \<Longrightarrow> seen_ref env st (n + k) served ns owner state"
  unfolding seen_ref_def using seen_later by blast

lemma seen_ref_mono:
  "seen_ref env st n served ns owner state \<Longrightarrow> n \<le> m \<Longrightarrow> seen_ref env st m served ns owner state"
  unfolding seen_ref_def using seen_mono by blast

lemma state_not_dangling: "state_of_live_owner v \<noteq> Dangling"
  by (simp add: state_of_live_owner_def)

lemma look_up_owner_seen:
  assumes "look_up_owner env ns owner ss st = (st', state)"
  shows "\<exists>n. st' = (idle env ^^ n) st \<and> seen env st n ns owner ss state"
  using assms
proof (induction ss arbitrary: st)
  case Nil
  then show ?case by (auto simp: seen_def intro: exI [of _ 0])
next
  case (Cons s ss)
  let ?key = "key_at s ns (or_name owner)"
  have get: "store_get env ?key st = (idle env st, cat_get (moment env st 0) ?key)"
    by (simp add: store_get_def idle_def moment_0)
  show ?case
  proof (cases "owner_at (moment env st 0) ?key (or_uid owner)")
    case None
    then have "look_up_owner env ns owner ss (idle env st) = (st', state)"
      using Cons.prems by (auto simp: get owner_at_def split: option.splits if_splits)
    then obtain n where n: "st' = (idle env ^^ n) (idle env st)" "seen env (idle env st) n ns owner ss state"
      using Cons.IH by blast
    then have later: "seen env st (n + 1) ns owner ss state" using seen_later [of env 1 st] by simp
    have "seen env st (n + 1) ns owner (s # ss) state"
      using later None unfolding seen_def by (auto split: if_splits)
    moreover have "st' = (idle env ^^ (n + 1)) st" using n(1) by (simp add: funpow_swap1)
    ultimately show ?thesis by blast
  next
    case (Some x)
    then have "st' = idle env st" "state = x" "x \<noteq> Dangling"
      using Cons.prems state_not_dangling by (auto simp: get owner_at_def split: option.splits if_splits)
    with Some show ?thesis by (intro exI [of _ 1]) (auto simp: seen_def)
  qed
qed

lemma owner_state_of_seen:
  assumes "owner_state_of env served ns owner st = (st', res)"
  shows "\<exists>n. st' = (idle env ^^ n) st \<and> (\<forall>state. res = Inr state \<longrightarrow> seen_ref env st n served ns owner state)"
proof (cases "\<exists>s ns'. resolve_kind served (or_api_version owner) (or_kind owner) = Inr s \<and> owner_namespace s ns = Inr ns'")
  case True
  then obtain s ns' where r: "resolve_kind served (or_api_version owner) (or_kind owner) = Inr s"
    "owner_namespace s ns = Inr ns'" by blast
  then obtain state where l: "look_up_owner env ns' owner (s # other_versions served s) st = (st', state)" "res = Inr state"
    using assms by (auto simp: owner_state_of_def split: prod.splits)
  with look_up_owner_seen [OF l(1)] r show ?thesis unfolding seen_ref_def by auto
next
  case False
  then have "st' = st \<and> (\<exists>why. res = Inl why)"
    using assms by (auto simp: owner_state_of_def split: sum.splits)
  then show ?thesis by (auto intro: exI [of _ 0])
qed

lemma classify_refs_seen:
  assumes "classify_refs env served ns i raws st = (st', res)"
  shows "\<exists>n. st' = (idle env ^^ n) st \<and>
    (\<forall>cs. res = Inr cs \<longrightarrow> map cl_raw cs = raws \<and>
      (\<forall>c \<in> set cs. owner_reference_from_value (cl_raw c) = Some (cl_reference c) \<and>
        seen_ref env st n served ns (cl_reference c) (cl_state c)))"
  using assms
proof (induction raws arbitrary: i st res)
  case Nil
  then show ?case by (auto intro: exI [of _ 0])
next
  case (Cons raw raws)
  show ?case
  proof (cases "owner_reference_from_value raw")
    case None
    with Cons.prems show ?thesis by (auto intro: exI [of _ 0])
  next
    case (Some reference)
    obtain st1 r1 where o: "owner_state_of env served ns reference st = (st1, r1)" by fastforce
    obtain k where k: "st1 = (idle env ^^ k) st"
      "\<And>state. r1 = Inr state \<Longrightarrow> seen_ref env st k served ns reference state"
      using owner_state_of_seen [OF o] by blast
    show ?thesis
    proof (cases r1)
      case (Inl why)
      with Cons.prems Some o k(1) show ?thesis by auto
    next
      case (Inr state)
      obtain r2 where c: "classify_refs env served ns (Suc i) raws st1 = (st', r2)"
        and res: "res = (case r2 of Inl why \<Rightarrow> Inl why
          | Inr cs \<Rightarrow> Inr (\<lparr>cl_raw = raw, cl_reference = reference, cl_state = state\<rparr> # cs))"
        using Cons.prems Some o Inr by (auto split: prod.splits sum.splits)
      obtain n where n: "st' = (idle env ^^ n) st1"
        "\<And>cs. r2 = Inr cs \<Longrightarrow> map cl_raw cs = raws \<and>
          (\<forall>c \<in> set cs. owner_reference_from_value (cl_raw c) = Some (cl_reference c) \<and>
            seen_ref env st1 n served ns (cl_reference c) (cl_state c))"
        using Cons.IH [OF c] by blast
      have "st' = (idle env ^^ (n + k)) st" using n(1) k(1) idle_idle by simp
      moreover have "map cl_raw cs = raw # raws \<and>
          (\<forall>c \<in> set cs. owner_reference_from_value (cl_raw c) = Some (cl_reference c) \<and>
            seen_ref env st (n + k) served ns (cl_reference c) (cl_state c))" if cs: "res = Inr cs" for cs
      proof -
        obtain cs' where "r2 = Inr cs'" "cs = \<lparr>cl_raw = raw, cl_reference = reference, cl_state = state\<rparr> # cs'"
          using cs res by (cases r2) auto
        with n(2) [of cs'] k(1) k(2) [OF Inr] Some seen_ref_later seen_ref_mono [of env st k served ns reference state "n + k"]
        show ?thesis by simp
      qed
      ultimately show ?thesis by blast
    qed
  qed
qed

section \<open>The writes\<close>

text \<open>What a delete that is accepted makes of the store: the object is gone, or marked.\<close>

definition deleted_entry :: "revision \<Rightarrow> string \<Rightarrow> stored \<Rightarrow> resource_key \<Rightarrow> stored" where
  "deleted_entry r ts m key =
     (case map_of m key of
        None \<Rightarrow> m
      | Some (v, vm) \<Rightarrow>
          (if \<not> has_finalizers v then bm_remove key m
           else if deletion_timestamp_of v \<noteq> None then m
           else bm_insert key (stamp_resource_version r (stamp_deletion_timestamp ts v), bumped_at vm r) m))"

lemma delete_cas_applied:
  assumes "unreadable cat = []"
    and "apply_logged E cat (proposed (cmd_delete_at key (Some n) why (Some ts))) t i = (cat', out)"
    and "effect_of (out_op out) = EffWritten"
  shows "(\<exists>v vm. map_of (resources cat) key = Some (v, vm) \<and> mod_revision vm = n) \<and>
    resources cat' = deleted_entry (cat_revision cat + 1) ts (resources cat) key"
proof -
  obtain cat1 where "dispatch E cat (cmd_delete_at key (Some n) why (Some ts)) OnSkip (cat_revision cat + 1) = (cat1, out)"
    and "resources cat' = resources cat1"
    using assms(1,2)
    by (auto simp: apply_logged_def apply_under_def proposed_def current_semantics_def
        unreadable_touched_by_def Let_def cat_revision_def wh_next_revision_def next_rev_def
        split: prod.splits option.splits)
  with assms(3) show ?thesis
    by (auto simp: dispatch_def cmd_delete_at_def apply_delete_def check_precondition_def deleted_entry_def
        store_and_emit_def put_entry_def remove_entry_def no_change_def with_change_def committed_def
        split: option.splits if_splits)
qed

lemma reached_clear: "reached E cat \<Longrightarrow> unreadable cat = []"
  by (auto dest!: reached_inv simp: cat_inv_def)

lemma decide_delete: "decide cs = Delete \<Longrightarrow> c \<in> set cs \<Longrightarrow> cl_state c \<noteq> Solid"
  by (auto simp: decide_def is_solid_def list_ex_iff Let_def split: if_splits)

lemma decide_remove:
  assumes "decide cs = RemoveReferences keep remove"
  shows "keep = map cl_raw (filter is_solid cs)" "keep \<noteq> []"
  using assms by (auto simp: decide_def list_ex_iff filter_empty_conv Let_def split: if_splits)

text \<open>A collection that goes beyond its reads: what it read, and what it then does.\<close>

lemma collect_acts:
  assumes "collect env served item st = (st', Inr res)"
    and "res = CollectedDeleted eff \<or> res = ReferencesRemoved uids eff"
  obtains n v refs pinned cs where
    "cat_get (moment env st 0) (gc_key item) = Some v" "meta_uid v = Some (gc_uid item)" "\<not> is_terminating v"
    "owner_references v = Inr refs" "refs \<noteq> []" "resource_version_of v = Some pinned"
    "map cl_raw cs = refs"
    "\<forall>c \<in> set cs. owner_reference_from_value (cl_raw c) = Some (cl_reference c) \<and>
       seen_ref env st n served (namespace (gc_key item)) (cl_reference c) (cl_state c)"
    "act_on env (gc_key item) pinned (decide cs) ((idle env ^^ n) st) = (st', Inr res)"
proof -
  let ?ns = "namespace (gc_key item)"
  have get: "store_get env (gc_key item) st = (idle env st, cat_get (moment env st 0) (gc_key item))"
    by (simp add: store_get_def idle_def moment_0)
  obtain v where v: "cat_get (moment env st 0) (gc_key item) = Some v"
      and live: "collect_live env served item v (idle env st) = (st', Inr res)"
    using assms by (auto simp: collect_def get split: if_splits option.splits)
  have u: "meta_uid v = Some (gc_uid item)" "\<not> is_terminating v"
    using live assms(2) by (auto simp: collect_live_def split: if_splits)
  obtain refs where refs: "owner_references v = Inr refs" "refs \<noteq> []"
    using live assms(2) u by (cases "owner_references v") (auto simp: collect_live_def split: list.splits)
  obtain pinned where pin: "resource_version_of v = Some pinned"
    using live assms(2) u refs
    by (cases "resource_version_of v") (auto simp: collect_live_def split: list.splits)
  obtain st1 r1 where cl: "classify_refs env served ?ns 0 refs (idle env st) = (st1, r1)" by fastforce
  obtain cs where cs: "r1 = Inr cs" "act_on env (gc_key item) pinned (decide cs) st1 = (st', Inr res)"
    using live assms(2) u refs pin cl
    by (cases r1) (auto simp: collect_live_def split: list.splits)
  obtain k where k: "st1 = (idle env ^^ k) (idle env st)" "map cl_raw cs = refs"
    "\<forall>c \<in> set cs. owner_reference_from_value (cl_raw c) = Some (cl_reference c) \<and>
      seen_ref env (idle env st) k served ?ns (cl_reference c) (cl_state c)"
    using classify_refs_seen [OF cl] cs(1) by blast
  have "st1 = (idle env ^^ (k + 1)) st" using k(1) by (simp add: funpow_swap1)
  moreover have "\<forall>c \<in> set cs. owner_reference_from_value (cl_raw c) = Some (cl_reference c) \<and>
      seen_ref env st (k + 1) served ?ns (cl_reference c) (cl_state c)"
    using k(3) seen_ref_later [of env 1 st k] by simp
  ultimately show thesis using that [of v refs pinned cs "k + 1"] v u refs pin k(2) cs(2) by blast
qed

text \<open>An accepted proposal at the end of the reads was applied at the last moment.\<close>

lemma propose_at_moment:
  assumes "store_propose env cmd ((idle env ^^ n) st) = (st', Inr out)"
    and "\<And>cat now. stamp_births cat now cmd = cmd"
  obtains t i where "apply_logged (se_ext env) (moment env st n) (proposed cmd) t i = (ss_catalog st', out)"
  using store_propose_applied [OF assms(1)] unfolding assms(2) moment_def by metis

section \<open>Properties\<close>

text \<open>
  C10. The garbage collector deletes only orphans, whatever other writers do meanwhile. When
  a delete of a dependent landed, the object it hit is the very object that was read first,
  of the listed uid and not being deleted; it names at least one owner, and each of its
  owner references resolves to a served kind and was seen not solid: at some moment of the
  pass one of its versions was waiting for its dependents, or every version was missing or
  of another uid. An object with a solid owner is not deleted.
\<close>

theorem gc_deletes_only_orphans:
  assumes "lawful env" and "reached (se_ext env) (ss_catalog st)"
    and "collect env served item st = (st', Inr (CollectedDeleted EffWritten))"
  shows "\<exists>n v refs ts. cat_get (moment env st 0) (gc_key item) = Some v \<and>
    cat_get (moment env st n) (gc_key item) = Some v \<and> meta_uid v = Some (gc_uid item) \<and> \<not> is_terminating v \<and>
    owner_references v = Inr refs \<and> refs \<noteq> [] \<and>
    (\<forall>r \<in> set refs. \<exists>owner state. owner_reference_from_value r = Some owner \<and> state \<noteq> Solid \<and>
      seen_ref env st n served (namespace (gc_key item)) owner state) \<and>
    resources (ss_catalog st') =
      deleted_entry (cat_revision (moment env st n) + 1) ts (resources (moment env st n)) (gc_key item)"
proof -
  obtain n v refs pinned cs where c: "cat_get (moment env st 0) (gc_key item) = Some v"
      "meta_uid v = Some (gc_uid item)" "\<not> is_terminating v" "owner_references v = Inr refs" "refs \<noteq> []"
      "resource_version_of v = Some pinned" "map cl_raw cs = refs"
      "\<forall>c \<in> set cs. owner_reference_from_value (cl_raw c) = Some (cl_reference c) \<and>
         seen_ref env st n served (namespace (gc_key item)) (cl_reference c) (cl_state c)"
      "act_on env (gc_key item) pinned (decide cs) ((idle env ^^ n) st) = (st', Inr (CollectedDeleted EffWritten))"
    using collect_acts [OF assms(3) disjI1 [OF refl]] .
  have del: "decide cs = Delete"
    using c(9) by (auto simp: act_on_def split: decision.splits prod.splits sum.splits)
  obtain ts out where p: "store_propose env
        (cmd_delete_at (gc_key item) (Some pinned) GarbageCollector (Some ts)) ((idle env ^^ n) st) = (st', Inr out)"
      "effect_of (out_op out) = EffWritten"
    using c(9) del by (auto simp: act_on_def gc_delete_def split: prod.splits sum.splits)
  obtain t i where ap: "apply_logged (se_ext env) (moment env st n)
      (proposed (cmd_delete_at (gc_key item) (Some pinned) GarbageCollector (Some ts))) t i = (ss_catalog st', out)"
    by (rule propose_at_moment [OF p(1)]) (simp_all add: cmd_delete_at_def)
  note d = delete_cas_applied [OF reached_clear [OF moment_reached [OF assms(1,2)]] ap p(2)]
  then have "cat_get (moment env st n) (gc_key item) = Some v"
    using same_object_later [OF assms(1,2) c(1,6), of n] by (auto simp: cat_get_def)
  moreover have "\<forall>r \<in> set refs. \<exists>owner state. owner_reference_from_value r = Some owner \<and> state \<noteq> Solid \<and>
      seen_ref env st n served (namespace (gc_key item)) owner state"
  proof
    fix r assume "r \<in> set refs"
    then obtain x where x: "x \<in> set cs" "r = cl_raw x" using c(7) by auto
    with c(8) decide_delete [OF del x(1)]
    show "\<exists>owner state. owner_reference_from_value r = Some owner \<and> state \<noteq> Solid \<and>
        seen_ref env st n served (namespace (gc_key item)) owner state" by blast
  qed
  ultimately show ?thesis using c(1-5) d by blast
qed

text \<open>
  C16. With a solid owner the dependent stays. When references were removed from a dependent,
  the object that was patched is the very object that was read first, at least one
  reference stays, the references that stay are exactly those that were seen solid, in
  their order, and nothing but the reference list of that object is patched.
\<close>

theorem gc_keeps_solid_owners:
  assumes "lawful env" and "reached (se_ext env) (ss_catalog st)"
    and "collect env served item st = (st', Inr (ReferencesRemoved uids EffWritten))"
  shows "\<exists>n v cs. cat_get (moment env st 0) (gc_key item) = Some v \<and>
    cat_get (moment env st n) (gc_key item) = Some v \<and> meta_uid v = Some (gc_uid item) \<and>
    owner_references v = Inr (map cl_raw cs) \<and>
    (\<forall>c \<in> set cs. owner_reference_from_value (cl_raw c) = Some (cl_reference c) \<and>
      seen_ref env st n served (namespace (gc_key item)) (cl_reference c) (cl_state c)) \<and>
    filter is_solid cs \<noteq> [] \<and>
    resources (ss_catalog st') =
      patch_entry (cat_revision (moment env st n) + 1) (references_patch (map cl_raw (filter is_solid cs)))
        (resources (moment env st n)) (gc_key item)"
proof -
  obtain n v refs pinned cs where c: "cat_get (moment env st 0) (gc_key item) = Some v"
      "meta_uid v = Some (gc_uid item)" "\<not> is_terminating v" "owner_references v = Inr refs" "refs \<noteq> []"
      "resource_version_of v = Some pinned" "map cl_raw cs = refs"
      "\<forall>c \<in> set cs. owner_reference_from_value (cl_raw c) = Some (cl_reference c) \<and>
         seen_ref env st n served (namespace (gc_key item)) (cl_reference c) (cl_state c)"
      "act_on env (gc_key item) pinned (decide cs) ((idle env ^^ n) st) = (st', Inr (ReferencesRemoved uids EffWritten))"
    using collect_acts [OF assms(3) disjI2 [OF refl]] .
  obtain keep where rem: "decide cs = RemoveReferences keep uids"
    using c(9) by (auto simp: act_on_def split: decision.splits prod.splits sum.splits)
  obtain out where p: "store_propose env
        (cmd_patch_cas (gc_key item) (references_patch keep) (Some pinned) GarbageCollector) ((idle env ^^ n) st) = (st', Inr out)"
      "effect_of (out_op out) = EffWritten"
    using c(9) rem by (auto simp: act_on_def replace_owner_references_def split: prod.splits sum.splits)
  obtain t i where ap: "apply_logged (se_ext env) (moment env st n)
      (proposed (cmd_patch_cas (gc_key item) (references_patch keep) (Some pinned) GarbageCollector)) t i = (ss_catalog st', out)"
    by (rule propose_at_moment [OF p(1)]) (simp_all add: cmd_patch_cas_def)
  note d = patch_cas_applied(1) [OF reached_clear [OF moment_reached [OF assms(1,2)]] ap p(2)]
  then have "cat_get (moment env st n) (gc_key item) = Some v"
    using same_object_later [OF assms(1,2) c(1,6), of n] by (auto simp: cat_get_def)
  with c(1,2,4,7,8) d decide_remove [OF rem] show ?thesis by auto
qed

section \<open>Witnesses\<close>

definition example_orphan :: "json list \<Rightarrow> json" where
  "example_orphan refs = JObject [(''metadata'', JObject [(''ownerReferences'', JArray refs), (''uid'', JString ''u'')])]"

definition example_ref :: "string \<Rightarrow> json" where
  "example_ref u =
     JObject [(''apiVersion'', JString ''apps/v1''), (''kind'', JString ''ReplicaSet''), (''name'', JString ''rs''), (''uid'', JString u)]"

definition example_served :: "served_kind list" where
  "example_served =
     [\<lparr>sv_group = ''apps'', sv_version = ''v1'', sv_kind = ''ReplicaSet'', sv_plural = ''replicasets'',
       sv_scope = NamespacedKind\<rparr>]"

definition example_owner_key :: resource_key where
  "example_owner_key = namespaced ''apps'' ''v1'' ''ReplicaSet'' ''ns'' ''rs''"

definition example_item :: gc_candidate where
  "example_item = \<lparr>gc_key = example_pod_key, gc_uid = ''u'', gc_being_deleted = False\<rparr>"

text \<open>The store after a replica set of uid \<open>o\<close> and a dependent of it with the given references.\<close>

definition example_owned :: "json list \<Rightarrow> resource_catalog" where
  "example_owned refs =
     (let cat1 = fst (apply_logged example_ext (catalog_new 4 (\<lambda>_ _. LReplace))
                  (proposed (cmd_put example_owner_key
                     (JObject [(''metadata'', JObject [(''uid'', JString ''o'')])]) Operator)) 1 1)
      in fst (apply_logged example_ext cat1 (proposed (cmd_put example_pod_key (example_orphan refs) Operator)) 1 2))"

lemma example_owned_reached: "reached example_ext (example_owned refs)"
proof -
  have one: "cat_steps E cat [(entry, t, i)] (out_changes (snd (apply_logged E cat entry t i)))
      (fst (apply_logged E cat entry t i))" for E cat entry t i
    using steps_snoc [OF steps_refl step_apply [OF prod.collapse [symmetric]]] by simp
  have "reached example_ext (catalog_new 4 (\<lambda>_ _. LReplace))"
    unfolding reached_def using steps_refl by blast
  then show ?thesis unfolding example_owned_def Let_def by (intro reached_steps [OF reached_steps [OF _ one] one])
qed

definition example_dependent :: "json list \<Rightarrow> json" where
  "example_dependent refs =
     JObject [(''metadata'', JObject [(''generation'', JNumber (PosInt 1)), (''ownerReferences'', JArray refs),
       (''resourceVersion'', JString (show_nat 2)), (''uid'', JString ''u'')])]"

definition example_owner :: json where
  "example_owner =
     JObject [(''metadata'', JObject [(''generation'', JNumber (PosInt 1)),
       (''resourceVersion'', JString (show_nat 1)), (''uid'', JString ''o'')])]"

abbreviation example_dangling :: "json list" where
  "example_dangling \<equiv> [example_ref ''x'']"

abbreviation example_mixed :: "json list" where
  "example_mixed \<equiv> [example_ref ''o'', example_ref ''x'']"

lemma example_owned_entries:
  "resources (example_owned example_dangling) =
    [(example_pod_key, example_dependent example_dangling, created_at 2), (example_owner_key, example_owner, created_at 1)]"
  "unreadable (example_owned example_dangling) = []"
  "resources (example_owned example_mixed) =
    [(example_pod_key, example_dependent example_mixed, created_at 2), (example_owner_key, example_owner, created_at 1)]"
  "unreadable (example_owned example_mixed) = []"
  by (code_simp, code_simp, code_simp, code_simp)

definition example_gc_state :: "json list \<Rightarrow> store_state" where
  "example_gc_state refs = \<lparr>ss_catalog = example_owned refs, ss_calls = 0\<rparr>"

lemma example_idle:
  "ss_catalog ((idle example_store_env ^^ n) (example_gc_state refs)) = example_owned refs"
  "found example_store_env ((idle example_store_env ^^ n) (example_gc_state refs)) = example_owned refs"
  by (induction n) (simp_all add: example_gc_state_def idle_def called_def found_def example_store_env_def)

lemma example_env_found [simp]: "found example_store_env st = ss_catalog st"
  by (simp add: found_def example_store_env_def)

lemma example_resolved:
  "resolve_kind example_served ''apps/v1'' ''ReplicaSet'' = Inr (hd example_served)"
  "other_versions example_served (hd example_served) = []"
  "owner_namespace (hd example_served) (Some ''ns'') = Inr (Some ''ns'')"
  "key_at (hd example_served) (Some ''ns'') ''rs'' = example_owner_key"
  by (simp_all add: resolve_kind_def parse_group_version_def example_served_def other_versions_def
      owner_namespace_def key_at_def example_owner_key_def)

lemma example_state_of:
  assumes "cat_get (ss_catalog st) example_owner_key = Some example_owner"
    and "owner_reference_from_value (example_ref u) = Some owner"
  shows "owner_state_of example_store_env example_served (Some ''ns'') owner st =
    (called (ss_catalog st) st, Inr (if u = ''o'' then Solid else Dangling))"
proof -
  have owner: "or_api_version owner = ''apps/v1''" "or_kind owner = ''ReplicaSet''" "or_name owner = ''rs''" "or_uid owner = u"
    using assms(2) by (auto simp: example_ref_def owner_reference_from_value_def owner_reference_parts_def read_flag_def)
  have "meta_uid example_owner = Some ''o''" "state_of_live_owner example_owner = Solid"
    by (simp_all add: meta_uid_def example_owner_def member2_def state_of_live_owner_def is_terminating_def
        deletion_timestamp_of_def)
  with owner assms(1) show ?thesis
    by (simp add: owner_state_of_def example_resolved store_get_def)
qed

lemma example_ref_reads: "\<exists>owner. owner_reference_from_value (example_ref u) = Some owner \<and> or_uid owner = u"
  by (simp add: example_ref_def owner_reference_from_value_def owner_reference_parts_def read_flag_def)

lemma called_catalog [simp]: "ss_catalog (called cat st) = cat"
  by (simp add: called_def)

lemma example_classified:
  assumes "cat_get (ss_catalog st) example_owner_key = Some example_owner"
  shows "\<exists>st' cs. classify_refs example_store_env example_served (Some ''ns'') i (map example_ref us) st = (st', Inr cs) \<and>
    ss_catalog st' = ss_catalog st \<and> map cl_raw cs = map example_ref us \<and>
    map is_solid cs = map (\<lambda>u. u = ''o'') us"
  using assms
proof (induction us arbitrary: i st)
  case (Cons u us)
  obtain owner where o: "owner_reference_from_value (example_ref u) = Some owner" using example_ref_reads by blast
  note s = example_state_of [OF Cons.prems o]
  obtain st' cs where "classify_refs example_store_env example_served (Some ''ns'') (Suc i) (map example_ref us)
      (called (ss_catalog st) st) = (st', Inr cs)" "ss_catalog st' = ss_catalog st" "map cl_raw cs = map example_ref us"
      "map is_solid cs = map (\<lambda>u. u = ''o'') us"
    using Cons.IH [of "called (ss_catalog st) st" "Suc i"] Cons.prems by auto
  then show ?case by (simp add: o s is_solid_def [abs_def])
qed simp

lemma example_dependent_reads:
  "meta_uid (example_dependent refs) = Some ''u''" "\<not> is_terminating (example_dependent refs)"
  "owner_references (example_dependent refs) = Inr refs" "resource_version_of (example_dependent refs) = Some 2"
  "\<not> has_finalizers (example_dependent refs)"
  by (simp_all add: example_dependent_def meta_uid_def member2_def is_terminating_def deletion_timestamp_of_def
      owner_references_def resource_version_of_def parse_usize_show_nat has_finalizers_def)

lemma example_owned_get:
  assumes "resources cat = [(example_pod_key, v, vm), (example_owner_key, w, wm)]"
  shows "cat_get cat example_pod_key = Some v" "cat_get cat example_owner_key = Some w"
  using assms by (simp_all add: cat_get_def example_pod_key_def example_owner_key_def namespaced_def)

lemma example_collects:
  assumes "resources cat = [(example_pod_key, example_dependent (map example_ref us), created_at 2),
      (example_owner_key, example_owner, created_at 1)]" and "us \<noteq> []"
  shows "\<exists>st cs. collect example_store_env example_served example_item \<lparr>ss_catalog = cat, ss_calls = 0\<rparr> =
      act_on example_store_env example_pod_key 2 (decide cs) st \<and> ss_catalog st = cat \<and>
      map cl_raw cs = map example_ref us \<and> map is_solid cs = map (\<lambda>u. u = ''o'') us"
proof -
  note get = example_owned_get [OF assms(1)]
  let ?st = "called cat \<lparr>ss_catalog = cat, ss_calls = 0\<rparr>"
  obtain st' cs where c: "classify_refs example_store_env example_served (Some ''ns'') 0 (map example_ref us) ?st = (st', Inr cs)"
      "ss_catalog st' = cat" "map cl_raw cs = map example_ref us" "map is_solid cs = map (\<lambda>u. u = ''o'') us"
    using example_classified [of ?st 0 us] get(2) by auto
  obtain u us' where us: "us = u # us'" using assms(2) by (cases us) auto
  have "namespace example_pod_key = Some ''ns''" by (simp add: example_pod_key_def namespaced_def)
  then have "collect example_store_env example_served example_item \<lparr>ss_catalog = cat, ss_calls = 0\<rparr> =
      act_on example_store_env example_pod_key 2 (decide cs) st'"
    using c(1) get(1)
    by (simp add: collect_def collect_live_def example_item_def store_get_def example_dependent_reads us del: classify_refs.simps)
  with c(2-4) show ?thesis by blast
qed

lemma example_deletes:
  "\<exists>st'. collect example_store_env example_served example_item (example_gc_state example_dangling) =
    (st', Inr (CollectedDeleted EffWritten))"
proof -
  note e = example_owned_entries(1,2)
  obtain st cs where c: "collect example_store_env example_served example_item
      \<lparr>ss_catalog = example_owned example_dangling, ss_calls = 0\<rparr> =
        act_on example_store_env example_pod_key 2 (decide cs) st" "ss_catalog st = example_owned example_dangling"
      "map is_solid cs = [False]"
    using example_collects [of "example_owned example_dangling" "[''x'']"] e(1) by auto
  have "decide cs = Delete" using c(3) by (auto simp: decide_def)
  then show ?thesis
    using c(1,2)
    by (simp add: example_gc_state_def act_on_def gc_delete_def store_propose_def propose_def write_refusal_def
        example_store_env_def found_def cmd_delete_at_def apply_logged_def apply_under_def proposed_def
        unreadable_touched_by_def e dispatch_def apply_delete_def check_precondition_def created_at_def
        example_dependent_reads with_change_def committed_def Let_def)
qed

lemma example_removes:
  "\<exists>st' uids. collect example_store_env example_served example_item (example_gc_state example_mixed) =
    (st', Inr (ReferencesRemoved uids EffWritten))"
proof -
  note e = example_owned_entries(3,4)
  obtain st cs where c: "collect example_store_env example_served example_item
      \<lparr>ss_catalog = example_owned example_mixed, ss_calls = 0\<rparr> =
        act_on example_store_env example_pod_key 2 (decide cs) st" "ss_catalog st = example_owned example_mixed"
      "map cl_raw cs = example_mixed" "map is_solid cs = [True, False]"
    using example_collects [of "example_owned example_mixed" "[''o'', ''x'']"] e(1) by auto
  obtain a b where cs: "cs = [a, b]" "is_solid a" "\<not> is_solid b" "cl_raw a = example_ref ''o''"
    using c(3,4) by (auto simp: map_eq_Cons_conv)
  then have "decide cs = RemoveReferences [example_ref ''o''] [or_uid (cl_reference b)]" by (simp add: decide_def)
  moreover have "\<not> finalizers_released (JObject [(''metadata'', JObject [(''generation'', g), (''ownerReferences'', o'),
      (''resourceVersion'', r), (''uid'', u)])])" for g o' r u
    by (simp add: finalizers_released_def deletion_timestamp_of_def member2_def)
  ultimately show ?thesis
    using c(1,2)
    by (simp add: example_gc_state_def act_on_def replace_owner_references_def references_patch_def store_propose_def
        propose_def write_refusal_def example_store_env_def found_def cmd_patch_cas_def apply_logged_def apply_under_def
        proposed_def current_semantics_def unreadable_touched_by_def e dispatch_def apply_patch_def check_precondition_def
        created_at_def patch_body_from_raw_def patch_apply_def example_dependent_def skips_def unchanged_def
        objects_equal_except_def computed_metadata_def finalizer_release_removal_def store_and_emit_def with_change_def
        committed_def Let_def)
qed

theorem gc_deletes_only_orphans_witness:
  "\<exists>st' n v refs ts. cat_get (moment example_store_env (example_gc_state example_dangling) n) example_pod_key = Some v \<and>
    owner_references v = Inr refs \<and>
    (\<forall>r \<in> set refs. \<exists>owner state. owner_reference_from_value r = Some owner \<and> state \<noteq> Solid) \<and>
    collect example_store_env example_served example_item (example_gc_state example_dangling) =
      (st', Inr (CollectedDeleted EffWritten)) \<and>
    resources (ss_catalog st') =
      deleted_entry (cat_revision (moment example_store_env (example_gc_state example_dangling) n) + 1) ts
        (resources (moment example_store_env (example_gc_state example_dangling) n)) example_pod_key"
proof -
  obtain st' where run: "collect example_store_env example_served example_item (example_gc_state example_dangling) =
    (st', Inr (CollectedDeleted EffWritten))" using example_deletes by blast
  have "reached (se_ext example_store_env) (ss_catalog (example_gc_state example_dangling))"
    using example_owned_reached by (simp add: example_store_env_def example_gc_state_def)
  from gc_deletes_only_orphans [OF example_store_env_lawful this run] run show ?thesis
    by (simp add: example_item_def) blast
qed

theorem gc_keeps_solid_owners_witness:
  "\<exists>st' uids n cs. collect example_store_env example_served example_item (example_gc_state example_mixed) =
      (st', Inr (ReferencesRemoved uids EffWritten)) \<and> filter is_solid cs \<noteq> [] \<and>
    resources (ss_catalog st') =
      patch_entry (cat_revision (moment example_store_env (example_gc_state example_mixed) n) + 1)
        (references_patch (map cl_raw (filter is_solid cs)))
        (resources (moment example_store_env (example_gc_state example_mixed) n)) example_pod_key"
proof -
  obtain st' uids where run: "collect example_store_env example_served example_item (example_gc_state example_mixed) =
    (st', Inr (ReferencesRemoved uids EffWritten))" using example_removes by blast
  have "reached (se_ext example_store_env) (ss_catalog (example_gc_state example_mixed))"
    using example_owned_reached by (simp add: example_store_env_def example_gc_state_def)
  from gc_keeps_solid_owners [OF example_store_env_lawful this run] run show ?thesis
    by (simp add: example_item_def) blast
qed

end
