(* ===== verification/Spec2Isabelle.thy ===== *)
theory Spec2Isabelle
  imports Watch Ticks Collector
begin

text \<open>
  Verification of the engenho control plane, a Kubernetes control plane in Rust.

  \<^bold>\<open>The program.\<close> Every node of a cluster holds the same \<^emph>\<open>store\<close>: a state machine of
  resources (\<open>engenho-store\<close>) whose commands Raft replicates. The API server and the
  controllers read the store, watch it, and propose commands to it. The \<^emph>\<open>scheduler\<close>
  (\<open>engenho-scheduler\<close>) is one such client: a tick lists pods and nodes and binds pending
  pods. The \<^emph>\<open>garbage collector\<close> (\<open>engenho-controllers\<close>) is another: it deletes what no
  owner holds any more. The parts meet at two places. A client proposes through
  \<open>StoreMesh::propose\<close>, modelled by \<open>propose\<close> of \<open>Proposal\<close>, which stamps births and ends in
  \<open>apply_logged\<close> of \<open>Catalog\<close>; and it reads through \<open>list_at_revision\<close> and \<open>cat_get\<close> of
  \<open>Reads\<close>.

  \<^bold>\<open>Representation.\<close> A \<open>BTreeMap\<close> is its list of entries in ascending key order, a
  \<open>serde_json::Value\<close> the datatype \<open>json\<close>, a Rust enum a datatype, a struct a record, a
  \<open>Result\<close> a sum with the error on the left. Mutation is state passing. Revisions and counts
  are natural numbers; machine integers keep their width where the code saturates, wraps or
  parses (128-bit quantities, the 64-bit round-robin cursor, 64-bit \<open>usize\<close> text, the 32-bit
  miss counter). Code of other crates is an argument: the text form of JSON, the decoder of
  patch operations and the hash (\<open>externals\<close>), the cipher and base64 (\<open>AtRest\<close>), the text of
  floats, the age of a timestamp, the clock, and how Raft answers a proposal
  (\<open>raft_answer\<close>). What other writers do is an argument too: a function of the store
  (\<open>rf_others\<close>, \<open>se_others\<close>).

  \<^bold>\<open>The store.\<close>
  \<^item> \<open>Prelude\<close>: ordered maps behind the locale \<open>keyed_map\<close>, ranges with their panics,
    decimal text. \<open>Json\<close>: documents and their well-formedness. \<open>Hex\<close>: hexadecimal text.
  \<^item> \<open>Resource\<close> (\<open>resource.rs\<close>): keys, their order, list scopes; the range a LIST asks for
    never panics and is exactly the scope.
  \<^item> \<open>Revision\<close> (\<open>revision.rs\<close>, \<open>watch_history.rs\<close>): the bounded replay ring refines the
    unbounded change log (locale \<open>replay_log\<close>); eviction terminates.
  \<^item> \<open>Patch\<close> (\<open>patch_apply.rs\<close>): merge, JSON and strategic merge patches: a merge patch means what
    RFC 7396 says, an added member can be removed again, a merge by key leaves the elements it
    does not name alone, and documents stay well formed.
  \<^item> \<open>Ssa\<close> (\<open>ssa.rs\<close>): server-side apply; where ownership overlaps only at equal paths the
    conflicts are exactly the contested ones; the ledger records exactly what was applied, and
    ownership survives its wire form. Further lemmas exhibit where overlap at unequal depth is
    missed and where field removal goes wrong.
  \<^item> \<open>Command\<close> (\<open>command.rs\<close>), \<open>AtRest\<close> (\<open>at_rest.rs\<close>): commands and log entries, sealed
    values; what was sealed opens to itself.
  \<^item> \<open>Catalog\<close> (\<open>state.rs\<close>): every handler that changes the store, and dispatch. \<open>Changes\<close>
    states once what a handler promises (locale \<open>single_write\<close>, interpreted on each).
    \<open>Image\<close>: the durable image, its round trip, and that it holds no secret in the open.
    \<open>Handlers\<close>: what each write means to a client (finalizers and the writes that release
    them, no-change writes, identity, generation, transactions).
  \<^item> \<open>Runs\<close>: the life of a replica (applying, compacting, restarting) as the step relation
    \<open>cat_step\<close>. From the empty store: the invariant, convergence of replicas, no lost
    updates, and list-then-watch without gaps.
  \<^item> \<open>Reads\<close> (\<open>read.rs\<close>, \<open>pagination.rs\<close>, \<open>state.rs\<close>): reads of the present and the past,
    pages and continue tokens. \<open>Watch\<close> (\<open>watch.rs\<close>): filtered watches. What a write that
    takes a last finalizer away leaves in the history is not the object that was stored, so
    reads of the past exempt the objects so removed (\<open>unreleased\<close>), and a filtered watch is
    exact where the selector judges such an object as it judged the stored one
    (\<open>removed_alike\<close>); two lemmas exhibit what happens otherwise.
  \<^item> \<open>Proposal\<close> (\<open>mesh.rs\<close>, \<open>fjall_store.rs\<close>, \<open>birth.rs\<close>, \<open>pod.rs\<close>): births, refused writes
    and \<open>propose\<close>.

  \<^bold>\<open>The scheduler.\<close>
  \<^item> \<open>Quantity\<close> (\<open>quantity.rs\<close>): parsing and printing in 128-bit arithmetic.
  \<^item> \<open>Capacity\<close> (\<open>fit.rs\<close>, \<open>ledger.rs\<close>): what a pod is charged and what a node has left.
  \<^item> \<open>Feasibility\<close> (\<open>node_lease.rs\<close>, \<open>observed.rs\<close>, \<open>capability.rs\<close>, \<open>predicates.rs\<close>,
    \<open>filter.rs\<close>, \<open>strategy.rs\<close>): the feasible set is exactly the nodes every rule admits.
  \<^item> \<open>Placement\<close> (\<open>affinity.rs\<close>, \<open>preemption.rs\<close>): affinity and spread are exact; a
    preemption plan is the shortest prefix of the permitted victims in order that makes room,
    which need not be a smallest set.
  \<^item> \<open>Scheduling\<close> (\<open>scope.rs\<close>, \<open>config_bridge.rs\<close>, \<open>scheduler.rs\<close>): the tick, over the store.
    \<open>Ticks\<close>: it never overcommits a node while the other writers spare the pending pods and the
    books of the nodes (\<open>spares\<close>); undisturbed (\<open>quiet\<close>), with every proposal committing
    (\<open>commits\<close>), it binds exactly the pods that fit in their turn, and repeated it comes to rest.

  \<^bold>\<open>The controllers.\<close>
  \<^item> \<open>ObjectMeta\<close> (\<open>spec_int.rs\<close>, \<open>meta.rs\<close>, \<open>owner.rs\<close>, \<open>selector.rs\<close>): what controllers read
    and write of an opaque object.
  \<^item> \<open>Client\<close> (\<open>curve.rs\<close>, \<open>effect.rs\<close>, \<open>error.rs\<close>, \<open>condition.rs\<close>, \<open>status.rs\<close>): calls to a
    store that others write between any two calls (\<open>store_env\<close>). A condition is set exactly
    once; a status edit is atomic.
  \<^item> \<open>Collector\<close> (\<open>gc.rs\<close>, \<open>gc/collect.rs\<close>, \<open>gc/served.rs\<close>): only orphans are deleted, and a
    solid owner keeps its dependent, whatever happens between the reads and the write.

  \<^bold>\<open>Hypotheses.\<close> \<open>lawful\<close> says that the other writers go through the store, \<open>reached\<close> that the
  store came from the empty one; \<open>spares\<close>, \<open>quiet\<close> and \<open>commits\<close> bound what happens beside a
  scheduler tick, and \<open>unreleased\<close> and \<open>removed_alike\<close> what the history records; the hypotheses of \<open>AtRest\<close> and \<open>Image\<close> say that the cipher
  opens what it sealed and that JSON text parses to what was printed. Each is met by a
  concrete instance in the witness of every property that has it.

  \<^bold>\<open>Bounds and termination.\<close> No operation runs on fuel. Loops are structural recursion, with four
  measures beside it: eviction ends because the ring shrinks, stripping because the text
  does, and the strategic merge and the fieldset of a configuration descend the document. The
  undisturbed scheduler comes to rest within one tick more than there are pending pods. The capacity of
  the ring is an argument, at least one.

  \<^bold>\<open>Not modelled.\<close> Raft itself, the transports, the fjall files and the asynchronous runtime:
  what they decide is an argument. Of the controllers: the workload, network, storage and
  admission loops, the per-object sweep and the watch driver, and the expiry of events at
  the start of a collector tick. The table of served kinds is an argument of the collector,
  being built from a generated catalog and the stored resource definitions. The API server's
  HTTP handlers, the kubelet and its container runtimes, network and volume plugins, the
  distribution layer, the etcd facade, configuration rendering, code generation and the
  command-line tools are I/O around third-party libraries or have not been modelled.
\<close>

end
